(* ===== verification/Go_Prelude.thy ===== *)
theory Go_Prelude
  imports Main "HOL-Library.Finite_Map" "HOL-Library.State_Monad" "HOL-Library.Sublist"
    "HOL-Library.Char_ord" "HOL-Library.List_Lexorder"
begin

text \<open>
  Shared material: the parts of Go and its standard library that the program uses (string
  splitting and trimming, map lookups with a zero value, loops with \<open>continue\<close> and early
  \<open>return\<close>, panics), a weakest-precondition calculus for the state monad, and the
  theorem collections the component theories extend.
\<close>

named_theorems wp_rules \<open>rewrite rules of the weakest-precondition calculus\<close>
declare split_paired_All [simp del] split_paired_Ex [simp del]

named_theorems go_defs \<open>definitions of small helpers that proofs unfold together\<close>

subsection \<open>Strings\<close>

text \<open>
  A Go string is a sequence of bytes; a \<open>char\<close> is one byte. \<open>split_on c s\<close> is
  \<open>strings.Split(s, sep)\<close> for a separator of one byte, \<open>cut_at c s\<close> the first two
  results of \<open>strings.Cut(s, sep)\<close>.
\<close>

fun split_on :: "char \<Rightarrow> string \<Rightarrow> string list" where
  "split_on c [] = [[]]"
| "split_on c (x # xs) =
     (if x = c then [] # split_on c xs
      else (case split_on c xs of [] \<Rightarrow> [[x]] | p # ps \<Rightarrow> (x # p) # ps))"

fun join_with :: "char \<Rightarrow> string list \<Rightarrow> string" where
  "join_with c [] = []"
| "join_with c [p] = p"
| "join_with c (p # q # ps) = p @ c # join_with c (q # ps)"

fun cut_at :: "char \<Rightarrow> string \<Rightarrow> string \<times> string" where
  "cut_at c [] = ([], [])"
| "cut_at c (x # xs) =
     (if x = c then ([], xs) else (let (a, b) = cut_at c xs in (x # a, b)))"

text \<open>
  \<open>strings.TrimSpace\<close> removes leading and trailing code points that
  \<open>unicode.IsSpace\<close> accepts. These are their UTF-8 encodings.
\<close>

definition space_bytes :: "string list" where
  "space_bytes =
     [[CHR 0x09], [CHR 0x0A], [CHR 0x0B], [CHR 0x0C], [CHR 0x0D], [CHR 0x20],
      [CHR 0xC2, CHR 0x85], [CHR 0xC2, CHR 0xA0],
      [CHR 0xE1, CHR 0x9A, CHR 0x80],
      [CHR 0xE2, CHR 0x80, CHR 0x80], [CHR 0xE2, CHR 0x80, CHR 0x81],
      [CHR 0xE2, CHR 0x80, CHR 0x82], [CHR 0xE2, CHR 0x80, CHR 0x83],
      [CHR 0xE2, CHR 0x80, CHR 0x84], [CHR 0xE2, CHR 0x80, CHR 0x85],
      [CHR 0xE2, CHR 0x80, CHR 0x86], [CHR 0xE2, CHR 0x80, CHR 0x87],
      [CHR 0xE2, CHR 0x80, CHR 0x88], [CHR 0xE2, CHR 0x80, CHR 0x89],
      [CHR 0xE2, CHR 0x80, CHR 0x8A], [CHR 0xE2, CHR 0x80, CHR 0xA8],
      [CHR 0xE2, CHR 0x80, CHR 0xA9], [CHR 0xE2, CHR 0x80, CHR 0xAF],
      [CHR 0xE2, CHR 0x81, CHR 0x9F], [CHR 0xE3, CHR 0x80, CHR 0x80]]"

function drop_prefixes :: "string list \<Rightarrow> string \<Rightarrow> string" where
  "drop_prefixes ws s =
     (case find (\<lambda>w. w \<noteq> [] \<and> prefix w s) ws of
        None \<Rightarrow> s
      | Some w \<Rightarrow> drop_prefixes ws (drop (length w) s))"
  by pat_completeness auto
termination
proof (relation "measure (\<lambda>(ws, s). length s)")
  fix ws s and w :: string
  assume "find (\<lambda>w. w \<noteq> [] \<and> prefix w s) ws = Some w"
  then have "w \<noteq> []" and "prefix w s" by (auto simp: find_Some_iff)
  then have "0 < length w" and "length w \<le> length s" by (auto dest: prefix_length_le)
  then have "length s - length w < length s" by linarith
  then show "((ws, drop (length w) s), ws, s) \<in> measure (\<lambda>(ws, s). length s)" by simp
qed simp

declare drop_prefixes.simps [simp del]

definition TrimSpace :: "string \<Rightarrow> string" where
  "TrimSpace s =
     rev (drop_prefixes (map rev space_bytes) (rev (drop_prefixes space_bytes s)))"

definition HasPrefix :: "string \<Rightarrow> string \<Rightarrow> bool" where
  "HasPrefix s p \<longleftrightarrow> length p \<le> length s \<and> take (length p) s = p"

lemma HasPrefix_prefix: "HasPrefix s p \<longleftrightarrow> prefix p s"
  by (auto simp: HasPrefix_def prefix_def) (metis append_take_drop_id)

lemma split_on_nonempty [simp]: "split_on c s \<noteq> []"
  by (induction s) (auto split: list.splits)

lemma split_on_free: "p \<in> set (split_on c s) \<Longrightarrow> c \<notin> set p"
proof (induction s arbitrary: p)
  case Nil
  then show ?case by simp
next
  case (Cons x s)
  then show ?case
    by (cases "split_on c s") (auto split: if_splits)
qed

lemma join_split: "join_with c (split_on c s) = s"
proof (induction s)
  case Nil
  show ?case by simp
next
  case (Cons x s)
  obtain p ps where sp: "split_on c s = p # ps"
    by (cases "split_on c s") auto
  with Cons show ?case by (cases ps) auto
qed

lemma split_on_no_sep: "c \<notin> set p \<Longrightarrow> split_on c p = [p]"
  by (induction p) auto

lemma split_on_append: "c \<notin> set p \<Longrightarrow> split_on c (p @ c # s) = p # split_on c s"
  by (induction p) auto

lemma split_join:
  "ps \<noteq> [] \<Longrightarrow> (\<And>p. p \<in> set ps \<Longrightarrow> c \<notin> set p) \<Longrightarrow> split_on c (join_with c ps) = ps"
  by (induction c ps rule: join_with.induct) (auto simp: split_on_no_sep split_on_append)

lemma cut_at_no_sep: "c \<notin> set s \<Longrightarrow> cut_at c s = (s, [])"
  by (induction s) auto

lemma cut_at_append: "c \<notin> set p \<Longrightarrow> cut_at c (p @ c # s) = (p, s)"
  by (induction p) auto

lemma cut_at_fst_free: "c \<notin> set (fst (cut_at c s))"
  by (induction s) (auto split: prod.splits)

lemma drop_prefixes_fixed:
  "find (\<lambda>w. w \<noteq> [] \<and> prefix w s) ws = None \<Longrightarrow> drop_prefixes ws s = s"
  by (subst drop_prefixes.simps) simp

lemma drop_prefixes_done:
  "find (\<lambda>w. w \<noteq> [] \<and> prefix w (drop_prefixes ws s)) ws = None"
proof (induction ws s rule: drop_prefixes.induct)
  case (1 ws s)
  show ?case
  proof (cases "find (\<lambda>w. w \<noteq> [] \<and> prefix w s) ws")
    case None
    then show ?thesis by (simp add: drop_prefixes_fixed)
  next
    case (Some w)
    with "1.IH" show ?thesis by (simp add: drop_prefixes.simps [of ws s])
  qed
qed

lemma drop_prefixes_suffix: "suffix (drop_prefixes ws s) s"
proof (induction ws s rule: drop_prefixes.induct)
  case (1 ws s)
  show ?case
  proof (cases "find (\<lambda>w. w \<noteq> [] \<and> prefix w s) ws")
    case None
    then show ?thesis by (simp add: drop_prefixes_fixed)
  next
    case (Some w)
    with "1.IH" show ?thesis
      by (auto simp: drop_prefixes.simps [of ws s] intro: suffix_order.trans suffix_drop)
  qed
qed

text \<open>A string is trimmed when no white space starts or ends it; \<open>TrimSpace\<close> trims.\<close>

lemma space_bytes_nonempty: "w \<in> set space_bytes \<Longrightarrow> w \<noteq> []"
  by (auto simp: space_bytes_def)

lemma drop_prefixes_id_iff:
  assumes "[] \<notin> set ws"
  shows "drop_prefixes ws s = s \<longleftrightarrow> (\<forall>w\<in>set ws. \<not> prefix w s)"
proof
  assume "drop_prefixes ws s = s"
  then show "\<forall>w\<in>set ws. \<not> prefix w s"
    using drop_prefixes_done [of ws s] assms by (auto simp: find_None_iff)
next
  assume "\<forall>w\<in>set ws. \<not> prefix w s"
  then show "drop_prefixes ws s = s"
    by (intro drop_prefixes_fixed) (auto simp: find_None_iff)
qed

lemma drop_prefixes_no_prefix:
  "[] \<notin> set ws \<Longrightarrow> w \<in> set ws \<Longrightarrow> \<not> prefix w (drop_prefixes ws s)"
  using drop_prefixes_done [of ws s] by (auto simp: find_None_iff)

lemma nil_space_bytes [simp]: "[] \<notin> set space_bytes"
  by (auto simp: space_bytes_def)

lemma nil_rev_space_bytes [simp]: "[] \<notin> rev ` set space_bytes"
  by (auto simp: space_bytes_def)

definition trimmed :: "string \<Rightarrow> bool" where
  "trimmed s \<longleftrightarrow> list_all (\<lambda>w. \<not> prefix w s \<and> \<not> suffix w s) space_bytes"

lemma trimmed_TrimSpace [simp]: "trimmed (TrimSpace s)"
proof -
  define t where "t = drop_prefixes space_bytes s"
  define r where "r = drop_prefixes (map rev space_bytes) (rev t)"
  have r: "TrimSpace s = rev r" by (simp add: TrimSpace_def r_def t_def)
  have "suffix r (rev t)" by (simp add: r_def drop_prefixes_suffix)
  then have pre: "prefix (rev r) t" by (simp add: suffix_to_prefix)
  have "\<not> prefix w (rev r)" if "w \<in> set space_bytes" for w
    using drop_prefixes_no_prefix [OF nil_space_bytes that, of s] pre
    by (auto simp: t_def [symmetric] dest: prefix_order.trans)
  moreover have "\<not> suffix w (rev r)" if "w \<in> set space_bytes" for w
    using drop_prefixes_no_prefix [of "map rev space_bytes" "rev w" "rev t"] that nil_space_bytes
    by (auto simp: r_def [symmetric] suffix_to_prefix)
  ultimately show ?thesis by (simp add: trimmed_def list_all_iff r)
qed

lemma TrimSpace_trimmed [simp]: "trimmed s \<Longrightarrow> TrimSpace s = s"
proof -
  assume t: "trimmed s"
  then have "drop_prefixes space_bytes s = s"
    by (simp add: drop_prefixes_id_iff trimmed_def list_all_iff)
  moreover have "drop_prefixes (map rev space_bytes) (rev s) = rev s"
    using t nil_space_bytes
    by (subst drop_prefixes_id_iff) (auto simp: trimmed_def list_all_iff suffix_to_prefix)
  ultimately show ?thesis by (simp add: TrimSpace_def)
qed

lemma trimmed_iff: "trimmed s \<longleftrightarrow> TrimSpace s = s"
  by (metis TrimSpace_trimmed trimmed_TrimSpace)

lemma trimmed_Nil [simp]: "trimmed []"
  by (auto simp: trimmed_def list_all_iff)

text \<open>Two trimmed strings joined by a byte that is not part of white space are trimmed.\<close>

lemma prefix_before:
  assumes "prefix w (p @ c # q)" and "c \<notin> set w"
  shows "prefix w p"
proof -
  have "prefix w p \<or> prefix p w"
    using assms(1) prefix_same_cases [of w "p @ c # q" p] by auto
  then show ?thesis
  proof
    assume "prefix p w"
    then obtain v where w: "w = p @ v" by (auto simp: prefix_def)
    with assms show ?thesis by (cases v) auto
  qed
qed

lemma suffix_after:
  assumes "suffix w (p @ c # q)" and "c \<notin> set w"
  shows "suffix w q"
  using prefix_before [of "rev w" "rev q" c "rev p"] assms by (simp add: suffix_to_prefix)

lemma trimmed_join:
  assumes "trimmed p" and "trimmed q" and "list_all (\<lambda>w. c \<notin> set w) space_bytes"
  shows "trimmed (p @ c # q)"
  using assms prefix_before [of _ p c q] suffix_after [of _ p c q]
  by (auto simp: trimmed_def list_all_iff)

subsection \<open>Maps\<close>

text \<open>
  A Go map is a finite map. \<open>map_index m k\<close> is \<open>m[k]\<close> for a map to strings: the
  zero value \<open>""\<close> where the key is absent. A set is a map to booleans that may be nil
  (\<open>None\<close>); looking a key up in a nil map is allowed and gives \<open>false\<close>.
\<close>

type_synonym string_map = "(string, string) fmap"
type_synonym string_set = "(string, bool) fmap option"

definition map_index :: "string_map \<Rightarrow> string \<Rightarrow> string" where
  "map_index m k = (case fmlookup m k of None \<Rightarrow> [] | Some v \<Rightarrow> v)"

definition set_index :: "string_set \<Rightarrow> string \<Rightarrow> bool" where
  "set_index m k = (case m of None \<Rightarrow> False | Some f \<Rightarrow> fmlookup f k = Some True)"

text \<open>\<open>maps.Equal\<close>: as many keys, and every key of the first in the second with an equal value.\<close>

definition maps_Equal :: "string_map \<Rightarrow> string_map \<Rightarrow> bool" where
  "maps_Equal a b \<longleftrightarrow>
     fcard (fmdom a) = fcard (fmdom b) \<and>
     fBall (fmdom a) (\<lambda>k. k |\<in>| fmdom b \<and> fmlookup a k = fmlookup b k)"

lemma fmap_eq_by_card:
  assumes "fcard (fmdom a) = fcard (fmdom b)"
    and "\<And>k. k |\<in>| fmdom a \<Longrightarrow> k |\<in>| fmdom b \<and> fmlookup a k = fmlookup b k"
  shows "a = b"
proof -
  have sub: "fmdom a |\<subseteq>| fmdom b" using assms(2) by auto
  have "fmdom a = fmdom b"
    using sub assms(1) by (metis fcard_seteq order_refl)
  show ?thesis
  proof (rule fmap_ext)
    fix k
    show "fmlookup a k = fmlookup b k"
      using assms(2) \<open>fmdom a = fmdom b\<close> by (metis fmdom_notD)
  qed
qed

lemma maps_Equal_iff [simp]: "maps_Equal a b \<longleftrightarrow> a = b"
  by (auto simp: maps_Equal_def intro!: fmap_eq_by_card)

lemma fmdom_empty_iff [simp]: "fmdom m = {||} \<longleftrightarrow> m = fmempty"
proof
  assume "fmdom m = {||}"
  then show "m = fmempty" by (metis fmap_ext fmdom_notD fempty_iff fmempty_lookup)
qed simp

lemma singleton_only: "S \<noteq> {} \<Longrightarrow> S = {a} \<longleftrightarrow> (\<forall>k. k = a \<or> k \<notin> S)"
  by auto

lemma set_index_None [simp]: "\<not> set_index None k"
  by (simp add: set_index_def)

lemma set_index_upd [simp]:
  "set_index (Some (fmupd j True f)) k \<longleftrightarrow> k = j \<or> set_index (Some f) k"
  by (auto simp: set_index_def)

lemma set_index_empty [simp]: "\<not> set_index (Some fmempty) k"
  by (simp add: set_index_def)

subsection \<open>Control flow\<close>

text \<open>
  A call that dereferences a nil interface value or fails a type assertion panics: it
  returns no value and unwinds its callers. \<open>call m f\<close> runs \<open>m\<close> and goes on with
  \<open>f\<close> on its results, unless \<open>m\<close> panicked.
\<close>

datatype 'a outcome = Ret 'a | Panic

definition call ::
  "('s, 'a outcome) state \<Rightarrow> ('a \<Rightarrow> ('s, 'b outcome) state) \<Rightarrow> ('s, 'b outcome) state" where
  "call m f = do {
     r \<leftarrow> m;
     case r of Panic \<Rightarrow> State_Monad.return Panic | Ret a \<Rightarrow> f a
   }"

text \<open>
  \<open>step_call m f\<close> is the same inside the body of a loop, whose panic leaves the loop; an
  \<open>iteration\<close> either goes on to the next element with new values of the loop variables, or
  returns from the enclosing function.
\<close>

datatype ('a, 'r) flow = Next 'a | Return 'r

definition step_call ::
  "('s, 'a outcome) state \<Rightarrow> ('a \<Rightarrow> ('s, ('b, 'r outcome) flow) state) \<Rightarrow>
     ('s, ('b, 'r outcome) flow) state" where
  "step_call m f = do {
     r \<leftarrow> m;
     case r of Panic \<Rightarrow> State_Monad.return (Return Panic) | Ret a \<Rightarrow> f a
   }"

text \<open>
  \<open>for_range xs body a\<close> is \<open>for x := range xs { body }\<close> over the loop variables
  \<open>a\<close>.
\<close>

fun for_range ::
  "'x list \<Rightarrow> ('x \<Rightarrow> 'a \<Rightarrow> ('s, ('a, 'r) flow) state) \<Rightarrow> 'a \<Rightarrow> ('s, ('a, 'r) flow) state" where
  "for_range [] body a = State_Monad.return (Next a)"
| "for_range (x # xs) body a = do {
     f \<leftarrow> body x a;
     case f of
       Next a' \<Rightarrow> for_range xs body a'
     | Return r \<Rightarrow> State_Monad.return (Return r)
   }"

subsection \<open>Weakest preconditions\<close>

definition wp :: "('s, 'a) state \<Rightarrow> ('a \<Rightarrow> 's \<Rightarrow> bool) \<Rightarrow> 's \<Rightarrow> bool" where
  "wp m Q s \<longleftrightarrow> Q (fst (run_state m s)) (snd (run_state m s))"

lemma wp_return [wp_rules]: "wp (State_Monad.return a) Q s \<longleftrightarrow> Q a s"
  by (simp add: wp_def)

lemma wp_bind [wp_rules]: "wp (State_Monad.bind m f) Q s \<longleftrightarrow> wp m (\<lambda>a. wp (f a) Q) s"
  by (simp add: wp_def split: prod.splits)

lemma wp_get [wp_rules]: "wp State_Monad.get Q s \<longleftrightarrow> Q s s"
  by (simp add: wp_def)

lemma wp_update [wp_rules]: "wp (State_Monad.update f) Q s \<longleftrightarrow> Q () (f s)"
  by (simp add: wp_def State_Monad.update_def)

lemma wp_call [wp_rules]:
  "wp (call m f) Q s \<longleftrightarrow>
     wp m (\<lambda>r s'. case r of Panic \<Rightarrow> Q Panic s' | Ret a \<Rightarrow> wp (f a) Q s') s"
  by (simp add: call_def wp_bind) (simp add: wp_def split: outcome.splits)

lemma wp_step_call [wp_rules]:
  "wp (step_call m f) Q s \<longleftrightarrow>
     wp m (\<lambda>r s'. case r of Panic \<Rightarrow> Q (Return Panic) s' | Ret a \<Rightarrow> wp (f a) Q s') s"
  by (simp add: step_call_def wp_bind) (simp add: wp_def split: outcome.splits)

lemma wp_mono: "wp m Q s \<Longrightarrow> (\<And>a s'. Q a s' \<Longrightarrow> R a s') \<Longrightarrow> wp m R s"
  by (simp add: wp_def)

lemma wp_conj: "wp m Q s \<Longrightarrow> wp m R s \<Longrightarrow> wp m (\<lambda>a s'. Q a s' \<and> R a s') s"
  by (simp add: wp_def)

lemma wp_run: "run_state m s = (a, s') \<Longrightarrow> wp m Q s \<longleftrightarrow> Q a s'"
  by (simp add: wp_def)

lemma wp_if: "wp (if b then m else n) Q s \<longleftrightarrow> (if b then wp m Q s else wp n Q s)"
  by simp

lemma wp_for_range_aux:
  assumes step: "\<And>ys x zs a s. ws @ xs = ys @ x # zs \<Longrightarrow> I ys a s \<Longrightarrow>
      wp (body x a) (\<lambda>f s'. case f of Next a' \<Rightarrow> I (ys @ [x]) a' s' | Return r \<Rightarrow> Q (Return r) s') s"
    and finish: "\<And>a s. I (ws @ xs) a s \<Longrightarrow> Q (Next a) s"
    and init: "I ws a s"
  shows "wp (for_range xs body a) Q s"
  using assms
proof (induction xs arbitrary: ws a s)
  case Nil
  then show ?case by (simp add: wp_rules)
next
  case (Cons x xs)
  have "wp (body x a)
      (\<lambda>f s'. case f of Next a' \<Rightarrow> I (ws @ [x]) a' s' | Return r \<Rightarrow> Q (Return r) s') s"
    using Cons.prems(1) [of ws x xs] Cons.prems(3) by simp
  moreover have "I (ws @ [x]) a' s' \<Longrightarrow> wp (for_range xs body a') Q s'" for a' s'
    using Cons.IH [of "ws @ [x]" a' s'] Cons.prems(1,2) by simp
  ultimately show ?case
    by (auto simp: wp_rules elim!: wp_mono split: flow.splits)
qed

text \<open>
  The loop rule: an invariant that may speak of the elements already visited, kept by every
  iteration that goes on; an iteration that returns establishes the result directly.
\<close>

lemma wp_for_range:
  assumes "I [] a s"
    and "\<And>ys x zs a s. xs = ys @ x # zs \<Longrightarrow> I ys a s \<Longrightarrow>
      wp (body x a) (\<lambda>f s'. case f of Next a' \<Rightarrow> I (ys @ [x]) a' s' | Return r \<Rightarrow> Q (Return r) s') s"
    and "\<And>a s. I xs a s \<Longrightarrow> Q (Next a) s"
  shows "wp (for_range xs body a) Q s"
  using wp_for_range_aux [of "[]" xs I body Q a s] assms by simp

end
