(* ===== verification/Objects.thy ===== *)
theory Objects
  imports Go_Prelude
begin

text \<open>
  The Kubernetes objects the controller handles, as far as the code reads or writes them, and
  the payload functions of \<open>internal/controller/replikate.go\<close>: \<open>emptyLike\<close>,
  \<open>emptyListLike\<close>, \<open>listItems\<close>, \<open>copyContents\<close>, \<open>contentEqual\<close>, \<open>byteMapEqual\<close> and
  \<open>isAdoptable\<close>, with \<open>kindOf\<close> of \<open>metrics.go\<close>.

  A \<open>client.Object\<close> is a ConfigMap, a Secret or some other kind (the \<open>default\<close> branches of
  the type switches); a failed type assertion is \<open>None\<close>. A byte slice is a string.
\<close>

datatype content =
    ConfigMap (cmData: string_map) (cmBinaryData: string_map)
  | Secret (secData: string_map) (secType: string)
  | OtherContent

record object =
  Namespace :: string
  Name :: string
  Labels :: string_map
  Annotations :: string_map
  Finalizers :: "string list"
  DeletionTimestamp :: "string option"
  UID :: string
  ResourceVersion :: string
  Content :: content

datatype kind = ConfigMapKind | SecretKind | OtherKind

text \<open>A list result carries the kind of its items, as \<open>ConfigMapList\<close> and \<open>SecretList\<close> do.\<close>

datatype ObjectList =
    ConfigMapList "object list"
  | SecretList "object list"
  | OtherList

record namespace =
  ns_Name :: string
  ns_Labels :: string_map
  ns_DeletionTimestamp :: "string option"
  ns_UID :: string

definition zero_object :: "content \<Rightarrow> object" where
  "zero_object c =
     \<lparr>Namespace = [], Name = [], Labels = fmempty, Annotations = fmempty, Finalizers = [],
      DeletionTimestamp = None, UID = [], ResourceVersion = [], Content = c\<rparr>"

definition objKind :: "object \<Rightarrow> kind" where
  "objKind obj = (case Content obj of
     ConfigMap _ _ \<Rightarrow> ConfigMapKind | Secret _ _ \<Rightarrow> SecretKind | OtherContent \<Rightarrow> OtherKind)"

type_synonym okey = "kind \<times> string \<times> string"

definition okey :: "object \<Rightarrow> okey" where
  "okey obj = (objKind obj, Namespace obj, Name obj)"

definition listKind :: "ObjectList \<Rightarrow> kind" where
  "listKind l = (case l of
     ConfigMapList _ \<Rightarrow> ConfigMapKind | SecretList _ \<Rightarrow> SecretKind | OtherList \<Rightarrow> OtherKind)"

definition kindOf :: "object \<Rightarrow> string" where
  "kindOf obj = (case Content obj of
     ConfigMap _ _ \<Rightarrow> ''configmap'' | Secret _ _ \<Rightarrow> ''secret'' | OtherContent \<Rightarrow> ''unknown'')"

definition kubedOriginPrefix :: string where
  "kubedOriginPrefix = ''kubed.appscode.com/origin''"

definition isAdoptable :: "object \<Rightarrow> bool" where
  "isAdoptable obj \<longleftrightarrow>
     kubedOriginPrefix |\<in>| fmdom (Annotations obj) \<or>
     fBex (fmdom (Labels obj)) (\<lambda>k. HasPrefix k kubedOriginPrefix)"

definition emptyLike :: "object \<Rightarrow> object option" where
  "emptyLike obj = (case Content obj of
     ConfigMap _ _ \<Rightarrow> Some (zero_object (ConfigMap fmempty fmempty))
   | Secret _ _ \<Rightarrow> Some (zero_object (Secret fmempty []))
   | OtherContent \<Rightarrow> None)"

definition emptyListLike :: "object \<Rightarrow> ObjectList option" where
  "emptyListLike obj = (case Content obj of
     ConfigMap _ _ \<Rightarrow> Some (ConfigMapList [])
   | Secret _ _ \<Rightarrow> Some (SecretList [])
   | OtherContent \<Rightarrow> None)"

fun listItems :: "ObjectList \<Rightarrow> object list" where
  "listItems (ConfigMapList items) = items"
| "listItems (SecretList items) = items"
| "listItems OtherList = []"

definition copyContents :: "object \<Rightarrow> object \<Rightarrow> object option" where
  "copyContents src dst = (case Content src of
     ConfigMap d b \<Rightarrow> (case Content dst of
         ConfigMap _ _ \<Rightarrow> Some (dst\<lparr>Content := ConfigMap d b\<rparr>)
       | _ \<Rightarrow> None)
   | Secret d t \<Rightarrow> (case Content dst of
         Secret _ _ \<Rightarrow> Some (dst\<lparr>Content := Secret d t\<rparr>)
       | _ \<Rightarrow> None)
   | OtherContent \<Rightarrow> Some dst)"

definition byteMapEqual :: "string_map \<Rightarrow> string_map \<Rightarrow> bool" where
  "byteMapEqual a b \<longleftrightarrow>
     (if fcard (fmdom a) \<noteq> fcard (fmdom b) then False
      else fBall (fmdom a) (\<lambda>k. case fmlookup b k of
             None \<Rightarrow> False | Some w \<Rightarrow> map_index a k = w))"

definition contentEqual :: "object \<Rightarrow> object \<Rightarrow> bool option" where
  "contentEqual a b =
     (if \<not> maps_Equal (Labels a) (Labels b) \<or> \<not> maps_Equal (Annotations a) (Annotations b)
      then Some False
      else (case Content a of
          ConfigMap d e \<Rightarrow> (case Content b of
              ConfigMap d' e' \<Rightarrow> Some (maps_Equal d d' \<and> byteMapEqual e e')
            | _ \<Rightarrow> None)
        | Secret d t \<Rightarrow> (case Content b of
              Secret d' t' \<Rightarrow> Some (t = t' \<and> byteMapEqual d d')
            | _ \<Rightarrow> None)
        | OtherContent \<Rightarrow> Some False))"

subsection \<open>Facts\<close>

lemma objKind_update [simp]:
  "objKind (obj\<lparr>Labels := l\<rparr>) = objKind obj"
  "objKind (obj\<lparr>Annotations := a\<rparr>) = objKind obj"
  "objKind (obj\<lparr>Finalizers := f\<rparr>) = objKind obj"
  "objKind (obj\<lparr>DeletionTimestamp := t\<rparr>) = objKind obj"
  "objKind (obj\<lparr>UID := u\<rparr>) = objKind obj"
  "objKind (obj\<lparr>ResourceVersion := v\<rparr>) = objKind obj"
  "objKind (obj\<lparr>Namespace := n\<rparr>) = objKind obj"
  "objKind (obj\<lparr>Name := m\<rparr>) = objKind obj"
  by (simp_all add: objKind_def)

lemma okey_update [simp]:
  "okey (obj\<lparr>Labels := l\<rparr>) = okey obj"
  "okey (obj\<lparr>Annotations := a\<rparr>) = okey obj"
  "okey (obj\<lparr>Finalizers := f\<rparr>) = okey obj"
  "okey (obj\<lparr>DeletionTimestamp := t\<rparr>) = okey obj"
  "okey (obj\<lparr>UID := u\<rparr>) = okey obj"
  "okey (obj\<lparr>ResourceVersion := v\<rparr>) = okey obj"
  by (simp_all add: okey_def)

lemma objKind_cases:
  "objKind obj = ConfigMapKind \<longleftrightarrow> (\<exists>d b. Content obj = ConfigMap d b)"
  "objKind obj = SecretKind \<longleftrightarrow> (\<exists>d t. Content obj = Secret d t)"
  "objKind obj = OtherKind \<longleftrightarrow> Content obj = OtherContent"
  by (auto simp: objKind_def split: content.splits)

lemma emptyLike_Some:
  "objKind obj \<noteq> OtherKind \<Longrightarrow>
     \<exists>c. emptyLike obj = Some (zero_object c) \<and> objKind (zero_object c) = objKind obj"
  by (auto simp: emptyLike_def objKind_def zero_object_def split: content.splits)

lemma emptyLike_None: "emptyLike obj = None \<longleftrightarrow> objKind obj = OtherKind"
  by (auto simp: emptyLike_def objKind_def split: content.splits)

lemma emptyLike_kind: "emptyLike obj = Some e \<Longrightarrow> objKind e = objKind obj"
  by (auto simp: emptyLike_def objKind_def zero_object_def split: content.splits)

lemma emptyLike_zero: "emptyLike obj = Some e \<Longrightarrow> \<exists>c. e = zero_object c"
  by (auto simp: emptyLike_def split: content.splits)

lemma emptyListLike_kind: "emptyListLike obj = Some l \<Longrightarrow> listKind l = objKind obj"
  by (auto simp: emptyListLike_def objKind_def listKind_def split: content.splits)

lemma emptyListLike_None: "emptyListLike obj = None \<longleftrightarrow> objKind obj = OtherKind"
  by (auto simp: emptyListLike_def objKind_def split: content.splits)

lemma copyContents_same_kind:
  "objKind src = objKind dst \<Longrightarrow> copyContents src dst = Some (dst\<lparr>Content := Content src\<rparr>)"
  by (cases dst) (auto simp: copyContents_def objKind_def split: content.splits)

lemma copyContents_None:
  "copyContents src dst = None \<longleftrightarrow> objKind src \<noteq> OtherKind \<and> objKind src \<noteq> objKind dst"
  by (auto simp: copyContents_def objKind_def split: content.splits)

lemma byteMapEqual_iff: "byteMapEqual a b \<longleftrightarrow> a = b"
proof
  assume eq: "byteMapEqual a b"
  then have "fcard (fmdom a) = fcard (fmdom b)"
    by (simp add: byteMapEqual_def split: if_splits)
  moreover have "k |\<in>| fmdom b \<and> fmlookup a k = fmlookup b k" if "k |\<in>| fmdom a" for k
  proof -
    from eq that have "case fmlookup b k of None \<Rightarrow> False | Some w \<Rightarrow> map_index a k = w"
      by (auto simp: byteMapEqual_def split: if_splits)
    with that show ?thesis
      by (auto simp: map_index_def fmlookup_dom_iff split: option.splits)
  qed
  ultimately show "a = b" by (rule fmap_eq_by_card)
next
  assume "a = b"
  then show "byteMapEqual a b"
    by (auto simp: byteMapEqual_def map_index_def fmlookup_dom_iff split: option.splits)
qed

text \<open>
  Two objects of the same replicable kind compare equal exactly when their labels, their
  annotations and their payload are the same.
\<close>

lemma contentEqual_same_kind:
  "objKind a = objKind b \<Longrightarrow> objKind a \<noteq> OtherKind \<Longrightarrow>
     contentEqual a b =
       Some (Labels a = Labels b \<and> Annotations a = Annotations b \<and> Content a = Content b)"
  by (auto simp: contentEqual_def objKind_def byteMapEqual_iff split: content.splits)

lemma contentEqual_None:
  "contentEqual a b = None \<longleftrightarrow>
     Labels a = Labels b \<and> Annotations a = Annotations b \<and>
     objKind a \<noteq> OtherKind \<and> objKind a \<noteq> objKind b"
  by (auto simp: contentEqual_def objKind_def split: content.splits)

end
