(* ===== verification/Domain_Keys.thy ===== *)
theory Domain_Keys
  imports Objects
begin

text \<open>
  The annotation and label contract: \<open>Keys\<close> of \<open>internal/controller/replikate.go\<close> (the
  keys of one domain) and \<open>KeySet\<close> of \<open>internal/controller/keyset.go\<close> (a primary domain
  for writes and legacy domains for reads). The finalizer helpers of \<open>controllerutil\<close> are
  not part of the program: they are the record \<open>finalizer_util\<close>, and what the code relies on
  is the locale \<open>finalizer_laws\<close>. What the syncer relies on in a key set is the locale
  \<open>copy_marks\<close>, interpreted on \<open>KeySet\<close> here.
\<close>

subsection \<open>The keys of one domain\<close>

definition DefaultDomain :: string where
  "DefaultDomain = ''replikate.ubixsys.com''"

definition DefaultPreviousDomain :: string where
  "DefaultPreviousDomain = ''replikate.brainchurts.com''"

definition ManagedByValue :: string where
  "ManagedByValue = ''replikate''"

definition lastAppliedAnnotation :: string where
  "lastAppliedAnnotation = ''kubectl.kubernetes.io/last-applied-configuration''"

record Keys =
  Domain :: string
  SyncAnnotation :: string
  TargetClustersAnnotation :: string
  Finalizer :: string
  ManagedByLabel :: string
  OriginNSLabel :: string
  OriginNameLabel :: string
  OriginClusterLabel :: string
  CredentialLabel :: string

definition NewKeys :: "string \<Rightarrow> Keys" where
  "NewKeys domain =
     \<lparr>Domain = domain,
      SyncAnnotation = domain @ ''/sync'',
      TargetClustersAnnotation = domain @ ''/target-clusters'',
      Finalizer = domain @ ''/finalizer'',
      ManagedByLabel = domain @ ''/managed-by'',
      OriginNSLabel = domain @ ''/origin-namespace'',
      OriginNameLabel = domain @ ''/origin-name'',
      OriginClusterLabel = domain @ ''/origin-cluster'',
      CredentialLabel = domain @ ''/cluster-credential''\<rparr>"

definition Keys_isSource :: "Keys \<Rightarrow> object \<Rightarrow> bool" where
  "Keys_isSource k obj \<longleftrightarrow> SyncAnnotation k |\<in>| fmdom (Annotations obj)"

definition Keys_isManagedCopy :: "Keys \<Rightarrow> object \<Rightarrow> bool" where
  "Keys_isManagedCopy k obj \<longleftrightarrow> map_index (Labels obj) (ManagedByLabel k) = ManagedByValue"

definition Keys_ownsCopy :: "Keys \<Rightarrow> object \<Rightarrow> object \<Rightarrow> string \<Rightarrow> bool" where
  "Keys_ownsCopy k cp src originCluster =
     (let ls = Labels cp in
      if map_index ls (OriginNSLabel k) \<noteq> Namespace src \<or>
         map_index ls (OriginNameLabel k) \<noteq> Name src
      then False
      else if originCluster \<noteq> [] \<and> map_index ls (OriginClusterLabel k) \<noteq> [] \<and>
              map_index ls (OriginClusterLabel k) \<noteq> originCluster
      then False
      else True)"

definition Keys_applyCopyMeta :: "Keys \<Rightarrow> object \<Rightarrow> object \<Rightarrow> string \<Rightarrow> object" where
  "Keys_applyCopyMeta k src dst originCluster =
     (let out = fmempty ++\<^sub>f Labels src;
          out = fmupd (ManagedByLabel k) ManagedByValue out;
          out = fmupd (OriginNSLabel k) (Namespace src) out;
          out = fmupd (OriginNameLabel k) (Name src) out;
          out = (if originCluster \<noteq> [] then fmupd (OriginClusterLabel k) originCluster out else out);
          dst = dst\<lparr>Labels := out\<rparr>;
          ann = fmfilter (\<lambda>key. \<not> (key = SyncAnnotation k \<or> key = lastAppliedAnnotation))
                  (Annotations src)
      in dst\<lparr>Annotations := ann\<rparr>)"

subsection \<open>A key set: one primary domain and the legacy ones\<close>

record KeySet =
  Primary :: Keys
  Legacy :: "Keys list"

fun NewKeySet_legacy :: "string \<Rightarrow> string list \<Rightarrow> Keys list \<Rightarrow> Keys list" where
  "NewKeySet_legacy primaryDomain [] acc = acc"
| "NewKeySet_legacy primaryDomain (d # ds) acc =
     (let d = TrimSpace d in
      if d = [] \<or> d = primaryDomain then NewKeySet_legacy primaryDomain ds acc
      else NewKeySet_legacy primaryDomain ds (acc @ [NewKeys d]))"

definition NewKeySet :: "string \<Rightarrow> string list \<Rightarrow> KeySet" where
  "NewKeySet primaryDomain legacyDomains =
     \<lparr>Primary = NewKeys primaryDomain,
      Legacy = NewKeySet_legacy primaryDomain legacyDomains []\<rparr>"

definition each :: "KeySet \<Rightarrow> Keys list" where
  "each ks = [Primary ks] @ Legacy ks"

definition keysFor :: "KeySet \<Rightarrow> object \<Rightarrow> Keys option" where
  "keysFor ks cp =
     (let ls = Labels cp in
      if map_index ls (ManagedByLabel (Primary ks)) = ManagedByValue then Some (Primary ks)
      else find (\<lambda>lk. map_index ls (ManagedByLabel lk) = ManagedByValue) (Legacy ks))"

definition isSource :: "KeySet \<Rightarrow> object \<Rightarrow> bool" where
  "isSource ks obj \<longleftrightarrow>
     list_ex (\<lambda>k. SyncAnnotation k |\<in>| fmdom (Annotations obj)) (each ks)"

fun syncValue_in :: "Keys list \<Rightarrow> string_map \<Rightarrow> (string \<times> string) option" where
  "syncValue_in [] ann = None"
| "syncValue_in (k # kl) ann =
     (case fmlookup ann (SyncAnnotation k) of
        Some v \<Rightarrow> Some (SyncAnnotation k, v)
      | None \<Rightarrow> syncValue_in kl ann)"

definition syncValue :: "KeySet \<Rightarrow> string_map \<Rightarrow> (string \<times> string) option" where
  "syncValue ks ann = syncValue_in (each ks) ann"

fun targetClustersValue_in :: "Keys list \<Rightarrow> string_map \<Rightarrow> string option" where
  "targetClustersValue_in [] ann = None"
| "targetClustersValue_in (k # kl) ann =
     (case fmlookup ann (TargetClustersAnnotation k) of
        Some v \<Rightarrow> Some v
      | None \<Rightarrow> targetClustersValue_in kl ann)"

definition targetClustersValue :: "KeySet \<Rightarrow> string_map \<Rightarrow> string option" where
  "targetClustersValue ks ann = targetClustersValue_in (each ks) ann"

definition isManagedCopy :: "KeySet \<Rightarrow> object \<Rightarrow> bool" where
  "isManagedCopy ks obj \<longleftrightarrow> keysFor ks obj \<noteq> None"

definition ownsCopy :: "KeySet \<Rightarrow> object \<Rightarrow> object \<Rightarrow> string \<Rightarrow> bool" where
  "ownsCopy ks cp src originCluster =
     (case keysFor ks cp of
        None \<Rightarrow> False
      | Some k \<Rightarrow> Keys_ownsCopy k cp src originCluster)"

definition ownerRef :: "KeySet \<Rightarrow> object \<Rightarrow> string \<times> string \<times> string" where
  "ownerRef ks cp =
     (case keysFor ks cp of
        None \<Rightarrow> ([], [], [])
      | Some k \<Rightarrow> (let ls = Labels cp in
          (map_index ls (OriginNSLabel k), map_index ls (OriginNameLabel k),
           map_index ls (OriginClusterLabel k))))"

definition originCluster_of :: "KeySet \<Rightarrow> object \<Rightarrow> string" where
  "originCluster_of ks cp =
     (case keysFor ks cp of
        None \<Rightarrow> []
      | Some k \<Rightarrow> map_index (Labels cp) (OriginClusterLabel k))"

definition copyOrigin :: "KeySet \<Rightarrow> object \<Rightarrow> string \<times> string \<times> bool" where
  "copyOrigin ks obj =
     (case keysFor ks obj of
        None \<Rightarrow> ([], [], False)
      | Some k \<Rightarrow>
          (let ls = Labels obj;
               ns = map_index ls (OriginNSLabel k);
               nm = map_index ls (OriginNameLabel k)
           in (ns, nm, ns \<noteq> [] \<and> nm \<noteq> [])))"

definition legacyDomainOf :: "KeySet \<Rightarrow> object \<Rightarrow> string" where
  "legacyDomainOf ks cp =
     (let ls = Labels cp in
      if map_index ls (ManagedByLabel (Primary ks)) = ManagedByValue then []
      else (case find (\<lambda>k. map_index ls (ManagedByLabel k) = ManagedByValue) (Legacy ks) of
              Some k \<Rightarrow> Domain k
            | None \<Rightarrow> []))"

definition isSyncKey :: "KeySet \<Rightarrow> string \<Rightarrow> bool" where
  "isSyncKey ks key \<longleftrightarrow> list_ex (\<lambda>k. key = SyncAnnotation k) (each ks)"

definition applyCopyMeta :: "KeySet \<Rightarrow> object \<Rightarrow> object \<Rightarrow> string \<Rightarrow> object" where
  "applyCopyMeta ks src dst originCluster =
     (let out = fmempty ++\<^sub>f Labels src;
          out = fmupd (ManagedByLabel (Primary ks)) ManagedByValue out;
          out = fmupd (OriginNSLabel (Primary ks)) (Namespace src) out;
          out = fmupd (OriginNameLabel (Primary ks)) (Name src) out;
          out = (if originCluster \<noteq> []
                 then fmupd (OriginClusterLabel (Primary ks)) originCluster out else out);
          dst = dst\<lparr>Labels := out\<rparr>;
          ann = fmfilter (\<lambda>key. \<not> (key = lastAppliedAnnotation \<or> isSyncKey ks key))
                  (Annotations src)
      in dst\<lparr>Annotations := ann\<rparr>)"

definition managedListOpts :: "KeySet \<Rightarrow> object \<Rightarrow> string_map list" where
  "managedListOpts ks src =
     map (\<lambda>k. fmap_of_list
            [(ManagedByLabel k, ManagedByValue),
             (OriginNSLabel k, Namespace src),
             (OriginNameLabel k, Name src)])
       (each ks)"

subsection \<open>Finalizers\<close>

text \<open>The functions of \<open>controllerutil\<close> the code calls, as parameters.\<close>

record finalizer_util =
  ContainsFinalizer :: "object \<Rightarrow> string \<Rightarrow> bool"
  AddFinalizer :: "object \<Rightarrow> string \<Rightarrow> object"
  RemoveFinalizer :: "object \<Rightarrow> string \<Rightarrow> object"

definition hasFinalizer :: "finalizer_util \<Rightarrow> KeySet \<Rightarrow> object \<Rightarrow> bool" where
  "hasFinalizer U ks obj \<longleftrightarrow> list_ex (\<lambda>k. ContainsFinalizer U obj (Finalizer k)) (each ks)"

fun dropLegacyFinalizers ::
  "finalizer_util \<Rightarrow> Keys list \<Rightarrow> object \<Rightarrow> bool \<Rightarrow> object \<times> bool" where
  "dropLegacyFinalizers U [] obj changed = (obj, changed)"
| "dropLegacyFinalizers U (k # kl) obj changed =
     (if ContainsFinalizer U obj (Finalizer k)
      then dropLegacyFinalizers U kl (RemoveFinalizer U obj (Finalizer k)) True
      else dropLegacyFinalizers U kl obj changed)"

definition reconcileFinalizer :: "finalizer_util \<Rightarrow> KeySet \<Rightarrow> object \<Rightarrow> object \<times> bool" where
  "reconcileFinalizer U ks obj =
     (let (obj, changed) =
            (if \<not> ContainsFinalizer U obj (Finalizer (Primary ks))
             then (AddFinalizer U obj (Finalizer (Primary ks)), True)
             else (obj, False))
      in dropLegacyFinalizers U (Legacy ks) obj changed)"

definition removeAllFinalizers :: "finalizer_util \<Rightarrow> KeySet \<Rightarrow> object \<Rightarrow> object" where
  "removeAllFinalizers U ks obj =
     fold (\<lambda>k obj. RemoveFinalizer U obj (Finalizer k)) (each ks) obj"

definition hasCredentialLabel :: "KeySet \<Rightarrow> object \<Rightarrow> bool" where
  "hasCredentialLabel ks obj \<longleftrightarrow>
     (let ls = Labels obj in list_ex (\<lambda>k. map_index ls (CredentialLabel k) \<noteq> []) (each ks))"

subsection \<open>Keys of different domains or roles never coincide\<close>

definition key_suffixes :: "string list" where
  "key_suffixes =
     [''/sync'', ''/target-clusters'', ''/finalizer'', ''/managed-by'', ''/origin-namespace'',
      ''/origin-name'', ''/origin-cluster'', ''/cluster-credential'']"

lemma key_suffixes_incomparable:
  "list_all (\<lambda>s. list_all (\<lambda>t. suffix s t \<longrightarrow> s = t) key_suffixes) key_suffixes"
  by (simp add: key_suffixes_def suffix_to_prefix)

lemma domain_key_eq:
  assumes "s \<in> set key_suffixes" and "t \<in> set key_suffixes"
  shows "d @ s = e @ t \<longleftrightarrow> d = e \<and> s = t"
proof
  assume eq: "d @ s = e @ t"
  then have "suffix s (e @ t)" by (metis suffixI)
  moreover have "suffix t (e @ t)" by (rule suffixI [OF refl])
  ultimately have "suffix s t \<or> suffix t s" by (rule suffix_same_cases)
  then have "s = t"
    using assms key_suffixes_incomparable by (auto simp: list_all_iff)
  with eq show "d = e \<and> s = t" by simp
qed simp

text \<open>\<open>NewKeys\<close> builds well-formed keys; a well-formed key set never repeats its primary domain.\<close>

definition wf_Keys :: "Keys \<Rightarrow> bool" where
  "wf_Keys k \<longleftrightarrow> k = NewKeys (Domain k)"

definition wf_KeySet :: "KeySet \<Rightarrow> bool" where
  "wf_KeySet ks \<longleftrightarrow> list_all wf_Keys (each ks) \<and> Primary ks \<notin> set (Legacy ks)"

lemma wf_Keys_NewKeys [simp]: "wf_Keys (NewKeys d)"
  by (simp add: wf_Keys_def NewKeys_def)

lemma Domain_NewKeys [simp]: "Domain (NewKeys d) = d"
  by (simp add: NewKeys_def)

lemma wf_Keys_eq: "wf_Keys k \<Longrightarrow> wf_Keys k' \<Longrightarrow> k = k' \<longleftrightarrow> Domain k = Domain k'"
  by (metis wf_Keys_def)

lemma wf_Keys_fields:
  assumes "wf_Keys k"
  shows "SyncAnnotation k = Domain k @ ''/sync''"
    and "TargetClustersAnnotation k = Domain k @ ''/target-clusters''"
    and "Finalizer k = Domain k @ ''/finalizer''"
    and "ManagedByLabel k = Domain k @ ''/managed-by''"
    and "OriginNSLabel k = Domain k @ ''/origin-namespace''"
    and "OriginNameLabel k = Domain k @ ''/origin-name''"
    and "OriginClusterLabel k = Domain k @ ''/origin-cluster''"
    and "CredentialLabel k = Domain k @ ''/cluster-credential''"
  by (subst assms [unfolded wf_Keys_def], simp add: NewKeys_def)+

lemma wf_labels_distinct:
  assumes "wf_Keys k" and "wf_Keys k'"
  shows "ManagedByLabel k \<noteq> OriginNSLabel k'" "ManagedByLabel k \<noteq> OriginNameLabel k'"
    "ManagedByLabel k \<noteq> OriginClusterLabel k'" "OriginNSLabel k \<noteq> OriginNameLabel k'"
    "OriginNSLabel k \<noteq> OriginClusterLabel k'" "OriginNameLabel k \<noteq> OriginClusterLabel k'"
    "OriginNSLabel k' \<noteq> ManagedByLabel k" "OriginNameLabel k' \<noteq> ManagedByLabel k"
    "OriginClusterLabel k' \<noteq> ManagedByLabel k" "OriginNameLabel k' \<noteq> OriginNSLabel k"
    "OriginClusterLabel k' \<noteq> OriginNSLabel k" "OriginClusterLabel k' \<noteq> OriginNameLabel k"
  using assms by (simp_all add: wf_Keys_fields domain_key_eq key_suffixes_def)

lemma wf_labels_inject:
  assumes "wf_Keys k" and "wf_Keys k'"
  shows "ManagedByLabel k = ManagedByLabel k' \<longleftrightarrow> k = k'"
    and "OriginNSLabel k = OriginNSLabel k' \<longleftrightarrow> k = k'"
    and "OriginNameLabel k = OriginNameLabel k' \<longleftrightarrow> k = k'"
    and "OriginClusterLabel k = OriginClusterLabel k' \<longleftrightarrow> k = k'"
    and "Finalizer k = Finalizer k' \<longleftrightarrow> k = k'"
    and "SyncAnnotation k = SyncAnnotation k' \<longleftrightarrow> k = k'"
  using assms by (simp_all add: wf_Keys_fields wf_Keys_eq)

lemma each_simps [simp]:
  "set (each ks) = insert (Primary ks) (set (Legacy ks))"
  "each \<lparr>Primary = p, Legacy = l\<rparr> = p # l"
  "Primary ks \<in> set (each ks)"
  by (simp_all add: each_def)

lemma wf_KeySetD:
  "wf_KeySet ks \<Longrightarrow> k \<in> set (each ks) \<Longrightarrow> wf_Keys k"
  "wf_KeySet ks \<Longrightarrow> wf_Keys (Primary ks)"
  "wf_KeySet ks \<Longrightarrow> k \<in> set (Legacy ks) \<Longrightarrow> wf_Keys k"
  "wf_KeySet ks \<Longrightarrow> k \<in> set (Legacy ks) \<Longrightarrow> k \<noteq> Primary ks"
  by (auto simp: wf_KeySet_def list_all_iff)

lemma NewKeySet_legacy_eq:
  "NewKeySet_legacy p ds acc =
     acc @ map NewKeys (filter (\<lambda>d. d \<noteq> [] \<and> d \<noteq> p) (map TrimSpace ds))"
  by (induction p ds acc rule: NewKeySet_legacy.induct) (auto simp: Let_def)

lemma wf_NewKeySet [simp]: "wf_KeySet (NewKeySet p ds)"
  by (auto simp: wf_KeySet_def NewKeySet_def NewKeySet_legacy_eq list_all_iff wf_Keys_eq)

subsection \<open>Which stamps an object carries\<close>

text \<open>
  \<open>managed_under k obj\<close>: the managed-by label of domain \<open>k\<close> is set; \<open>stamped_for k src
  obj\<close>: the object is a managed copy of \<open>src\<close> under domain \<open>k\<close>, which is what the label
  selector of that domain matches.
\<close>

definition managed_under :: "Keys \<Rightarrow> object \<Rightarrow> bool" where
  "managed_under k obj \<longleftrightarrow> fmlookup (Labels obj) (ManagedByLabel k) = Some ManagedByValue"

definition stamped_for :: "Keys \<Rightarrow> object \<Rightarrow> object \<Rightarrow> bool" where
  "stamped_for k src obj \<longleftrightarrow>
     managed_under k obj \<and>
     fmlookup (Labels obj) (OriginNSLabel k) = Some (Namespace src) \<and>
     fmlookup (Labels obj) (OriginNameLabel k) = Some (Name src)"

definition selects :: "string_map \<Rightarrow> object \<Rightarrow> bool" where
  "selects m obj \<longleftrightarrow> fBall (fmdom m) (\<lambda>k. fmlookup (Labels obj) k = fmlookup m k)"

lemma managed_index [simp]:
  "map_index (Labels obj) (ManagedByLabel k) = ManagedByValue \<longleftrightarrow> managed_under k obj"
  by (auto simp: managed_under_def map_index_def ManagedByValue_def split: option.splits)

lemma keysFor_Some:
  "keysFor ks obj = Some k \<Longrightarrow> k \<in> set (each ks) \<and> managed_under k obj"
  by (auto simp: keysFor_def Let_def find_Some_iff split: if_splits)

lemma isManagedCopy_iff: "isManagedCopy ks obj \<longleftrightarrow> (\<exists>k\<in>set (each ks). managed_under k obj)"
  by (auto simp: isManagedCopy_def keysFor_def Let_def find_None_iff simp del: not_None_eq)

lemma keysFor_primary: "managed_under (Primary ks) obj \<Longrightarrow> keysFor ks obj = Some (Primary ks)"
  by (simp add: keysFor_def Let_def)

lemma selects_managedListOpts:
  assumes "wf_KeySet ks"
  shows "(\<exists>m\<in>set (managedListOpts ks src). selects m obj) \<longleftrightarrow>
         (\<exists>k\<in>set (each ks). stamped_for k src obj)"
proof -
  have "selects (fmap_of_list
            [(ManagedByLabel k, ManagedByValue), (OriginNSLabel k, Namespace src),
             (OriginNameLabel k, Name src)]) obj \<longleftrightarrow> stamped_for k src obj"
    if "k \<in> set (each ks)" for k
  proof -
    have "wf_Keys k" using assms that by (rule wf_KeySetD)
    then show ?thesis
      by (auto simp: selects_def stamped_for_def managed_under_def fmlookup_of_list
          wf_labels_distinct)
  qed
  then show ?thesis by (simp add: managedListOpts_def del: each_simps)
qed

subsection \<open>What stamping does\<close>

lemma applyCopyMeta_frame [simp]:
  "Namespace (applyCopyMeta ks src dst oc) = Namespace dst"
  "Name (applyCopyMeta ks src dst oc) = Name dst"
  "Finalizers (applyCopyMeta ks src dst oc) = Finalizers dst"
  "DeletionTimestamp (applyCopyMeta ks src dst oc) = DeletionTimestamp dst"
  "UID (applyCopyMeta ks src dst oc) = UID dst"
  "ResourceVersion (applyCopyMeta ks src dst oc) = ResourceVersion dst"
  "Content (applyCopyMeta ks src dst oc) = Content dst"
  "objKind (applyCopyMeta ks src dst oc) = objKind dst"
  "okey (applyCopyMeta ks src dst oc) = okey dst"
  by (simp_all add: applyCopyMeta_def Let_def)

text \<open>The labels and annotations a copy gets do not depend on what it carried before.\<close>

definition copyLabels :: "KeySet \<Rightarrow> object \<Rightarrow> string \<Rightarrow> string_map" where
  "copyLabels ks src oc = Labels (applyCopyMeta ks src src oc)"

definition copyAnnotations :: "KeySet \<Rightarrow> object \<Rightarrow> string_map" where
  "copyAnnotations ks src = Annotations (applyCopyMeta ks src src [])"

lemma Labels_applyCopyMeta: "Labels (applyCopyMeta ks src dst oc) = copyLabels ks src oc"
  by (simp add: copyLabels_def applyCopyMeta_def Let_def)

lemma Annotations_applyCopyMeta: "Annotations (applyCopyMeta ks src dst oc) = copyAnnotations ks src"
  by (simp add: copyAnnotations_def applyCopyMeta_def Let_def)

lemma applyCopyMeta_eq:
  "applyCopyMeta ks src dst oc =
     dst\<lparr>Labels := copyLabels ks src oc, Annotations := copyAnnotations ks src\<rparr>"
  by (rule object.equality) (simp_all add: Labels_applyCopyMeta Annotations_applyCopyMeta)

lemma copyLabels_lookup:
  assumes "wf_KeySet ks"
  shows "fmlookup (copyLabels ks src oc) (ManagedByLabel (Primary ks)) = Some ManagedByValue"
    and "fmlookup (copyLabels ks src oc) (OriginNSLabel (Primary ks)) = Some (Namespace src)"
    and "fmlookup (copyLabels ks src oc) (OriginNameLabel (Primary ks)) = Some (Name src)"
    and "fmlookup (copyLabels ks src oc) (OriginClusterLabel (Primary ks)) =
           (if oc \<noteq> [] then Some oc else fmlookup (Labels src) (OriginClusterLabel (Primary ks)))"
  using wf_labels_distinct [OF wf_KeySetD(2) wf_KeySetD(2), OF assms assms]
  by (simp_all add: copyLabels_def applyCopyMeta_def Let_def)

lemma copyLabels_other:
  "key \<noteq> ManagedByLabel (Primary ks) \<Longrightarrow> key \<noteq> OriginNSLabel (Primary ks) \<Longrightarrow>
   key \<noteq> OriginNameLabel (Primary ks) \<Longrightarrow> key \<noteq> OriginClusterLabel (Primary ks) \<Longrightarrow>
     fmlookup (copyLabels ks src oc) key = fmlookup (Labels src) key"
  by (simp add: copyLabels_def applyCopyMeta_def Let_def)

lemma copyAnnotations_lookup:
  "fmlookup (copyAnnotations ks src) key =
     (if key = lastAppliedAnnotation \<or> isSyncKey ks key then None
      else fmlookup (Annotations src) key)"
  by (simp add: copyAnnotations_def applyCopyMeta_def Let_def)

lemma isSyncKey_iff: "isSyncKey ks key \<longleftrightarrow> (\<exists>k\<in>set (each ks). key = SyncAnnotation k)"
  by (auto simp: isSyncKey_def list_ex_iff)

lemma isSource_iff:
  "isSource ks obj \<longleftrightarrow> (\<exists>k\<in>set (each ks). fmlookup (Annotations obj) (SyncAnnotation k) \<noteq> None)"
  by (simp add: isSource_def list_ex_iff fmlookup_dom_iff)

lemma applyCopyMeta_stamped:
  assumes "wf_KeySet ks"
  shows "stamped_for (Primary ks) src (applyCopyMeta ks src dst oc)"
  using copyLabels_lookup [OF assms]
  by (simp add: stamped_for_def managed_under_def Labels_applyCopyMeta)

subsection \<open>The contract between the syncer and the key set\<close>

text \<open>
  What the syncer relies on: stamping writes the labels and annotations only, and writes the
  same ones whatever the copy carried; a stamped object is a managed copy owned by its source,
  found by the source's selectors, mapped back to it, and never a source itself; an object has
  one owner; whatever a selector finds is a managed copy.
\<close>

locale copy_marks =
  fixes managed :: "object \<Rightarrow> bool"
    and owns :: "object \<Rightarrow> object \<Rightarrow> string \<Rightarrow> bool"
    and source :: "object \<Rightarrow> bool"
    and stamp :: "object \<Rightarrow> object \<Rightarrow> string \<Rightarrow> object"
    and selectors :: "object \<Rightarrow> string_map list"
    and origin :: "object \<Rightarrow> string \<times> string \<times> bool"
  assumes stamp_form: "stamp src dst oc =
      dst\<lparr>Labels := Labels (stamp src src oc), Annotations := Annotations (stamp src src [])\<rparr>"
    and stamp_managed: "managed (stamp src dst oc)"
    and stamp_owned: "owns (stamp src dst oc) src oc"
    and stamp_not_source: "\<not> source (stamp src dst oc)"
    and stamp_selected: "\<exists>m\<in>set (selectors src). selects m (stamp src dst oc)"
    and stamp_origin: "origin (stamp src dst oc) =
      (Namespace src, Name src, Namespace src \<noteq> [] \<and> Name src \<noteq> [])"
    and selected_managed: "m \<in> set (selectors src) \<Longrightarrow> selects m obj \<Longrightarrow> managed obj"
    and one_owner: "owns obj src oc \<Longrightarrow> owns obj src' oc' \<Longrightarrow>
      Namespace src = Namespace src' \<and> Name src = Name src'"
    and labels_decide: "Labels obj = Labels obj' \<Longrightarrow>
      managed obj = managed obj' \<and> owns obj src oc = owns obj' src oc"
begin

lemma stamp_idem: "stamp src (stamp src dst oc) oc = stamp src dst oc"
  by (subst (1 2 3) stamp_form) simp

lemma stamp_same_slot:
  "Labels (stamp src dst oc) = Labels (stamp src dst' oc)"
  "Annotations (stamp src dst oc) = Annotations (stamp src dst' oc')"
  by (simp_all add: stamp_form [of src dst oc] stamp_form [of src dst' oc] stamp_form [of src dst' oc'])

lemma stamp_not_foreign:
  "Namespace src \<noteq> Namespace src' \<or> Name src \<noteq> Name src' \<Longrightarrow> \<not> owns (stamp src dst oc) src' oc'"
  using one_owner [OF stamp_owned] by blast

text \<open>An object that already carries the stamps belongs to the source that would stamp it.\<close>

lemma settled:
  assumes "Labels obj = Labels (stamp src dst oc)"
  shows "managed obj" and "owns obj src oc"
  using labels_decide [OF assms] stamp_managed stamp_owned by auto

end

lemma keysFor_labels: "Labels obj = Labels obj' \<Longrightarrow> keysFor ks obj = keysFor ks obj'"
  by (simp add: keysFor_def Let_def)

lemma ownsCopy_origin:
  "ownsCopy ks obj src oc \<Longrightarrow> \<exists>k. keysFor ks obj = Some k \<and>
     map_index (Labels obj) (OriginNSLabel k) = Namespace src \<and>
     map_index (Labels obj) (OriginNameLabel k) = Name src"
  by (auto simp: ownsCopy_def Keys_ownsCopy_def Let_def split: option.splits if_splits)

lemma KeySet_copy_marks:
  assumes wf: "wf_KeySet ks"
  shows "copy_marks (isManagedCopy ks) (ownsCopy ks) (isSource ks) (applyCopyMeta ks)
           (managedListOpts ks) (copyOrigin ks)"
proof
  fix src dst obj obj' src' :: object and oc oc' :: string and m
  let ?cp = "applyCopyMeta ks src dst oc"
  note at = copyLabels_lookup [OF wf, of src oc]
  have keys: "keysFor ks ?cp = Some (Primary ks)"
    by (rule keysFor_primary) (simp add: managed_under_def Labels_applyCopyMeta at)
  show "?cp = dst\<lparr>Labels := Labels (applyCopyMeta ks src src oc),
          Annotations := Annotations (applyCopyMeta ks src src [])\<rparr>"
    by (simp add: applyCopyMeta_eq)
  show "isManagedCopy ks ?cp"
    by (simp add: isManagedCopy_def keys)
  show "ownsCopy ks ?cp src oc"
    by (simp add: ownsCopy_def keys Keys_ownsCopy_def Let_def Labels_applyCopyMeta at map_index_def)
  show "\<not> isSource ks ?cp"
    by (auto simp: isSource_iff Annotations_applyCopyMeta copyAnnotations_lookup isSyncKey_iff
        split: if_splits)
  show "\<exists>m\<in>set (managedListOpts ks src). selects m ?cp"
    unfolding selects_managedListOpts [OF wf]
    using applyCopyMeta_stamped [OF wf] each_simps(3) by blast
  show "copyOrigin ks ?cp = (Namespace src, Name src, Namespace src \<noteq> [] \<and> Name src \<noteq> [])"
    by (simp add: copyOrigin_def keys Let_def Labels_applyCopyMeta at map_index_def)
  show "isManagedCopy ks obj" if "m \<in> set (managedListOpts ks src)" and "selects m obj"
  proof -
    have "\<exists>m\<in>set (managedListOpts ks src). selects m obj" using that by blast
    then show ?thesis
      unfolding selects_managedListOpts [OF wf] isManagedCopy_iff
      by (auto simp: stamped_for_def simp del: each_simps)
  qed
  show "Namespace src = Namespace src' \<and> Name src = Name src'"
    if "ownsCopy ks obj src oc" and "ownsCopy ks obj src' oc'"
    using ownsCopy_origin [OF that(1)] ownsCopy_origin [OF that(2)] by auto
  show "isManagedCopy ks obj = isManagedCopy ks obj' \<and> ownsCopy ks obj src oc = ownsCopy ks obj' src oc"
    if "Labels obj = Labels obj'"
    using that keysFor_labels [OF that, of ks]
    by (simp add: isManagedCopy_def ownsCopy_def Keys_ownsCopy_def Let_def split: option.splits)
qed

text \<open>Every key set the program builds keeps the contract.\<close>

interpretation marks: copy_marks "isManagedCopy (NewKeySet p ds)" "ownsCopy (NewKeySet p ds)"
    "isSource (NewKeySet p ds)" "applyCopyMeta (NewKeySet p ds)"
    "managedListOpts (NewKeySet p ds)" "copyOrigin (NewKeySet p ds)" for p ds
  by (rule KeySet_copy_marks) simp

subsection \<open>What the code relies on in the finalizer helpers\<close>

lemma filter_removeAll: "filter P (removeAll x xs) = filter (\<lambda>y. y \<noteq> x \<and> P y) xs"
  by (induction xs) auto

locale finalizer_laws =
  fixes U :: finalizer_util
  assumes contains: "ContainsFinalizer U obj f \<longleftrightarrow> f \<in> set (Finalizers obj)"
    and add: "f \<notin> set (Finalizers obj) \<Longrightarrow>
      AddFinalizer U obj f = obj\<lparr>Finalizers := Finalizers obj @ [f]\<rparr>"
    and remove: "RemoveFinalizer U obj f = obj\<lparr>Finalizers := removeAll f (Finalizers obj)\<rparr>"
begin

lemma hasFinalizer_iff:
  "hasFinalizer U ks obj \<longleftrightarrow> (\<exists>k\<in>set (each ks). Finalizer k \<in> set (Finalizers obj))"
  by (auto simp: hasFinalizer_def list_ex_iff contains)

lemma dropLegacyFinalizers_eq:
  "dropLegacyFinalizers U kl obj changed =
     (obj\<lparr>Finalizers := filter (\<lambda>f. f \<notin> Finalizer ` set kl) (Finalizers obj)\<rparr>,
      changed \<or> (\<exists>k\<in>set kl. Finalizer k \<in> set (Finalizers obj)))"
proof (induction kl arbitrary: obj changed)
  case Nil
  then show ?case by simp
next
  case (Cons k kl)
  show ?case
  proof (cases "Finalizer k \<in> set (Finalizers obj)")
    case True
    then show ?thesis
      by (auto simp: contains remove Cons.IH filter_removeAll intro!: filter_cong
          arg_cong2 [where f = Finalizers_update])
  next
    case False
    then have "filter (\<lambda>f. f \<notin> Finalizer ` set kl) (Finalizers obj) =
        filter (\<lambda>f. f \<notin> Finalizer ` set (k # kl)) (Finalizers obj)"
      by (intro filter_cong) auto
    with False show ?thesis by (auto simp: contains Cons.IH)
  qed
qed

lemma reconcileFinalizer_eq:
  assumes "wf_KeySet ks"
  shows "reconcileFinalizer U ks obj =
     (obj\<lparr>Finalizers := filter (\<lambda>f. f \<notin> Finalizer ` set (Legacy ks)) (Finalizers obj) @
         (if Finalizer (Primary ks) \<in> set (Finalizers obj) then [] else [Finalizer (Primary ks)])\<rparr>,
      Finalizer (Primary ks) \<notin> set (Finalizers obj) \<or>
        (\<exists>k\<in>set (Legacy ks). Finalizer k \<in> set (Finalizers obj)))"
proof -
  have "Finalizer (Primary ks) \<notin> Finalizer ` set (Legacy ks)"
    using assms by (auto simp: wf_labels_inject wf_KeySetD dest: wf_KeySetD(4))
  then show ?thesis
    by (auto simp: reconcileFinalizer_def contains add dropLegacyFinalizers_eq)
qed

lemma reconcileFinalizer_same:
  assumes "wf_KeySet ks" and "\<not> snd (reconcileFinalizer U ks obj)"
  shows "reconcileFinalizer U ks obj = (obj, False)"
proof -
  have at: "Finalizer (Primary ks) \<in> set (Finalizers obj)"
    and no: "\<forall>k\<in>set (Legacy ks). Finalizer k \<notin> set (Finalizers obj)"
    using assms(2) by (auto simp: reconcileFinalizer_eq [OF assms(1)])
  have "filter (\<lambda>f. f \<notin> Finalizer ` set (Legacy ks)) (Finalizers obj) = Finalizers obj"
    by (rule filter_True) (use no in auto)
  with at no show ?thesis by (simp add: reconcileFinalizer_eq [OF assms(1)])
qed

lemma removeAllFinalizers_eq:
  "removeAllFinalizers U ks obj =
     obj\<lparr>Finalizers := filter (\<lambda>f. f \<notin> Finalizer ` set (each ks)) (Finalizers obj)\<rparr>"
proof -
  have "fold (\<lambda>k obj. RemoveFinalizer U obj (Finalizer k)) kl obj =
      obj\<lparr>Finalizers := filter (\<lambda>f. f \<notin> Finalizer ` set kl) (Finalizers obj)\<rparr>" for kl
    by (induction kl arbitrary: obj)
      (auto simp: remove filter_removeAll intro!: filter_cong arg_cong2 [where f = Finalizers_update])
  then show ?thesis by (simp only: removeAllFinalizers_def)
qed

end

end
