(* ===== verification/Platform.thy ===== *)
theory Platform
  imports Domain_Keys
begin

text \<open>
  Everything the program uses and does not define. The record \<open>ext\<close> holds the functions of
  other packages: the Kubernetes client (every call may change the world and may fail),
  \<open>labels.Parse\<close>, the finalizer helpers, and the order in which a Go \<open>range\<close> visits a map.
  The state of a run is the world, the registry of spoke clusters, the log of effects on
  sinks (events and metrics) and the notification channels. The locales \<open>api_server\<close> and
  \<open>platform\<close> name what the code relies on.
\<close>

subsection \<open>Errors and sinks\<close>

text \<open>
  An error keeps what the code looks at: the API reason the predicates of \<open>apierrors\<close> test,
  or the format string and arguments it was built from. Events and metric updates are logged
  in the order they are made; messages are kept as format string and arguments.
\<close>

datatype error =
    NotFound string
  | AlreadyExists string
  | OtherError string
  | Errorf string "fmt_arg list"
and fmt_arg =
    ArgS string
  | ArgN nat
  | ArgE error

definition IsNotFound :: "error \<Rightarrow> bool" where
  "IsNotFound e = (case e of NotFound _ \<Rightarrow> True | _ \<Rightarrow> False)"

definition IsAlreadyExists :: "error \<Rightarrow> bool" where
  "IsAlreadyExists e = (case e of AlreadyExists _ \<Rightarrow> True | _ \<Rightarrow> False)"

definition IgnoreNotFound :: "error option \<Rightarrow> error option" where
  "IgnoreNotFound e = (case e of None \<Rightarrow> None | Some err \<Rightarrow> if IsNotFound err then None else Some err)"

datatype event_type = Normal | Warning

datatype metric =
    reconcileTotal
  | copyOperationsTotal
  | clusterUp
  | remoteCopyOperationsTotal
  | copiesMigratedTotal
  | copiesByDomain

datatype effect =
    Event okey event_type string string "fmt_arg list"
  | CounterAdd metric "string list" nat
  | GaugeSet metric "string list" nat
  | GaugeDelete metric "string list"

fun event_reason :: "effect \<Rightarrow> string" where
  "event_reason (Event _ _ reason _ _) = reason"
| "event_reason _ = []"

subsection \<open>External functions\<close>

datatype list_opt = MatchingLabels string_map | MatchingFields string string

record ('c, 'w) ext =
  client_get :: "'c \<Rightarrow> kind \<Rightarrow> string \<Rightarrow> string \<Rightarrow> 'w \<Rightarrow> (error + object) \<times> 'w"
  client_list :: "'c \<Rightarrow> kind \<Rightarrow> list_opt \<Rightarrow> 'w \<Rightarrow> (error + ObjectList) \<times> 'w"
  client_create :: "'c \<Rightarrow> object \<Rightarrow> 'w \<Rightarrow> (error + unit) \<times> 'w"
  client_update :: "'c \<Rightarrow> object \<Rightarrow> 'w \<Rightarrow> (error + unit) \<times> 'w"
  client_delete :: "'c \<Rightarrow> object \<Rightarrow> 'w \<Rightarrow> (error + unit) \<times> 'w"
  client_list_namespaces :: "'c \<Rightarrow> nat option \<Rightarrow> 'w \<Rightarrow> (error + namespace list) \<times> 'w"
  client_get_namespace :: "'c \<Rightarrow> string \<Rightarrow> 'w \<Rightarrow> (error + namespace) \<times> 'w"
  labels_Parse :: "string \<Rightarrow> error + (string_map \<Rightarrow> bool)"
  finalizers :: finalizer_util
  range_keys :: "'w \<Rightarrow> string fset \<Rightarrow> string list"

subsection \<open>State\<close>

record chan =
  ch_cap :: nat
  ch_queue :: "object list"

record ('r, 'w) st =
  world :: 'w
  registry :: "'r option"
  effects :: "effect list"
  channels :: "nat \<Rightarrow> chan"

type_synonym ('r, 'w, 'a) go = "(('r, 'w) st, 'a) state"

definition api :: "('w \<Rightarrow> 'a \<times> 'w) \<Rightarrow> ('r, 'w, 'a) go" where
  "api f = State (\<lambda>s. case f (world s) of (r, w) \<Rightarrow> (r, s\<lparr>world := w\<rparr>))"

definition Get :: "('c, 'w) ext \<Rightarrow> 'c \<Rightarrow> kind \<Rightarrow> string \<Rightarrow> string \<Rightarrow> ('r, 'w, error + object) go" where
  "Get X cl k ns n = api (client_get X cl k ns n)"

definition List :: "('c, 'w) ext \<Rightarrow> 'c \<Rightarrow> kind \<Rightarrow> list_opt \<Rightarrow> ('r, 'w, error + ObjectList) go" where
  "List X cl k opt = api (client_list X cl k opt)"

definition Create :: "('c, 'w) ext \<Rightarrow> 'c \<Rightarrow> object \<Rightarrow> ('r, 'w, error + unit) go" where
  "Create X cl obj = api (client_create X cl obj)"

definition Update :: "('c, 'w) ext \<Rightarrow> 'c \<Rightarrow> object \<Rightarrow> ('r, 'w, error + unit) go" where
  "Update X cl obj = api (client_update X cl obj)"

definition Delete :: "('c, 'w) ext \<Rightarrow> 'c \<Rightarrow> object \<Rightarrow> ('r, 'w, error + unit) go" where
  "Delete X cl obj = api (client_delete X cl obj)"

definition ListNamespaces ::
  "('c, 'w) ext \<Rightarrow> 'c \<Rightarrow> nat option \<Rightarrow> ('r, 'w, error + namespace list) go" where
  "ListNamespaces X cl limit = api (client_list_namespaces X cl limit)"

definition GetNamespace :: "('c, 'w) ext \<Rightarrow> 'c \<Rightarrow> string \<Rightarrow> ('r, 'w, error + namespace) go" where
  "GetNamespace X cl n = api (client_get_namespace X cl n)"

definition emit :: "effect \<Rightarrow> ('r, 'w, unit) go" where
  "emit e = State_Monad.update (\<lambda>s. s\<lparr>effects := effects s @ [e]\<rparr>)"

definition Eventf ::
  "object \<Rightarrow> event_type \<Rightarrow> string \<Rightarrow> string \<Rightarrow> fmt_arg list \<Rightarrow> ('r, 'w, unit) go" where
  "Eventf obj ty reason fmt args = emit (Event (okey obj) ty reason fmt args)"

definition range_over :: "('c, 'w) ext \<Rightarrow> string fset \<Rightarrow> ('r, 'w, string list) go" where
  "range_over X S = State (\<lambda>s. (range_keys X (world s) S, s))"

lemma wp_api: "wp (api f) Q s \<longleftrightarrow> (case f (world s) of (r, w) \<Rightarrow> Q r (s\<lparr>world := w\<rparr>))"
  by (simp add: wp_def api_def split: prod.splits)

lemma wp_emit [wp_rules]: "wp (emit e) Q s \<longleftrightarrow> Q () (s\<lparr>effects := effects s @ [e]\<rparr>)"
  by (simp add: emit_def wp_update)

lemma wp_Eventf [wp_rules]:
  "wp (Eventf obj ty reason fmt args) Q s \<longleftrightarrow>
     Q () (s\<lparr>effects := effects s @ [Event (okey obj) ty reason fmt args]\<rparr>)"
  by (simp add: Eventf_def wp_emit)

lemma wp_range_over [wp_rules]: "wp (range_over X S) Q s \<longleftrightarrow> Q (range_keys X (world s) S) s"
  by (simp add: wp_def range_over_def)

subsection \<open>What the code relies on in the API server\<close>

text \<open>
  \<open>store c w\<close> is the content of cluster \<open>c\<close> in world \<open>w\<close>. Calls made by the program are
  the only changes of the world during a run (no other writer, caches up to date). A write
  touches its own object only. A write that reports success, or that reports an error but took
  effect all the same, has exactly the documented effect: \<open>Create\<close> stores a new object and
  assigns its server fields; \<open>Update\<close> replaces the object, and removes it when that drops the
  last finalizer of an object being deleted; \<open>Delete\<close> removes the object, or only marks it
  when it has finalizers. An object being deleted is kept only by its finalizers.
\<close>

definition persisted :: "object \<Rightarrow> string \<Rightarrow> object option" where
  "persisted obj v =
     (if DeletionTimestamp obj \<noteq> None \<and> Finalizers obj = [] then None
      else Some (obj\<lparr>ResourceVersion := v\<rparr>))"

text \<open>
  A write changes at most the slot of its object (\<open>only_slot\<close>); \<open>deleted_slot\<close> is what a
  deletion leaves in the slot of an object that was there.
\<close>

definition only_slot ::
  "('c \<Rightarrow> 'w \<Rightarrow> okey \<Rightarrow> object option) \<Rightarrow> 'c \<Rightarrow> okey \<Rightarrow> 'w \<Rightarrow> 'w \<Rightarrow> bool" where
  "only_slot store cl key w w' \<longleftrightarrow>
     (\<forall>c k. (c, k) \<noteq> (cl, key) \<longrightarrow> store c w' k = store c w k)"

lemma only_slot_refl [simp]: "(\<And>c. store c w' = store c w) \<Longrightarrow> only_slot store cl key w w'"
  by (simp add: only_slot_def)

lemma only_slot_trans:
  "only_slot store cl key w w' \<Longrightarrow> only_slot store cl key w' w'' \<Longrightarrow> only_slot store cl key w w''"
  by (simp add: only_slot_def)

lemma only_slotD:
  "only_slot store cl key w w' \<Longrightarrow> k \<noteq> key \<Longrightarrow> store cl w' k = store cl w k"
  "only_slot store cl key w w' \<Longrightarrow> c \<noteq> cl \<Longrightarrow> store c w' = store c w"
  unfolding only_slot_def by (blast, intro ext, blast)

definition deleted_slot :: "object \<Rightarrow> object option \<Rightarrow> bool" where
  "deleted_slot old new \<longleftrightarrow>
     (if Finalizers old = [] then new = None
      else \<exists>t v. new = Some (old\<lparr>DeletionTimestamp := Some t, ResourceVersion := v\<rparr>))"

locale api_server =
  fixes X :: "('c, 'w) ext"
    and store :: "'c \<Rightarrow> 'w \<Rightarrow> okey \<Rightarrow> object option"
    and nslist :: "'c \<Rightarrow> 'w \<Rightarrow> namespace list"
  assumes stored_key: "store c w k = Some obj \<Longrightarrow> okey obj = k"
    and stored_terminating:
      "store c w k = Some obj \<Longrightarrow> DeletionTimestamp obj \<noteq> None \<Longrightarrow> Finalizers obj \<noteq> []"
    and get_store: "client_get X c kd ns n w = (r, w') \<Longrightarrow> store c' w' = store c' w"
    and get_ok: "client_get X c kd ns n w = (Inr obj, w') \<Longrightarrow> store c w (kd, ns, n) = Some obj"
    and get_missing:
      "client_get X c kd ns n w = (Inl e, w') \<Longrightarrow> IsNotFound e \<Longrightarrow> store c w (kd, ns, n) = None"
    and list_store: "client_list X c kd opt w = (rl, w') \<Longrightarrow> store c' w' = store c' w"
    and list_ok: "client_list X c kd (MatchingLabels m) w = (Inr l, w') \<Longrightarrow>
      listKind l = kd \<and> distinct (map okey (listItems l)) \<and>
      set (listItems l) = {obj. store c w (okey obj) = Some obj \<and> objKind obj = kd \<and> selects m obj}"
    and create_frame: "client_create X c obj w = (rw, w') \<Longrightarrow> (c', k) \<noteq> (c, okey obj) \<Longrightarrow>
      store c' w' k = store c' w k"
    and create_effect: "client_create X c obj w = (rw, w') \<Longrightarrow>
      rw = Inr () \<or> store c w' (okey obj) \<noteq> store c w (okey obj) \<Longrightarrow> DeletionTimestamp obj = None \<Longrightarrow>
      store c w (okey obj) = None \<and>
      (\<exists>u v. store c w' (okey obj) = Some (obj\<lparr>UID := u, ResourceVersion := v\<rparr>))"
    and create_exists: "client_create X c obj w = (Inl e, w') \<Longrightarrow> IsAlreadyExists e \<Longrightarrow>
      store c w (okey obj) \<noteq> None"
    and update_frame: "client_update X c obj w = (rw, w') \<Longrightarrow> (c', k) \<noteq> (c, okey obj) \<Longrightarrow>
      store c' w' k = store c' w k"
    and update_effect: "client_update X c obj w = (rw, w') \<Longrightarrow>
      rw = Inr () \<or> store c w' (okey obj) \<noteq> store c w (okey obj) \<Longrightarrow>
      \<exists>old v. store c w (okey obj) = Some old \<and>
        (UID old = UID obj \<and> DeletionTimestamp old = DeletionTimestamp obj \<longrightarrow>
         store c w' (okey obj) = persisted obj v)"
    and update_missing: "client_update X c obj w = (Inl e, w') \<Longrightarrow> IsNotFound e \<Longrightarrow>
      store c w (okey obj) = None"
    and delete_frame: "client_delete X c obj w = (rw, w') \<Longrightarrow> (c', k) \<noteq> (c, okey obj) \<Longrightarrow>
      store c' w' k = store c' w k"
    and delete_effect: "client_delete X c obj w = (rw, w') \<Longrightarrow>
      rw = Inr () \<or> store c w' (okey obj) \<noteq> store c w (okey obj) \<Longrightarrow>
      \<exists>old. store c w (okey obj) = Some old \<and>
        (if Finalizers old = [] then store c w' (okey obj) = None
         else \<exists>t v. store c w' (okey obj) =
                 Some (old\<lparr>DeletionTimestamp := Some t, ResourceVersion := v\<rparr>))"
    and delete_missing: "client_delete X c obj w = (Inl e, w') \<Longrightarrow> IsNotFound e \<Longrightarrow>
      store c w (okey obj) = None"
    and list_namespaces_store:
      "client_list_namespaces X c lim w = (rn, w') \<Longrightarrow> store c' w' = store c' w"
    and list_namespaces_ok:
      "client_list_namespaces X c None w = (Inr nl, w') \<Longrightarrow> nl = nslist c w"
    and get_namespace_store:
      "client_get_namespace X c n w = (ro, w') \<Longrightarrow> store c' w' = store c' w"
begin

lemma wp_Get:
  assumes "\<And>w' obj. (\<And>c. store c w' = store c (world s)) \<Longrightarrow>
      store cl (world s) (k, ns, n) = Some obj \<Longrightarrow> Q (Inr obj) (s\<lparr>world := w'\<rparr>)"
    and "\<And>w' e. (\<And>c. store c w' = store c (world s)) \<Longrightarrow>
      (IsNotFound e \<Longrightarrow> store cl (world s) (k, ns, n) = None) \<Longrightarrow> Q (Inl e) (s\<lparr>world := w'\<rparr>)"
  shows "wp (Get X cl k ns n) Q s"
proof -
  obtain r w' where r: "client_get X cl k ns n (world s) = (r, w')" by (rule prod.exhaust)
  have "\<And>c. store c w' = store c (world s)" using r by (rule get_store)
  then show ?thesis
    using r assms get_ok get_missing by (cases r) (auto simp: Get_def wp_api)
qed

lemma wp_List:
  assumes "\<And>w' l. (\<And>c. store c w' = store c (world s)) \<Longrightarrow> listKind l = k \<Longrightarrow>
      distinct (map okey (listItems l)) \<Longrightarrow>
      set (listItems l) =
        {obj. store cl (world s) (okey obj) = Some obj \<and> objKind obj = k \<and> selects m obj} \<Longrightarrow>
      Q (Inr l) (s\<lparr>world := w'\<rparr>)"
    and "\<And>w' e. (\<And>c. store c w' = store c (world s)) \<Longrightarrow> Q (Inl e) (s\<lparr>world := w'\<rparr>)"
  shows "wp (List X cl k (MatchingLabels m)) Q s"
proof -
  obtain r w' where r: "client_list X cl k (MatchingLabels m) (world s) = (r, w')"
    by (rule prod.exhaust)
  have "\<And>c. store c w' = store c (world s)" using r by (rule list_store)
  then show ?thesis
    using r assms list_ok [of cl k m "world s"] by (cases r) (auto simp: List_def wp_api)
qed

lemma wp_ListNamespaces:
  assumes "\<And>w'. (\<And>c. store c w' = store c (world s)) \<Longrightarrow>
      Q (Inr (nslist cl (world s))) (s\<lparr>world := w'\<rparr>)"
    and "\<And>w' e. (\<And>c. store c w' = store c (world s)) \<Longrightarrow> Q (Inl e) (s\<lparr>world := w'\<rparr>)"
  shows "wp (ListNamespaces X cl None) Q s"
proof -
  obtain r w' where r: "client_list_namespaces X cl None (world s) = (r, w')"
    by (rule prod.exhaust)
  have "\<And>c. store c w' = store c (world s)" using r by (rule list_namespaces_store)
  then show ?thesis
    using r assms list_namespaces_ok [of cl "world s"]
    by (cases r) (auto simp: ListNamespaces_def wp_api)
qed

lemma wp_Create:
  assumes "DeletionTimestamp obj = None"
    and "\<And>w' u v. only_slot store cl (okey obj) (world s) w' \<Longrightarrow> store cl (world s) (okey obj) = None \<Longrightarrow>
      store cl w' (okey obj) = Some (obj\<lparr>UID := u, ResourceVersion := v\<rparr>) \<Longrightarrow> Q (Inr ()) (s\<lparr>world := w'\<rparr>)"
    and "\<And>w' e. only_slot store cl (okey obj) (world s) w' \<Longrightarrow>
      store cl w' (okey obj) = store cl (world s) (okey obj) \<or>
        store cl (world s) (okey obj) = None \<and>
        (\<exists>u v. store cl w' (okey obj) = Some (obj\<lparr>UID := u, ResourceVersion := v\<rparr>)) \<Longrightarrow>
      (IsAlreadyExists e \<Longrightarrow> store cl (world s) (okey obj) \<noteq> None) \<Longrightarrow> Q (Inl e) (s\<lparr>world := w'\<rparr>)"
  shows "wp (Create X cl obj) Q s"
proof -
  obtain r w' where r: "client_create X cl obj (world s) = (r, w')" by (rule prod.exhaust)
  have only: "only_slot store cl (okey obj) (world s) w'"
    using create_frame [OF r] by (simp add: only_slot_def)
  show ?thesis
  proof (cases r)
    case (Inl e)
    have ex: "store cl (world s) (okey obj) \<noteq> None" if "IsAlreadyExists e"
      using create_exists r Inl that by blast
    have "Q (Inl e) (s\<lparr>world := w'\<rparr>)"
    proof (cases "store cl w' (okey obj) = store cl (world s) (okey obj)")
      case True
      with only ex show ?thesis by (intro assms(3)) auto
    next
      case False
      then obtain u v where "store cl w' (okey obj) = Some (obj\<lparr>UID := u, ResourceVersion := v\<rparr>)"
        and "store cl (world s) (okey obj) = None"
        using create_effect [OF r _ assms(1)] by blast
      with only ex show ?thesis by (intro assms(3)) auto
    qed
    with r Inl show ?thesis by (simp add: Create_def wp_api)
  next
    case (Inr u)
    then show ?thesis
      using r only assms(2) create_effect [OF r _ assms(1)] by (auto simp: Create_def wp_api)
  qed
qed

lemma wp_Update:
  assumes old: "store cl (world s) (okey obj) = Some old"
    and same: "UID old = UID obj" "DeletionTimestamp old = DeletionTimestamp obj"
    and "\<And>w' v. only_slot store cl (okey obj) (world s) w' \<Longrightarrow>
      store cl w' (okey obj) = persisted obj v \<Longrightarrow> Q (Inr ()) (s\<lparr>world := w'\<rparr>)"
    and "\<And>w' e v. only_slot store cl (okey obj) (world s) w' \<Longrightarrow> \<not> IsNotFound e \<Longrightarrow>
      store cl w' (okey obj) = Some old \<or> store cl w' (okey obj) = persisted obj v \<Longrightarrow>
      Q (Inl e) (s\<lparr>world := w'\<rparr>)"
  shows "wp (Update X cl obj) Q s"
proof -
  obtain r w' where r: "client_update X cl obj (world s) = (r, w')" by (rule prod.exhaust)
  have only: "only_slot store cl (okey obj) (world s) w'"
    using update_frame [OF r] by (simp add: only_slot_def)
  show ?thesis
  proof (cases r)
    case (Inl e)
    have "\<not> IsNotFound e" using update_missing r Inl old by auto
    then show ?thesis
      using r Inl only assms(5) update_effect [OF r] old same
      by (cases "store cl w' (okey obj) = store cl (world s) (okey obj)")
        (auto simp: Update_def wp_api)
  next
    case (Inr u)
    then show ?thesis
      using r only assms(4) update_effect [OF r] old same by (auto simp: Update_def wp_api)
  qed
qed

lemma wp_Delete:
  assumes old: "store cl (world s) (okey obj) = Some old"
    and "\<And>w'. only_slot store cl (okey obj) (world s) w' \<Longrightarrow> deleted_slot old (store cl w' (okey obj)) \<Longrightarrow>
      Q (Inr ()) (s\<lparr>world := w'\<rparr>)"
    and "\<And>w' e. only_slot store cl (okey obj) (world s) w' \<Longrightarrow> \<not> IsNotFound e \<Longrightarrow>
      store cl w' (okey obj) = Some old \<or> deleted_slot old (store cl w' (okey obj)) \<Longrightarrow>
      Q (Inl e) (s\<lparr>world := w'\<rparr>)"
  shows "wp (Delete X cl obj) Q s"
proof -
  obtain r w' where r: "client_delete X cl obj (world s) = (r, w')" by (rule prod.exhaust)
  have only: "only_slot store cl (okey obj) (world s) w'"
    using delete_frame [OF r] by (simp add: only_slot_def)
  show ?thesis
  proof (cases r)
    case (Inl e)
    have "\<not> IsNotFound e" using delete_missing r Inl old by auto
    then show ?thesis
      using r Inl only assms(3) delete_effect [OF r] old
      by (cases "store cl w' (okey obj) = store cl (world s) (okey obj)")
        (auto simp: Delete_def wp_api deleted_slot_def)
  next
    case (Inr u)
    then show ?thesis
      using r only assms(2) delete_effect [OF r] old
      by (auto simp: Delete_def wp_api deleted_slot_def)
  qed
qed

end

text \<open>
  The whole platform: the API server, the finalizer helpers, and a \<open>range\<close> over a map that
  visits every key once, in an order that may differ from run to run.
\<close>

locale platform =
  api_server X store nslist + finalizer_laws "finalizers X"
  for X :: "('c, 'w) ext" and store and nslist +
  assumes range_once: "distinct (range_keys X w S) \<and> set (range_keys X w S) = fset S"

end
