(* ===== verification/Target_Lists.thy ===== *)
theory Target_Lists
  imports Objects
begin

text \<open>
  The three parsers of comma-separated lists: \<open>NamespaceSet\<close> of
  \<open>internal/controller/syncer.go\<close> (the \<open>--exclude-namespaces\<close> flag), and
  \<open>parseTargetClusters\<close> and \<open>destNamespaces\<close> of \<open>cross_cluster.go\<close> (the target-clusters
  annotation), with what they return for every input and the round trip of the target list.
\<close>

definition DefaultExcludedNamespaces :: "string list" where
  "DefaultExcludedNamespaces = [''kube-system'', ''kube-public'', ''kube-node-lease'']"

fun NamespaceSet_loop :: "string list \<Rightarrow> (string, bool) fmap \<Rightarrow> (string, bool) fmap" where
  "NamespaceSet_loop [] nset = nset"
| "NamespaceSet_loop (ns # parts) nset =
     (let ns = TrimSpace ns in
      if ns \<noteq> [] then NamespaceSet_loop parts (fmupd ns True nset)
      else NamespaceSet_loop parts nset)"

definition NamespaceSet :: "string \<Rightarrow> string_set" where
  "NamespaceSet csv =
     (let nset = NamespaceSet_loop (split_on CHR '','' csv) fmempty in
      if fcard (fmdom nset) = 0 then None else Some nset)"

type_synonym targets = "(string, string list) fmap"

definition targets_index :: "targets \<Rightarrow> string \<Rightarrow> string list" where
  "targets_index out cid = (case fmlookup out cid of None \<Rightarrow> [] | Some l \<Rightarrow> l)"

fun parseTargetClusters_loop :: "string list \<Rightarrow> targets \<Rightarrow> targets" where
  "parseTargetClusters_loop [] out = out"
| "parseTargetClusters_loop (part # parts) out =
     (let (cid, ns) = cut_at CHR '':'' (TrimSpace part);
          cid = TrimSpace cid;
          ns = TrimSpace ns
      in if cid = [] \<or> ns \<in> set (targets_index out cid)
         then parseTargetClusters_loop parts out
         else parseTargetClusters_loop parts (fmupd cid (targets_index out cid @ [ns]) out))"

definition parseTargetClusters :: "string \<Rightarrow> targets option" where
  "parseTargetClusters csv =
     (let out = parseTargetClusters_loop (split_on CHR '','' csv) fmempty in
      if fcard (fmdom out) = 0 then None else Some out)"

text \<open>A lookup in the result, which may be the nil map.\<close>

definition target_lookup :: "targets option \<Rightarrow> string \<Rightarrow> string list option" where
  "target_lookup t cid = (case t of None \<Rightarrow> None | Some m \<Rightarrow> fmlookup m cid)"

fun destNamespaces_loop :: "object \<Rightarrow> string list \<Rightarrow> string list \<Rightarrow> string list" where
  "destNamespaces_loop src [] out = out"
| "destNamespaces_loop src (ns # targets) out =
     (let ns = (if ns = [] then Namespace src else ns) in
      if ns \<notin> set out then destNamespaces_loop src targets (out @ [ns])
      else destNamespaces_loop src targets out)"

definition destNamespaces :: "object \<Rightarrow> string list \<Rightarrow> string list" where
  "destNamespaces src targets = destNamespaces_loop src targets []"

subsection \<open>Exclusion lists\<close>

lemma NamespaceSet_loop_lookup:
  "fmlookup (NamespaceSet_loop parts nset) k =
     (if k \<noteq> [] \<and> k \<in> TrimSpace ` set parts then Some True else fmlookup nset k)"
  by (induction parts nset rule: NamespaceSet_loop.induct) (auto simp: Let_def)

lemma NamespaceSet_index:
  "set_index (NamespaceSet csv) k \<longleftrightarrow> k \<noteq> [] \<and> k \<in> TrimSpace ` set (split_on CHR '','' csv)"
proof -
  have "set_index (NamespaceSet csv) k \<longleftrightarrow>
      fmlookup (NamespaceSet_loop (split_on CHR '','' csv) fmempty) k = Some True"
    by (simp add: NamespaceSet_def Let_def set_index_def)
  then show ?thesis by (simp add: NamespaceSet_loop_lookup)
qed

text \<open>
  \<open>NamespaceSet\<close> holds exactly the non-blank entries of the list, each without its
  surrounding white space, and is nil exactly when the list has none.
\<close>

lemma NamespaceSet_members:
  "(\<forall>k. set_index (NamespaceSet csv) k = (k \<noteq> [] \<and> k \<in> TrimSpace ` set (split_on CHR '','' csv))) \<and>
   (NamespaceSet csv = None) = (TrimSpace ` set (split_on CHR '','' csv) = {[]})"
proof (intro conjI allI)
  fix k
  show "set_index (NamespaceSet csv) k = (k \<noteq> [] \<and> k \<in> TrimSpace ` set (split_on CHR '','' csv))"
    by (rule NamespaceSet_index)
next
  let ?S = "TrimSpace ` set (split_on CHR '','' csv)"
  let ?m = "NamespaceSet_loop (split_on CHR '','' csv) fmempty"
  have "?S \<noteq> {}" by simp
  then have "?S = {[]} \<longleftrightarrow> (\<forall>k. k = [] \<or> k \<notin> ?S)" by (rule singleton_only)
  also have "\<dots> \<longleftrightarrow> (\<forall>k. fmlookup ?m k = None)" by (simp add: NamespaceSet_loop_lookup)
  also have "\<dots> \<longleftrightarrow> ?m = fmempty" by (auto intro: fmap_ext)
  finally show "(NamespaceSet csv = None) = (?S = {[]})"
    by (simp add: NamespaceSet_def Let_def)
qed

subsection \<open>Target lists\<close>

text \<open>
  One entry of the list, and the abstract meaning of the whole list: for each cluster the
  namespaces of its entries in the order they are first listed.
\<close>

definition target_entry :: "string \<Rightarrow> string \<times> string" where
  "target_entry part =
     (let (cid, ns) = cut_at CHR '':'' (TrimSpace part) in (TrimSpace cid, TrimSpace ns))"

definition entries_for :: "string list \<Rightarrow> string \<Rightarrow> string list" where
  "entries_for parts cid = map snd (filter (\<lambda>e. fst e = cid) (map target_entry parts))"

definition first_seen :: "'a list \<Rightarrow> 'a list" where
  "first_seen xs = rev (remdups (rev xs))"

lemma first_seen_simps [simp]:
  "first_seen [] = []"
  "first_seen [x] = [x]"
  "first_seen (xs @ [x]) = (if x \<in> set xs then first_seen xs else first_seen xs @ [x])"
  by (simp_all add: first_seen_def)

lemma first_seen_facts [simp]:
  "set (first_seen xs) = set xs" "distinct (first_seen xs)" "first_seen xs = [] \<longleftrightarrow> xs = []"
  by (simp_all add: first_seen_def)

lemma entries_for_snoc:
  "entries_for (parts @ [part]) cid =
     entries_for parts cid @ (if fst (target_entry part) = cid then [snd (target_entry part)] else [])"
  by (simp add: entries_for_def)

lemma parseTargetClusters_loop_append:
  "parseTargetClusters_loop (ps @ qs) out =
     parseTargetClusters_loop qs (parseTargetClusters_loop ps out)"
  by (induction ps out rule: parseTargetClusters_loop.induct) (auto simp: Let_def split: prod.splits)

lemma parseTargetClusters_loop_lookup:
  "fmlookup (parseTargetClusters_loop parts fmempty) cid =
     (if cid = [] \<or> entries_for parts cid = [] then None else Some (first_seen (entries_for parts cid)))"
proof (induction parts arbitrary: cid rule: rev_induct)
  case Nil
  show ?case by (simp add: entries_for_def)
next
  case (snoc part parts)
  obtain a b where c: "cut_at CHR '':'' (TrimSpace part) = (a, b)" by (rule prod.exhaust)
  define i n where "i = TrimSpace a" and "n = TrimSpace b"
  have e: "target_entry part = (i, n)" by (simp add: target_entry_def c i_def n_def)
  define out where "out = parseTargetClusters_loop parts fmempty"
  have index: "targets_index out i = (if i = [] then [] else first_seen (entries_for parts i))"
    using snoc.IH [of i] by (simp add: targets_index_def out_def)
  have "parseTargetClusters_loop (parts @ [part]) fmempty =
      (if i = [] \<or> n \<in> set (targets_index out i) then out
       else fmupd i (targets_index out i @ [n]) out)"
    by (simp add: parseTargetClusters_loop_append out_def [symmetric] c Let_def
        i_def [symmetric] n_def [symmetric])
  then show ?case
    using snoc.IH [of cid] index
    by (auto simp: entries_for_snoc e out_def)
qed

lemma parseTargetClusters_lookup:
  "target_lookup (parseTargetClusters csv) cid =
     (let ns = entries_for (split_on CHR '','' csv) cid in
      if cid = [] \<or> ns = [] then None else Some (first_seen ns))"
  using parseTargetClusters_loop_lookup [of "split_on CHR '','' csv" cid]
  by (auto simp: target_lookup_def parseTargetClusters_def Let_def split: if_splits)

text \<open>
  C37: \<open>parseTargetClusters\<close> computes that meaning: a cluster cid is a key exactly when it is
  not blank and some entry names it, its value lists the namespaces of its entries without
  duplicates in first-seen order, and the result is nil exactly when no entry names a cluster.
\<close>

theorem parseTargetClusters_meaning:
  "(\<forall>cid. target_lookup (parseTargetClusters csv) cid =
      (let ns = entries_for (split_on CHR '','' csv) cid in
       if cid = [] \<or> ns = [] then None else Some (first_seen ns))) \<and>
   (parseTargetClusters csv = None) =
      (fst ` target_entry ` set (split_on CHR '','' csv) = {[]})"
proof (intro conjI allI)
  fix cid
  show "target_lookup (parseTargetClusters csv) cid =
      (let ns = entries_for (split_on CHR '','' csv) cid in
       if cid = [] \<or> ns = [] then None else Some (first_seen ns))"
    by (rule parseTargetClusters_lookup)
next
  let ?ps = "split_on CHR '','' csv" and ?m = "parseTargetClusters_loop (split_on CHR '','' csv) fmempty"
  have e: "entries_for ?ps cid = [] \<longleftrightarrow> cid \<notin> fst ` target_entry ` set ?ps" for cid
    by (auto simp: entries_for_def filter_empty_conv image_iff)
  have "fst ` target_entry ` set ?ps \<noteq> {}" by simp
  then have "fst ` target_entry ` set ?ps = {[]} \<longleftrightarrow>
      (\<forall>cid. cid = [] \<or> cid \<notin> fst ` target_entry ` set ?ps)" by (rule singleton_only)
  also have "\<dots> \<longleftrightarrow> (\<forall>cid. fmlookup ?m cid = None)"
    by (simp add: parseTargetClusters_loop_lookup e)
  also have "\<dots> \<longleftrightarrow> ?m = fmempty" by (auto intro: fmap_ext)
  finally show "(parseTargetClusters csv = None) = (fst ` target_entry ` set ?ps = {[]})"
    by (simp add: parseTargetClusters_def Let_def)
qed

text \<open>Writing a target list: one entry per cluster and namespace, a bare cid for its own namespace.\<close>

definition print_target :: "string \<times> string \<Rightarrow> string" where
  "print_target e = (if snd e = [] then fst e else fst e @ CHR '':'' # snd e)"

definition print_targets :: "(string \<times> string) list \<Rightarrow> string" where
  "print_targets es = join_with CHR '','' (map print_target es)"

definition clean_target :: "string \<times> string \<Rightarrow> bool" where
  "clean_target e \<longleftrightarrow>
     fst e \<noteq> [] \<and> trimmed (fst e) \<and> trimmed (snd e) \<and>
     CHR '':'' \<notin> set (fst e) \<and> CHR '','' \<notin> set (fst e) \<and> CHR '','' \<notin> set (snd e)"

lemma target_entry_print: "clean_target e \<Longrightarrow> target_entry (print_target e) = e"
proof (cases e)
  case (Pair i n)
  assume c: "clean_target e"
  have "list_all (\<lambda>w. CHR '':'' \<notin> set w) space_bytes" by (simp add: space_bytes_def)
  with c Pair show ?thesis
    by (simp add: clean_target_def target_entry_def print_target_def cut_at_no_sep cut_at_append
        trimmed_join)
qed

text \<open>
  C38: parsing a printed target list gives back, for every cluster, the listed namespaces
  (without duplicates, in first-seen order).
\<close>

theorem parse_print_targets:
  assumes "es \<noteq> []" and "list_all clean_target es"
  shows "target_lookup (parseTargetClusters (print_targets es)) cid =
     (let ns = map snd (filter (\<lambda>e. fst e = cid) es) in
      if ns = [] then None else Some (first_seen ns))"
proof -
  have "CHR '','' \<notin> set (print_target e)" if "e \<in> set es" for e
    using assms(2) that by (auto simp: list_all_iff clean_target_def print_target_def)
  then have split: "split_on CHR '','' (print_targets es) = map print_target es"
    unfolding print_targets_def using assms(1) by (intro split_join) auto
  have "map target_entry (map print_target es) = es"
    using assms(2) by (simp add: list_all_iff target_entry_print map_idI)
  then have "entries_for (map print_target es) cid = map snd (filter (\<lambda>e. fst e = cid) es)"
    by (simp add: entries_for_def)
  moreover have "map snd (filter (\<lambda>e. fst e = []) es) = []"
    using assms(2) by (auto simp: list_all_iff clean_target_def filter_empty_conv)
  ultimately show ?thesis
    by (auto simp: parseTargetClusters_lookup split)
qed

theorem parse_print_targets_witness:
  "target_lookup (parseTargetClusters (print_targets [(''green'', ''web''), (''blue'', []), (''green'', ''api'')])) ''green'' =
     Some [''web'', ''api'']"
proof -
  let ?es = "[(''green'', ''web''), (''blue'', []), (''green'', ''api'')] :: (string \<times> string) list"
  have "list_all clean_target ?es" by code_simp
  from parse_print_targets [OF _ this, of "''green''"] show ?thesis by (simp add: Let_def first_seen_def)
qed

subsection \<open>Destination namespaces\<close>

lemma destNamespaces_loop_eq:
  "destNamespaces_loop src targets out =
     first_seen (out @ map (\<lambda>ns. if ns = [] then Namespace src else ns) targets)"
  if "distinct out" for out
proof -
  have fs: "first_seen xs = xs" if "distinct xs" for xs :: "string list"
    using that by (simp add: first_seen_def distinct_remdups_id)
  have drop: "first_seen (xs @ x # ys) = first_seen (xs @ ys)" if "x \<in> set xs" for xs ys :: "string list" and x
    using that by (induction ys rule: rev_induct) (auto simp flip: append_assoc append_Cons)
  show ?thesis using that
  proof (induction src targets out rule: destNamespaces_loop.induct)
    case (1 src out)
    then show ?case by (simp add: fs)
  next
    case (2 src ns targets out)
    then show ?case by (auto simp: Let_def drop)
  qed
qed

lemma destNamespaces_distinct [simp]: "distinct (destNamespaces src targets)"
  by (simp add: destNamespaces_def destNamespaces_loop_eq)

text \<open>
  \<open>destNamespaces\<close> resolves a bare entry to the source's own namespace and lists every
  destination once, in first-seen order.
\<close>

lemma destNamespaces_meaning:
  "destNamespaces src targets =
     first_seen (map (\<lambda>ns. if ns = [] then Namespace src else ns) targets) \<and>
   distinct (destNamespaces src targets)"
  by (simp add: destNamespaces_def destNamespaces_loop_eq)

end
