(* ===== verification/Copy_Sync.thy ===== *)
theory Copy_Sync
  imports Platform Target_Lists
begin

text \<open>
  The two operations every replication is made of, from \<open>internal/controller/syncer.go\<close>:
  \<open>upsertCopy\<close> (create, update or adopt the copy in one namespace of one cluster) and
  \<open>deleteCopies\<close> (remove the copies that are no longer wanted from one cluster), with the
  abstract specification of what each does to the store.
\<close>

subsection \<open>The syncer and its actions\<close>

record 'c Syncer =
  s_Client :: 'c
  s_Keys :: KeySet
  s_ExcludeNamespaces :: string_set
  s_HubClusterUID :: string

datatype action = actionNone | actionCreated | actionUpdated | actionAdopted

definition operationFor :: "action \<Rightarrow> string" where
  "operationFor act = (case act of
     actionCreated \<Rightarrow> ''created''
   | actionUpdated \<Rightarrow> ''updated''
   | actionAdopted \<Rightarrow> ''adopted''
   | actionNone \<Rightarrow> [])"

subsection \<open>Upsert\<close>

text \<open>
  \<open>upsertExisting\<close> is the second half of \<open>upsertCopy\<close>, from the point where the object in
  the target slot has been read. Both return the action and the error, as the code does.
\<close>

definition upsertExisting ::
  "('c, 'w) ext \<Rightarrow> 'c Syncer \<Rightarrow> 'c \<Rightarrow> object \<Rightarrow> string \<Rightarrow> string \<Rightarrow> object \<Rightarrow>
     ('r, 'w, (action \<times> error option) outcome) go" where
  "upsertExisting X sy cl src ns originCluster existing =
     (let managed = isManagedCopy (s_Keys sy) existing in
      if \<not> managed \<and> \<not> isAdoptable existing then do {
        Eventf src Warning ''Skipped'' ''Refusing to overwrite unmanaged object %s/%s''
          [ArgS ns, ArgS (Name src)];
        State_Monad.return (Ret (actionNone, None))
      }
      else if managed \<and> \<not> ownsCopy (s_Keys sy) existing src originCluster then do {
        let (ownerNS, ownerName, ownerCluster) = ownerRef (s_Keys sy) existing;
        let ownerCluster = (if ownerCluster = [] then ''local'' else ownerCluster);
        Eventf src Warning ''Conflict''
          ''Refusing to overwrite %s/%s owned by source %s/%s on cluster %s''
          [ArgS ns, ArgS (Name src), ArgS ownerNS, ArgS ownerName, ArgS ownerCluster];
        State_Monad.return (Ret (actionNone, None))
      }
      else
        let legacyDomain = (if managed then legacyDomainOf (s_Keys sy) existing else []);
            prior = existing;
            existing = applyCopyMeta (s_Keys sy) src existing originCluster
        in case copyContents src existing of
             None \<Rightarrow> State_Monad.return Panic
           | Some existing \<Rightarrow>
               (case (if managed then contentEqual prior existing else Some False) of
                  None \<Rightarrow> State_Monad.return Panic
                | Some True \<Rightarrow> State_Monad.return (Ret (actionNone, None))
                | Some False \<Rightarrow> do {
                    r \<leftarrow> Update X cl existing;
                    case r of
                      Inl err \<Rightarrow> State_Monad.return (Ret (actionNone, Some err))
                    | Inr _ \<Rightarrow>
                        if legacyDomain \<noteq> [] then do {
                          Eventf src Normal ''Adopted''
                            ''Migrated copy %s/%s from previous annotation domain %q to %q''
                            [ArgS ns, ArgS (Name src), ArgS legacyDomain,
                             ArgS (Domain (Primary (s_Keys sy)))];
                          emit (CounterAdd copiesMigratedTotal [legacyDomain] 1);
                          State_Monad.return (Ret (actionUpdated, None))
                        }
                        else if managed then State_Monad.return (Ret (actionUpdated, None))
                        else State_Monad.return (Ret (actionAdopted, None))
                  }))"

definition upsertCopy ::
  "('c, 'w) ext \<Rightarrow> 'c Syncer \<Rightarrow> 'c \<Rightarrow> object \<Rightarrow> string \<Rightarrow> string \<Rightarrow>
     ('r, 'w, (action \<times> error option) outcome) go" where
  "upsertCopy X sy cl src ns originCluster =
     (case emptyLike src of
        None \<Rightarrow> State_Monad.return Panic
      | Some existing \<Rightarrow> do {
          r \<leftarrow> Get X cl (objKind existing) ns (Name src);
          case r of
            Inl err \<Rightarrow>
              if IsNotFound err then
                (case emptyLike src of
                   None \<Rightarrow> State_Monad.return Panic
                 | Some desired \<Rightarrow>
                     let desired = desired\<lparr>Namespace := ns\<rparr>;
                         desired = desired\<lparr>Name := Name src\<rparr>;
                         desired = applyCopyMeta (s_Keys sy) src desired originCluster
                     in case copyContents src desired of
                          None \<Rightarrow> State_Monad.return Panic
                        | Some desired \<Rightarrow> do {
                            c \<leftarrow> Create X cl desired;
                            case c of
                              Inl err \<Rightarrow>
                                if \<not> IsAlreadyExists err
                                then State_Monad.return (Ret (actionNone, Some err))
                                else State_Monad.return (Ret (actionCreated, None))
                            | Inr _ \<Rightarrow> State_Monad.return (Ret (actionCreated, None))
                          })
              else State_Monad.return (Ret (actionNone, Some err))
          | Inr existing \<Rightarrow> upsertExisting X sy cl src ns originCluster existing
        })"

subsection \<open>Deletion\<close>

text \<open>
  \<open>deleteCopies\<close> lists the copies under every domain and visits each namespace once; the
  loop variables are the namespaces seen and the number of copies deleted. A nil \<open>keep\<close> is
  \<open>None\<close>.
\<close>

definition deleteCopies_item ::
  "('c, 'w) ext \<Rightarrow> 'c Syncer \<Rightarrow> 'c \<Rightarrow> string_set \<Rightarrow> string \<Rightarrow> object \<Rightarrow>
     (string, bool) fmap \<times> nat \<Rightarrow>
     ('r, 'w, ((string, bool) fmap \<times> nat, (nat \<times> error option) outcome) flow) go" where
  "deleteCopies_item X sy cl keep originCluster c = (\<lambda>(seen, n).
     if set_index (Some seen) (Namespace c) then State_Monad.return (Next (seen, n))
     else
       let seen = fmupd (Namespace c) True seen in
       if keep \<noteq> None \<and> set_index keep (Namespace c) then State_Monad.return (Next (seen, n))
       else if originCluster \<noteq> [] \<and>
         (let oc = originCluster_of (s_Keys sy) c in oc \<noteq> [] \<and> oc \<noteq> originCluster)
       then State_Monad.return (Next (seen, n))
       else do {
         r \<leftarrow> Delete X cl c;
         case r of
           Inl err \<Rightarrow>
             if \<not> IsNotFound err then State_Monad.return (Return (Ret (n, Some err)))
             else State_Monad.return (Next (seen, n + 1))
         | Inr _ \<Rightarrow> State_Monad.return (Next (seen, n + 1))
       })"

definition deleteCopies ::
  "('c, 'w) ext \<Rightarrow> 'c Syncer \<Rightarrow> 'c \<Rightarrow> object \<Rightarrow> string_set \<Rightarrow> string \<Rightarrow>
     ('r, 'w, (nat \<times> error option) outcome) go" where
  "deleteCopies X sy cl src keep originCluster = do {
     f \<leftarrow> for_range (managedListOpts (s_Keys sy) src)
       (\<lambda>sel (seen, n).
          case emptyListLike src of
            None \<Rightarrow> State_Monad.return (Return Panic)
          | Some l \<Rightarrow> do {
              r \<leftarrow> List X cl (listKind l) (MatchingLabels sel);
              case r of
                Inl err \<Rightarrow> State_Monad.return (Return (Ret (n, Some err)))
              | Inr l \<Rightarrow>
                  for_range (listItems l) (deleteCopies_item X sy cl keep originCluster) (seen, n)
            })
       (fmempty, 0);
     case f of
       Return r \<Rightarrow> State_Monad.return r
     | Next (seen, n) \<Rightarrow> State_Monad.return (Ret (n, None))
   }"

subsection \<open>The specification of an upsert\<close>

text \<open>
  Abstractly an upsert is a function of what the target slot holds. \<open>slot_class\<close> tells the
  five situations apart, \<open>spec_upsert\<close> says what the slot must hold afterwards and which
  action is reported, \<open>spec_upsert_effects\<close> which events and metrics are emitted.
\<close>

datatype slot_class = Absent | Unmanaged | Foreign | Owned | Adoptable

definition slot_class :: "KeySet \<Rightarrow> object \<Rightarrow> string \<Rightarrow> object option \<Rightarrow> slot_class" where
  "slot_class ks src oc old = (case old of
     None \<Rightarrow> Absent
   | Some obj \<Rightarrow>
       if isManagedCopy ks obj then (if ownsCopy ks obj src oc then Owned else Foreign)
       else (if isAdoptable obj then Adoptable else Unmanaged))"

definition refreshed :: "KeySet \<Rightarrow> object \<Rightarrow> string \<Rightarrow> object \<Rightarrow> object" where
  "refreshed ks src oc obj =
     obj\<lparr>Labels := copyLabels ks src oc, Annotations := copyAnnotations ks src,
         Content := Content src\<rparr>"

definition fresh_copy :: "KeySet \<Rightarrow> object \<Rightarrow> string \<Rightarrow> string \<Rightarrow> object" where
  "fresh_copy ks src ns oc =
     refreshed ks src oc ((zero_object (Content src))\<lparr>Namespace := ns, Name := Name src\<rparr>)"

definition spec_upsert ::
  "KeySet \<Rightarrow> object \<Rightarrow> string \<Rightarrow> string \<Rightarrow> object option \<Rightarrow> object option \<times> action" where
  "spec_upsert ks src ns oc old = (case slot_class ks src oc old of
     Absent \<Rightarrow> (Some (fresh_copy ks src ns oc), actionCreated)
   | Unmanaged \<Rightarrow> (old, actionNone)
   | Foreign \<Rightarrow> (old, actionNone)
   | Owned \<Rightarrow>
       (if map_option (refreshed ks src oc) old = old then (old, actionNone)
        else (map_option (refreshed ks src oc) old, actionUpdated))
   | Adoptable \<Rightarrow> (map_option (refreshed ks src oc) old, actionAdopted))"

definition spec_upsert_effects ::
  "KeySet \<Rightarrow> object \<Rightarrow> string \<Rightarrow> string \<Rightarrow> object option \<Rightarrow> effect list" where
  "spec_upsert_effects ks src ns oc old = (case (slot_class ks src oc old, old) of
     (Unmanaged, _) \<Rightarrow>
       [Event (okey src) Warning ''Skipped'' ''Refusing to overwrite unmanaged object %s/%s''
          [ArgS ns, ArgS (Name src)]]
   | (Foreign, Some obj) \<Rightarrow>
       (let (ons, onm, ocl) = ownerRef ks obj in
        [Event (okey src) Warning ''Conflict''
           ''Refusing to overwrite %s/%s owned by source %s/%s on cluster %s''
           [ArgS ns, ArgS (Name src), ArgS ons, ArgS onm,
            ArgS (if ocl = [] then ''local'' else ocl)]])
   | (Owned, Some obj) \<Rightarrow>
       (if refreshed ks src oc obj \<noteq> obj \<and> legacyDomainOf ks obj \<noteq> [] then
          [Event (okey src) Normal ''Adopted''
             ''Migrated copy %s/%s from previous annotation domain %q to %q''
             [ArgS ns, ArgS (Name src), ArgS (legacyDomainOf ks obj), ArgS (Domain (Primary ks))],
           CounterAdd copiesMigratedTotal [legacyDomainOf ks obj] 1]
        else [])
   | _ \<Rightarrow> [])"

text \<open>
  \<open>slot_result old want new\<close>: the slot holds \<open>want\<close> up to the fields the server assigns; an
  object that was there keeps its identity (its UID), and is not written when nothing changes.
\<close>

definition slot_result :: "object option \<Rightarrow> object option \<Rightarrow> object option \<Rightarrow> bool" where
  "slot_result old want new \<longleftrightarrow>
     (if want = old then new = old
      else \<exists>d u v. want = Some d \<and> new = Some (d\<lparr>UID := u, ResourceVersion := v\<rparr>) \<and>
             (old \<noteq> None \<longrightarrow> u = UID d))"

lemma refreshed_fields [simp]:
  "Namespace (refreshed ks src oc obj) = Namespace obj"
  "Name (refreshed ks src oc obj) = Name obj"
  "Labels (refreshed ks src oc obj) = copyLabels ks src oc"
  "Annotations (refreshed ks src oc obj) = copyAnnotations ks src"
  "Finalizers (refreshed ks src oc obj) = Finalizers obj"
  "DeletionTimestamp (refreshed ks src oc obj) = DeletionTimestamp obj"
  "UID (refreshed ks src oc obj) = UID obj"
  "ResourceVersion (refreshed ks src oc obj) = ResourceVersion obj"
  "Content (refreshed ks src oc obj) = Content src"
  by (simp_all add: refreshed_def)

lemma refreshed_kind: "objKind (refreshed ks src oc obj) = objKind src"
  by (simp add: objKind_def)

lemma refreshed_id_iff:
  "refreshed ks src oc obj = obj \<longleftrightarrow>
     Labels obj = copyLabels ks src oc \<and> Annotations obj = copyAnnotations ks src \<and>
     Content obj = Content src"
  by (metis refreshed_fields(3,4,9) refreshed_def object.surjective object.update_convs(3,4,9))

lemma copy_steps:
  "objKind src = objKind obj \<Longrightarrow>
     copyContents src (applyCopyMeta ks src obj oc) = Some (refreshed ks src oc obj)"
  by (simp add: copyContents_same_kind applyCopyMeta_eq refreshed_def)

lemma okey_eq_iff: "okey obj = (k, ns, n) \<longleftrightarrow> objKind obj = k \<and> Namespace obj = ns \<and> Name obj = n"
  by (simp add: okey_def)

text \<open>What a run of \<open>upsertCopy\<close> from \<open>s\<close> to \<open>s'\<close> that returns \<open>r\<close> has done.\<close>

definition upsert_post ::
  "('c \<Rightarrow> 'w \<Rightarrow> okey \<Rightarrow> object option) \<Rightarrow> KeySet \<Rightarrow> 'c \<Rightarrow> object \<Rightarrow> string \<Rightarrow> string \<Rightarrow>
     ('r, 'w) st \<Rightarrow> (action \<times> error option) outcome \<Rightarrow> ('r, 'w) st \<Rightarrow> bool" where
  "upsert_post store ks cl src ns oc s r s' \<longleftrightarrow>
     (let key = (objKind src, ns, Name src);
          old = store cl (world s) key;
          new = store cl (world s') key;
          (want, act) = spec_upsert ks src ns oc old
      in registry s' = registry s \<and> channels s' = channels s \<and>
         only_slot store cl key (world s) (world s') \<and>
         (case r of
            Panic \<Rightarrow> False
          | Ret (a, None) \<Rightarrow>
              a = act \<and> slot_result old want new \<and>
              effects s' = effects s @ spec_upsert_effects ks src ns oc old
          | Ret (a, Some e) \<Rightarrow>
              a = actionNone \<and> effects s' = effects s \<and> (new = old \<or> slot_result old want new)))"

lemma upsert_postD:
  assumes "upsert_post store ks cl src ns oc s r s'"
  shows "only_slot store cl (objKind src, ns, Name src) (world s) (world s')"
    and "store cl (world s') (objKind src, ns, Name src) = store cl (world s) (objKind src, ns, Name src) \<or>
      slot_result (store cl (world s) (objKind src, ns, Name src))
        (fst (spec_upsert ks src ns oc (store cl (world s) (objKind src, ns, Name src))))
        (store cl (world s') (objKind src, ns, Name src))"
    and "registry s' = registry s" "channels s' = channels s" "r \<noteq> Panic"
proof -
  note post = assms [unfolded upsert_post_def Let_def case_prod_beta]
  show "only_slot store cl (objKind src, ns, Name src) (world s) (world s')"
    "registry s' = registry s" "channels s' = channels s"
    using post by blast+
  obtain p where r: "r = Ret p" using post by (cases r) auto
  then show "r \<noteq> Panic" by simp
  show "store cl (world s') (objKind src, ns, Name src) = store cl (world s) (objKind src, ns, Name src) \<or>
      slot_result (store cl (world s) (objKind src, ns, Name src))
        (fst (spec_upsert ks src ns oc (store cl (world s) (objKind src, ns, Name src))))
        (store cl (world s') (objKind src, ns, Name src))"
    using post unfolding r outcome.case by (cases "snd p") auto
qed

lemma upsert_post_okD:
  assumes "upsert_post store ks cl src ns oc s (Ret (a, None)) s'"
  shows "slot_result (store cl (world s) (objKind src, ns, Name src))
        (fst (spec_upsert ks src ns oc (store cl (world s) (objKind src, ns, Name src))))
        (store cl (world s') (objKind src, ns, Name src))"
    and "a = snd (spec_upsert ks src ns oc (store cl (world s) (objKind src, ns, Name src)))"
    and "effects s' = effects s @
        spec_upsert_effects ks src ns oc (store cl (world s) (objKind src, ns, Name src))"
  using assms unfolding upsert_post_def Let_def case_prod_beta by simp_all

lemma upsert_post_errD:
  assumes "upsert_post store ks cl src ns oc s (Ret (a, Some e)) s'"
  shows "a = actionNone" and "effects s' = effects s"
  using assms unfolding upsert_post_def Let_def case_prod_beta by simp_all

lemma served_ex:
  "\<exists>u' v'. obj\<lparr>UID := u, ResourceVersion := v\<rparr> = obj\<lparr>UID := u', ResourceVersion := v'\<rparr>"
  by blast

lemma refreshed_managed:
  assumes "wf_KeySet ks" and "refreshed ks src oc obj = obj"
  shows "isManagedCopy ks obj" and "ownsCopy ks obj src oc"
proof -
  have "Labels obj = Labels (applyCopyMeta ks src obj oc)"
    using assms(2) by (simp add: refreshed_id_iff Labels_applyCopyMeta)
  then show "isManagedCopy ks obj" and "ownsCopy ks obj src oc"
    using copy_marks.settled [OF KeySet_copy_marks [OF assms(1)]] by blast+
qed

context api_server begin

lemma wp_upsertExisting:
  assumes wf: "wf_KeySet (s_Keys sy)"
    and kind: "objKind src \<noteq> OtherKind"
    and old: "store cl (world s) (objKind src, ns, Name src) = Some obj"
    and s0: "\<And>c. store c (world s) = store c (world s0)" "registry s = registry s0"
      "channels s = channels s0" "effects s = effects s0"
  shows "wp (upsertExisting X sy cl src ns oc obj) (upsert_post store (s_Keys sy) cl src ns oc s0) s"
proof -
  let ?ks = "s_Keys sy" and ?key = "(objKind src, ns, Name src)"
  let ?new = "refreshed ?ks src oc obj"
  have okey: "okey obj = ?key" using old by (rule stored_key)
  then have obj_kind: "objKind src = objKind obj" by (simp add: okey_def)
  have new_key: "okey ?new = ?key" using okey by (simp add: okey_def refreshed_kind)
  have equal: "contentEqual obj ?new = Some (?new = obj)"
    using kind obj_kind by (auto simp: contentEqual_same_kind refreshed_kind refreshed_id_iff)
  have kept: "persisted ?new v = Some (?new\<lparr>ResourceVersion := v\<rparr>)" for v
    using stored_terminating [OF old] by (auto simp: persisted_def)
  have only: "only_slot store cl ?key (world s) w' \<Longrightarrow> only_slot store cl ?key (world s0) w'" for w'
    by (simp add: only_slot_def s0)
  have old0: "store cl (world s0) ?key = Some obj" using old s0 by simp
  note unfold = upsertExisting_def Let_def copy_steps [OF obj_kind] equal
  note post = upsert_post_def spec_upsert_def slot_class_def spec_upsert_effects_def
    slot_result_def Let_def old0 s0
  have written: "wp (Update X cl ?new) Q s"
    if "\<And>w' v. only_slot store cl ?key (world s0) w' \<Longrightarrow>
        store cl w' ?key = Some (?new\<lparr>ResourceVersion := v\<rparr>) \<Longrightarrow> Q (Inr ()) (s\<lparr>world := w'\<rparr>)"
      and "\<And>w' e v. only_slot store cl ?key (world s0) w' \<Longrightarrow>
        store cl w' ?key = Some obj \<or> store cl w' ?key = Some (?new\<lparr>ResourceVersion := v\<rparr>) \<Longrightarrow>
        Q (Inl e) (s\<lparr>world := w'\<rparr>)" for Q
    using that by (intro wp_Update [where old = obj]) (auto simp: new_key kept old only)
  have same_server: "\<exists>u v'. ?new\<lparr>ResourceVersion := v\<rparr> = ?new\<lparr>UID := u, ResourceVersion := v'\<rparr> \<and>
      u = UID obj" for v
    by (intro exI [of _ "UID obj"] exI [of _ v]) (simp add: refreshed_def)
  show ?thesis
  proof (cases "isManagedCopy ?ks obj")
    case False
    then have "?new \<noteq> obj" using refreshed_managed [OF wf] by blast
    show ?thesis
    proof (cases "isAdoptable obj")
      case False
      with \<open>\<not> isManagedCopy ?ks obj\<close> show ?thesis
        by (simp add: unfold wp_rules post)
    next
      case True
      with \<open>\<not> isManagedCopy ?ks obj\<close> \<open>?new \<noteq> obj\<close> show ?thesis
        using same_server by (auto simp: unfold wp_rules post intro!: written)
    qed
  next
    case True
    show ?thesis
    proof (cases "ownsCopy ?ks obj src oc")
      case False
      with True show ?thesis
        by (simp add: unfold wp_rules post split: prod.splits)
    next
      case True
      show ?thesis
      proof (cases "?new = obj")
        case True
        then have "contentEqual obj obj = Some True" using equal by simp
        with True \<open>isManagedCopy ?ks obj\<close> \<open>ownsCopy ?ks obj src oc\<close> show ?thesis
          by (simp add: unfold wp_rules post)
      next
        case False
        with \<open>isManagedCopy ?ks obj\<close> \<open>ownsCopy ?ks obj src oc\<close> show ?thesis
          using same_server by (auto simp: unfold wp_rules post intro!: written)
      qed
    qed
  qed
qed

lemma fresh_steps:
  assumes "emptyLike src = Some e"
  shows "copyContents src (applyCopyMeta ks src (e\<lparr>Namespace := ns, Name := Name src\<rparr>) oc) =
    Some (fresh_copy ks src ns oc)"
proof -
  obtain c where zero: "e = zero_object c" using emptyLike_zero [OF assms] by blast
  have "objKind src = objKind (e\<lparr>Namespace := ns, Name := Name src\<rparr>)"
    using emptyLike_kind [OF assms] by simp
  then show ?thesis
    by (simp add: copy_steps fresh_copy_def zero) (simp add: refreshed_def zero_object_def)
qed

lemma wp_upsertCopy:
  assumes wf: "wf_KeySet (s_Keys sy)"
    and kind: "objKind src \<noteq> OtherKind"
  shows "wp (upsertCopy X sy cl src ns oc) (upsert_post store (s_Keys sy) cl src ns oc s) s"
proof -
  let ?ks = "s_Keys sy" and ?key = "(objKind src, ns, Name src)"
  obtain e where e: "emptyLike src = Some e" and e_kind: "objKind e = objKind src"
    using kind emptyLike_kind by (cases "emptyLike src") (auto simp: emptyLike_None)
  let ?fresh = "fresh_copy ?ks src ns oc"
  note fresh = fresh_steps [OF e]
  have key: "okey ?fresh = ?key" and no_time: "DeletionTimestamp ?fresh = None"
    by (simp_all add: okey_def fresh_copy_def refreshed_kind) (simp add: zero_object_def)
  note post = upsert_post_def spec_upsert_def slot_class_def spec_upsert_effects_def
    slot_result_def Let_def
  have create: "wp (Create X cl ?fresh) Q t"
    if "\<And>w' u v. only_slot store cl ?key (world t) w' \<Longrightarrow> store cl (world t) ?key = None \<Longrightarrow>
        store cl w' ?key = Some (?fresh\<lparr>UID := u, ResourceVersion := v\<rparr>) \<Longrightarrow> Q (Inr ()) (t\<lparr>world := w'\<rparr>)"
      and "\<And>w' e. only_slot store cl ?key (world t) w' \<Longrightarrow>
        store cl w' ?key = store cl (world t) ?key \<or>
          (\<exists>u v. store cl w' ?key = Some (?fresh\<lparr>UID := u, ResourceVersion := v\<rparr>)) \<Longrightarrow>
        (IsAlreadyExists e \<Longrightarrow> store cl (world t) ?key \<noteq> None) \<Longrightarrow> Q (Inl e) (t\<lparr>world := w'\<rparr>)" for Q t
    by (rule wp_Create [OF no_time, unfolded key]) (rule that; blast)+
  have missing: "only_slot store cl ?key w w'' \<Longrightarrow> only_slot store cl ?key (world s) w''"
    if "\<And>c. store c w = store c (world s)" for w w''
    using that by (simp add: only_slot_def)
  show ?thesis
    unfolding upsertCopy_def e option.case wp_rules e_kind
  proof (rule wp_Get, goal_cases)
    case (1 w' obj)
    then show ?case by (simp add: wp_upsertExisting wf kind)
  next
    case (2 w' err)
    then show ?case
      using missing [OF 2(1)]
      by (auto simp: Let_def fresh wp_rules post intro!: create served_ex)
  qed
qed

end

subsection \<open>The specification of a deletion\<close>

text \<open>
  \<open>copy_of ks src obj\<close>: the labels mark \<open>obj\<close> as a copy of \<open>src\<close> under some domain.
  \<open>prunable\<close> is the set a deletion may touch: copies of the source outside the kept
  namespaces and, for a spoke, not stamped by another hub. \<open>pruned D\<close>: the slots \<open>D\<close>, which
  held prunable objects, are deleted and every other slot is as before.
\<close>

definition copy_of :: "KeySet \<Rightarrow> object \<Rightarrow> object \<Rightarrow> bool" where
  "copy_of ks src obj \<longleftrightarrow>
     objKind obj = objKind src \<and> list_ex (\<lambda>k. stamped_for k src obj) (each ks)"

definition prunable :: "KeySet \<Rightarrow> object \<Rightarrow> string_set \<Rightarrow> string \<Rightarrow> object \<Rightarrow> bool" where
  "prunable ks src keep oc obj \<longleftrightarrow>
     copy_of ks src obj \<and> \<not> set_index keep (Namespace obj) \<and>
     (oc = [] \<or> originCluster_of ks obj = [] \<or> originCluster_of ks obj = oc)"

definition pruned ::
  "(object \<Rightarrow> bool) \<Rightarrow> okey set \<Rightarrow> (okey \<Rightarrow> object option) \<Rightarrow> (okey \<Rightarrow> object option) \<Rightarrow> bool" where
  "pruned P D M M' \<longleftrightarrow>
     finite D \<and>
     (\<forall>k\<in>D. \<exists>old. M k = Some old \<and> P old \<and> deleted_slot old (M' k)) \<and>
     (\<forall>k. k \<notin> D \<longrightarrow> M' k = M k)"

text \<open>
  What a run of \<open>deleteCopies\<close> has done: it counts the slots it deleted. On success it has deleted
  one object of every namespace that holds a prunable one, and never two of one namespace: the
  first copy that is listed takes the turn of its namespace. On a spoke that may be a copy stamped
  by another hub, and then nothing is deleted there.
\<close>

definition delete_post ::
  "('c \<Rightarrow> 'w \<Rightarrow> okey \<Rightarrow> object option) \<Rightarrow> KeySet \<Rightarrow> 'c \<Rightarrow> object \<Rightarrow> string_set \<Rightarrow> string \<Rightarrow>
     ('r, 'w) st \<Rightarrow> (nat \<times> error option) outcome \<Rightarrow> ('r, 'w) st \<Rightarrow> bool" where
  "delete_post store ks cl src keep oc s r s' \<longleftrightarrow>
     registry s' = registry s \<and> channels s' = channels s \<and> effects s' = effects s \<and>
     (\<forall>c. c \<noteq> cl \<longrightarrow> store c (world s') = store c (world s)) \<and>
     (\<exists>D. pruned (prunable ks src keep oc) D (store cl (world s)) (store cl (world s')) \<and>
        (case r of
           Panic \<Rightarrow> False
         | Ret (n, None) \<Rightarrow> card D = n \<and> inj_on (\<lambda>k. fst (snd k)) D \<and>
             (\<forall>k old. store cl (world s) k = Some old \<and> prunable ks src keep oc old \<longrightarrow>
                Namespace old \<in> (\<lambda>k. fst (snd k)) ` D \<or>
                (\<exists>k' old'. store cl (world s) k' = Some old' \<and> copy_of ks src old' \<and>
                   Namespace old' = Namespace old \<and> \<not> prunable ks src keep oc old'))
         | Ret (n, Some e) \<Rightarrow> card D = n \<or> card D = Suc n))"

lemma copy_of_iff:
  "wf_KeySet ks \<Longrightarrow> copy_of ks src obj \<longleftrightarrow>
     objKind obj = objKind src \<and> (\<exists>m\<in>set (managedListOpts ks src). selects m obj)"
  unfolding selects_managedListOpts copy_of_def list_ex_iff ..

lemma prunedD:
  "pruned P D M M' \<Longrightarrow> k \<notin> D \<Longrightarrow> M' k = M k"
  "pruned P D M M' \<Longrightarrow> finite D"
  "pruned P D M M' \<Longrightarrow> k \<in> D \<Longrightarrow> \<exists>old. M k = Some old \<and> P old \<and> deleted_slot old (M' k)"
  unfolding pruned_def by blast+

lemma pruned_empty [simp]: "pruned P {} M M' \<longleftrightarrow> M' = M"
  unfolding pruned_def by auto

lemma pruned_insert:
  assumes "pruned P D M M'" and "k \<notin> D" and "M k = Some old" and "P old"
    and "deleted_slot old (M'' k)" and "\<And>j. j \<noteq> k \<Longrightarrow> M'' j = M' j"
  shows "pruned P (insert k D) M M''" and "card (insert k D) = Suc (card D)"
proof -
  note D = prunedD [OF assms(1)]
  show "card (insert k D) = Suc (card D)" using D(2) assms(2) by simp
  show "pruned P (insert k D) M M''"
    unfolding pruned_def
  proof (intro conjI ballI allI impI)
    show "finite (insert k D)" using D(2) by simp
    fix j
    show "\<exists>old. M j = Some old \<and> P old \<and> deleted_slot old (M'' j)" if "j \<in> insert k D"
    proof (cases "j = k")
      case False
      with that have "j \<in> D" by blast
      from D(3) [OF this] assms(6) [OF False] show ?thesis by simp
    qed (use assms in blast)
    show "M'' j = M j" if "j \<notin> insert k D"
      using that D(1) [of j] assms(6) [of j] by simp
  qed
qed

text \<open>
  The loop invariant of a deletion: what is deleted, which namespaces have been visited, and
  how they relate.
\<close>

definition visited ::
  "KeySet \<Rightarrow> object \<Rightarrow> (object \<Rightarrow> bool) \<Rightarrow> (okey \<Rightarrow> object option) \<Rightarrow> okey set \<Rightarrow>
     (string, bool) fmap \<Rightarrow> bool" where
  "visited ks src P M D seen \<longleftrightarrow>
     inj_on (\<lambda>k. fst (snd k)) D \<and> (\<forall>k\<in>D. set_index (Some seen) (fst (snd k))) \<and>
     (\<forall>ns. set_index (Some seen) ns \<longrightarrow>
        (\<exists>k old. M k = Some old \<and> copy_of ks src old \<and> Namespace old = ns \<and> (P old \<longrightarrow> k \<in> D)))"

lemma visited_add:
  assumes "visited ks src P M D seen" and "M (okey c) = Some c" and "copy_of ks src c"
    and "D' = (if P c then insert (okey c) D else D)" and "\<not> set_index (Some seen) (Namespace c)"
  shows "visited ks src P M D' (fmupd (Namespace c) True seen)"
  unfolding visited_def
proof (intro conjI ballI allI impI)
  have "fst (snd k) \<noteq> Namespace c" if "k \<in> D" for k
    using assms(1,5) that by (auto simp: visited_def)
  then show "inj_on (\<lambda>k. fst (snd k)) D'"
    using assms(1,4) by (fastforce simp: visited_def inj_on_def okey_def)
next
  fix k assume "k \<in> D'"
  then show "set_index (Some (fmupd (Namespace c) True seen)) (fst (snd k))"
    using assms(1,4) unfolding visited_def by (auto simp: okey_def split: if_splits)
next
  fix ns assume ns: "set_index (Some (fmupd (Namespace c) True seen)) ns"
  show "\<exists>k old. M k = Some old \<and> copy_of ks src old \<and> Namespace old = ns \<and> (P old \<longrightarrow> k \<in> D')"
  proof (cases "ns = Namespace c")
    case True
    then show ?thesis using assms(2-4) by (intro exI [of _ "okey c"] exI [of _ c]) simp
  next
    case False
    then have "set_index (Some seen) ns" using ns by simp
    then obtain k old where "M k = Some old" "copy_of ks src old" "Namespace old = ns" "P old \<longrightarrow> k \<in> D"
      using assms(1) unfolding visited_def by blast
    with assms(4) show ?thesis by (intro exI [of _ k] exI [of _ old]) simp
  qed
qed

context api_server begin

definition del_inv ::
  "KeySet \<Rightarrow> 'c \<Rightarrow> object \<Rightarrow> string_set \<Rightarrow> string \<Rightarrow> ('r, 'w) st \<Rightarrow> okey set \<Rightarrow>
     (string, bool) fmap \<Rightarrow> nat \<Rightarrow> ('r, 'w) st \<Rightarrow> bool" where
  "del_inv ks cl src keep oc s0 D seen n s \<longleftrightarrow>
     registry s = registry s0 \<and> channels s = channels s0 \<and> effects s = effects s0 \<and>
     (\<forall>c. c \<noteq> cl \<longrightarrow> store c (world s) = store c (world s0)) \<and>
     pruned (prunable ks src keep oc) D (store cl (world s0)) (store cl (world s)) \<and>
     card D = n \<and>
     visited ks src (prunable ks src keep oc) (store cl (world s0)) D seen"

lemma del_inv_post:
  assumes "del_inv ks cl src keep oc s0 D seen n s" and "m = n \<or> Suc m = n"
  shows "delete_post store ks cl src keep oc s0 (Ret (m, Some e)) s"
  using assms unfolding del_inv_def delete_post_def by auto

lemma del_inv_same:
  assumes "del_inv ks cl src keep oc s0 D seen n s" and "\<And>d. store d w' = store d (world s)"
  shows "del_inv ks cl src keep oc s0 D seen n (s\<lparr>world := w'\<rparr>)"
  using assms by (simp add: del_inv_def)

lemma wp_deleteCopies_item:
  assumes inv: "del_inv (s_Keys sy) cl src keep oc s0 D seen n s"
    and c: "copy_of (s_Keys sy) src c" "okey c \<notin> D \<Longrightarrow> store cl (world s0) (okey c) = Some c"
  shows "wp (deleteCopies_item X sy cl keep oc c (seen, n))
    (\<lambda>f s'. case f of
       Next p \<Rightarrow> (\<exists>D'. D \<subseteq> D' \<and> del_inv (s_Keys sy) cl src keep oc s0 D' (fst p) (snd p) s') \<and>
         set_index (Some (fst p)) (Namespace c) \<and>
         (\<forall>ns. set_index (Some seen) ns \<longrightarrow> set_index (Some (fst p)) ns)
     | Return r \<Rightarrow> delete_post store (s_Keys sy) cl src keep oc s0 r s') s"
proof (cases "set_index (Some seen) (Namespace c)")
  case True
  with inv show ?thesis by (auto simp: deleteCopies_item_def wp_rules)
next
  case False
  let ?ks = "s_Keys sy" and ?seen = "fmupd (Namespace c) True seen"
  let ?P = "prunable ?ks src keep oc"
  have "okey c \<notin> D"
  proof
    assume "okey c \<in> D"
    then have "set_index (Some seen) (fst (snd (okey c)))"
      using inv unfolding del_inv_def visited_def by blast
    with False show False by (simp add: okey_def)
  qed
  then have c0: "store cl (world s0) (okey c) = Some c" by (rule c(2))
  then have cs: "store cl (world s) (okey c) = Some c"
    using inv prunedD(1) [OF _ \<open>okey c \<notin> D\<close>] unfolding del_inv_def by metis
  have skip: "\<exists>D'. D \<subseteq> D' \<and> del_inv ?ks cl src keep oc s0 D' ?seen n s" if "\<not> ?P c"
    using inv c0 c(1) visited_add [of ?ks src ?P "store cl (world s0)" D seen c D] that False
    by (intro exI [of _ D]) (simp add: del_inv_def)
  have gone: "del_inv ?ks cl src keep oc s0 (insert (okey c) D) ?seen (Suc n) (s\<lparr>world := w'\<rparr>)"
    if "?P c" and only: "only_slot store cl (okey c) (world s) w'"
      and "deleted_slot c (store cl w' (okey c))" for w'
  proof -
    have pr: "pruned ?P D (store cl (world s0)) (store cl (world s))" using inv by (simp add: del_inv_def)
    note ins = pruned_insert [OF pr \<open>okey c \<notin> D\<close> c0 that(1,3) only_slotD(1) [OF only]]
    have "store d w' = store d (world s0)" if "d \<noteq> cl" for d
      using inv only_slotD(2) [OF only that] that by (simp add: del_inv_def)
    then show ?thesis
      using inv ins c0 c(1) that(1)
        visited_add [of ?ks src ?P "store cl (world s0)" D seen c "insert (okey c) D"] False
      by (simp add: del_inv_def)
  qed
  have failed: "delete_post store ?ks cl src keep oc s0 (Ret (n, Some e)) (s\<lparr>world := w'\<rparr>)"
    if P: "?P c" and only: "only_slot store cl (okey c) (world s) w'"
      and "store cl w' (okey c) = Some c \<or> deleted_slot c (store cl w' (okey c))" for w' e
    using that(3)
  proof
    assume same: "store cl w' (okey c) = Some c"
    have "store d w' = store d (world s)" for d
    proof (cases "d = cl")
      case True
      have "store cl w' k = store cl (world s) k" for k
        using only_slotD(1) [OF only, of k] same cs by (cases "k = okey c") simp_all
      with True show ?thesis by auto
    qed (rule only_slotD(2) [OF only])
    from del_inv_same [OF inv this] show ?thesis by (rule del_inv_post) simp
  next
    assume "deleted_slot c (store cl w' (okey c))"
    from gone [OF P only this] show ?thesis by (rule del_inv_post) simp
  qed
  show ?thesis
  proof (cases "?P c")
    case False
    have "wp (deleteCopies_item X sy cl keep oc c (seen, n)) (\<lambda>f s'. f = Next (?seen, n) \<and> s' = s) s"
      using False \<open>\<not> set_index (Some seen) (Namespace c)\<close> c(1)
      by (auto simp: deleteCopies_item_def wp_rules Let_def prunable_def)
    then show ?thesis by (rule wp_mono) (use skip [OF False] in auto)
  next
    case True
    then have item: "deleteCopies_item X sy cl keep oc c (seen, n) =
        do { r \<leftarrow> Delete X cl c;
             case r of
               Inl err \<Rightarrow>
                 if \<not> IsNotFound err then State_Monad.return (Return (Ret (n, Some err)))
                 else State_Monad.return (Next (?seen, n + 1))
             | Inr _ \<Rightarrow> State_Monad.return (Next (?seen, n + 1)) }"
      using \<open>\<not> set_index (Some seen) (Namespace c)\<close>
      by (auto simp: deleteCopies_item_def Let_def prunable_def)
    have grown: "\<exists>D'. D \<subseteq> D' \<and> del_inv ?ks cl src keep oc s0 D' ?seen (Suc n) (s\<lparr>world := w'\<rparr>)"
      if "only_slot store cl (okey c) (world s) w'" and "deleted_slot c (store cl w' (okey c))" for w'
      using gone [OF True that] by blast
    show ?thesis
      unfolding item wp_bind
      by (rule wp_Delete [OF cs]) (auto simp: wp_rules grown failed [OF True])
  qed
qed

text \<open>
  \<open>covered m seen\<close>: every object that was there at the start and that the selector
  \<open>m\<close> finds has had its namespace visited.
\<close>

definition covered ::
  "'c \<Rightarrow> object \<Rightarrow> ('r, 'w) st \<Rightarrow> string_map \<Rightarrow> (string, bool) fmap \<Rightarrow> bool" where
  "covered cl src s0 m seen \<longleftrightarrow>
     (\<forall>k old. store cl (world s0) k = Some old \<and> objKind old = objKind src \<and> selects m old \<longrightarrow>
        set_index (Some seen) (Namespace old))"

lemma wp_deleteCopies_list:
  assumes inv: "del_inv (s_Keys sy) cl src keep oc s0 D seen n s"
    and wf: "wf_KeySet (s_Keys sy)"
    and m: "m \<in> set (managedListOpts (s_Keys sy) src)"
    and items: "set items =
      {obj. store cl (world s) (okey obj) = Some obj \<and> objKind obj = objKind src \<and> selects m obj}"
  shows "wp (for_range items (deleteCopies_item X sy cl keep oc) (seen, n))
    (\<lambda>f s'. case f of
       Next p \<Rightarrow> (\<exists>D'. del_inv (s_Keys sy) cl src keep oc s0 D' (fst p) (snd p) s') \<and>
         covered cl src s0 m (fst p) \<and>
         (\<forall>ns. set_index (Some seen) ns \<longrightarrow> set_index (Some (fst p)) ns)
     | Return r \<Rightarrow> delete_post store (s_Keys sy) cl src keep oc s0 r s') s"
proof (rule wp_for_range [where I = "\<lambda>ys a t. (\<exists>D'. D \<subseteq> D' \<and>
      del_inv (s_Keys sy) cl src keep oc s0 D' (fst a) (snd a) t) \<and>
      (\<forall>c\<in>set ys. set_index (Some (fst a)) (Namespace c)) \<and>
      (\<forall>ns. set_index (Some seen) ns \<longrightarrow> set_index (Some (fst a)) ns)"], goal_cases)
  case 1
  with inv show ?case by auto
next
  case (2 ys c zs a t)
  then obtain D' where D': "D \<subseteq> D'" "del_inv (s_Keys sy) cl src keep oc s0 D' (fst a) (snd a) t"
    by blast
  have c: "store cl (world s) (okey c) = Some c" "objKind c = objKind src" "selects m c"
    using 2(1) items by (auto simp: set_eq_iff)
  have "copy_of (s_Keys sy) src c" unfolding copy_of_iff [OF wf] using c m by blast
  moreover have "store cl (world s0) (okey c) = Some c" if "okey c \<notin> D'"
    using that D'(1) c(1) inv prunedD(1) [of _ D _ _ "okey c"] unfolding del_inv_def by (metis subsetD)
  ultimately have item: "wp (deleteCopies_item X sy cl keep oc c (fst a, snd a))
    (\<lambda>f s'. case f of
       Next p \<Rightarrow> (\<exists>D''. D' \<subseteq> D'' \<and> del_inv (s_Keys sy) cl src keep oc s0 D'' (fst p) (snd p) s') \<and>
         set_index (Some (fst p)) (Namespace c) \<and>
         (\<forall>ns. set_index (Some (fst a)) ns \<longrightarrow> set_index (Some (fst p)) ns)
     | Return r \<Rightarrow> delete_post store (s_Keys sy) cl src keep oc s0 r s') t"
    by (rule wp_deleteCopies_item [OF D'(2)])
  show ?case
  proof (rule wp_mono [OF item [unfolded prod.collapse]], goal_cases)
    case (1 f s')
    show ?case
    proof (cases f)
      case (Next p)
      with 1 obtain D'' where "D' \<subseteq> D''" "del_inv (s_Keys sy) cl src keep oc s0 D'' (fst p) (snd p) s'"
        by auto
      with D'(1) have "\<exists>D''. D \<subseteq> D'' \<and> del_inv (s_Keys sy) cl src keep oc s0 D'' (fst p) (snd p) s'"
        by (intro exI [of _ D'']) auto
      with Next 1 2(2) show ?thesis by auto
    qed (use 1 in simp)
  qed
next
  case (3 a t)
  have "covered cl src s0 m (fst a)"
    unfolding covered_def
  proof (intro allI impI, elim conjE)
    fix k old
    assume old: "store cl (world s0) k = Some old" "objKind old = objKind src" "selects m old"
    have k: "okey old = k" using old(1) by (rule stored_key)
    show "set_index (Some (fst a)) (Namespace old)"
    proof (cases "k \<in> D")
      case True
      then have "set_index (Some seen) (fst (snd k))"
        using inv unfolding del_inv_def visited_def by blast
      with 3 k show ?thesis by (auto simp: okey_def)
    next
      case False
      then have "store cl (world s) k = Some old"
        using inv old(1) prunedD(1) [of _ D _ _ k] unfolding del_inv_def by metis
      then have "old \<in> set items" using items old k by simp
      with 3 show ?thesis by blast
    qed
  qed
  with 3 show ?case by (cases a) auto
qed

lemma wp_deleteCopies:
  assumes wf: "wf_KeySet (s_Keys sy)"
    and kind: "objKind src \<noteq> OtherKind"
  shows "wp (deleteCopies X sy cl src keep oc) (delete_post store (s_Keys sy) cl src keep oc s) s"
proof -
  let ?ks = "s_Keys sy"
  obtain l where l: "emptyListLike src = Some l" and l_kind: "listKind l = objKind src"
    using kind emptyListLike_kind by (cases "emptyListLike src") (auto simp: emptyListLike_None)
  show ?thesis
    unfolding deleteCopies_def wp_bind l option.case
  proof (rule wp_for_range [where I = "\<lambda>ys a t.
      (\<exists>D. del_inv ?ks cl src keep oc s D (fst a) (snd a) t) \<and>
      (\<forall>m\<in>set ys. covered cl src s m (fst a))"], goal_cases)
    case 1
    have "del_inv ?ks cl src keep oc s {} fmempty 0 s" by (simp add: del_inv_def visited_def)
    then show ?case by auto
  next
    case (2 ys m zs a t)
    then obtain D where D: "del_inv ?ks cl src keep oc s D (fst a) (snd a) t" by blast
    have m: "m \<in> set (managedListOpts ?ks src)" using 2(1) by simp
    show ?case
      unfolding case_prod_beta wp_bind l_kind
    proof (rule wp_List, goal_cases)
      case (1 w' l')
      have D1: "del_inv ?ks cl src keep oc s D (fst a) (snd a) (t\<lparr>world := w'\<rparr>)"
        using D 1(1) by (rule del_inv_same)
      have items: "set (listItems l') = {obj. store cl (world (t\<lparr>world := w'\<rparr>)) (okey obj) = Some obj \<and>
          objKind obj = objKind src \<and> selects m obj}"
        using 1(1,4) by simp
      show ?case
        unfolding sum.case
        by (rule wp_mono [OF wp_deleteCopies_list [OF D1 wf m items]])
          (use 2(2) in \<open>auto simp: covered_def wp_rules split: flow.splits\<close>)
    next
      case (2 w' e)
      have "del_inv ?ks cl src keep oc s D (fst a) (snd a) (t\<lparr>world := w'\<rparr>)"
        using D 2(1) by (rule del_inv_same)
      then show ?case by (simp add: wp_rules del_inv_post)
    qed
  next
    case (3 a t)
    then obtain D where D: "del_inv ?ks cl src keep oc s D (fst a) (snd a) t"
      and cov: "\<forall>m\<in>set (managedListOpts ?ks src). covered cl src s m (fst a)" by blast
    have seen: "set_index (Some (fst a)) (Namespace old)"
      if "store cl (world s) k = Some old" and "prunable ?ks src keep oc old" for k old
    proof -
      have "copy_of ?ks src old" using that(2) by (simp add: prunable_def)
      with cov that(1) show ?thesis unfolding copy_of_iff [OF wf] covered_def by blast
    qed
    have "Namespace old \<in> (\<lambda>k. fst (snd k)) ` D \<or> (\<exists>k' old'. store cl (world s) k' = Some old' \<and>
        copy_of ?ks src old' \<and> Namespace old' = Namespace old \<and> \<not> prunable ?ks src keep oc old')"
      if old: "store cl (world s) k = Some old" and P: "prunable ?ks src keep oc old" for k old
    proof -
      obtain k' old' where k': "store cl (world s) k' = Some old'" "copy_of ?ks src old'"
          "Namespace old' = Namespace old" "prunable ?ks src keep oc old' \<longrightarrow> k' \<in> D"
        using D seen [OF old P] unfolding del_inv_def visited_def by blast
      have "fst (snd k') = Namespace old"
        using stored_key [OF k'(1)] k'(3) by (auto simp: okey_def)
      with k' show ?thesis by (metis (no_types, lifting) image_eqI)
    qed
    moreover have "inj_on (\<lambda>k. fst (snd k)) D" using D by (simp add: del_inv_def visited_def)
    ultimately show ?case
      using D unfolding del_inv_def delete_post_def
      by (simp add: wp_rules case_prod_beta) (rule exI [of _ D], blast)
  qed
qed

end

end
