(* ===== verification/Footprint.thy ===== *)
theory Footprint
  imports Copy_Sync
begin

text \<open>
  What upserts and deletions compose to on the store of one cluster. \<open>footprint\<close> bounds what
  any run may change, whatever fails: only slots that are free or hold an object the source
  may touch, and outside the wanted namespaces only by deleting. \<open>synced\<close> is what a run
  without errors establishes: the wanted slots are as the upsert specifies and every other
  copy is pruned. Both are used for the local cluster and for the spokes.
\<close>

subsection \<open>Objects a source may touch\<close>

definition hub_may :: "KeySet \<Rightarrow> string \<Rightarrow> object \<Rightarrow> bool" where
  "hub_may ks oc obj \<longleftrightarrow>
     oc = [] \<or> originCluster_of ks obj = [] \<or> originCluster_of ks obj = oc"

definition touchable :: "KeySet \<Rightarrow> object \<Rightarrow> string \<Rightarrow> object \<Rightarrow> bool" where
  "touchable ks src oc obj \<longleftrightarrow>
     objKind obj = objKind src \<and>
     (copy_of ks src obj \<and> hub_may ks oc obj \<or> ownsCopy ks obj src oc \<or>
      \<not> isManagedCopy ks obj \<and> isAdoptable obj \<and> Name obj = Name src)"

definition ownable :: "KeySet \<Rightarrow> object \<Rightarrow> string \<Rightarrow> object option \<Rightarrow> bool" where
  "ownable ks src oc old = (case old of None \<Rightarrow> True | Some obj \<Rightarrow> touchable ks src oc obj)"

definition only_deleted :: "KeySet \<Rightarrow> object \<Rightarrow> object option \<Rightarrow> object option \<Rightarrow> bool" where
  "only_deleted ks src old new \<longleftrightarrow>
     new = old \<or> (\<exists>obj. old = Some obj \<and> copy_of ks src obj \<and> deleted_slot obj new)"

definition copy_keys :: "object \<Rightarrow> string set \<Rightarrow> okey set" where
  "copy_keys src N = {(objKind src, ns, Name src) | ns. ns \<in> N}"

definition footprint ::
  "KeySet \<Rightarrow> object \<Rightarrow> string \<Rightarrow> string set \<Rightarrow> (okey \<Rightarrow> object option) \<Rightarrow> (okey \<Rightarrow> object option) \<Rightarrow> bool"
  where
  "footprint ks src oc N M M' \<longleftrightarrow>
     (\<forall>k. M' k = M k \<or>
        ownable ks src oc (M k) \<and> ownable ks src oc (M' k) \<and>
        (k \<in> copy_keys src N \<or> only_deleted ks src (M k) (M' k)))"

lemma copy_keys_iff [simp]: "(objKind src, ns, Name src) \<in> copy_keys src N \<longleftrightarrow> ns \<in> N"
  by (auto simp: copy_keys_def)

lemma copy_keys_insert: "copy_keys src (insert ns N) = insert (objKind src, ns, Name src) (copy_keys src N)"
  by (auto simp: copy_keys_def)

lemma copy_keys_empty [simp]: "copy_keys src {} = {}"
  by (simp add: copy_keys_def)

lemma copy_keys_mono: "N \<subseteq> N' \<Longrightarrow> copy_keys src N \<subseteq> copy_keys src N'"
  by (auto simp: copy_keys_def)

lemma touchable_same:
  assumes "Labels a = Labels b" "Annotations a = Annotations b" "objKind a = objKind b" "Name a = Name b"
  shows "touchable ks src oc a = touchable ks src oc b"
  using assms keysFor_labels [OF assms(1), of ks]
  by (simp add: touchable_def copy_of_def stamped_for_def managed_under_def hub_may_def
      originCluster_of_def isManagedCopy_def ownsCopy_def Keys_ownsCopy_def isAdoptable_def
      split: option.splits)

lemma prunable_touchable: "prunable ks src keep oc obj \<Longrightarrow> touchable ks src oc obj"
  by (auto simp: prunable_def touchable_def hub_may_def copy_of_def)

lemma stamped_touchable:
  assumes "wf_KeySet ks" and "Labels obj = copyLabels ks src oc" and "objKind obj = objKind src"
  shows "touchable ks src oc obj"
proof -
  have "Labels obj = Labels (applyCopyMeta ks src src oc)"
    using assms(2) by (simp add: copyLabels_def)
  then have "ownsCopy ks obj src oc"
    using copy_marks.settled(2) [OF KeySet_copy_marks [OF assms(1)]] by blast
  with assms(3) show ?thesis by (simp add: touchable_def)
qed

lemma deleted_ownable:
  assumes "touchable ks src oc old" and "deleted_slot old new"
  shows "ownable ks src oc new"
proof (cases "Finalizers old = []")
  case True
  with assms(2) show ?thesis by (simp add: deleted_slot_def ownable_def)
next
  case False
  with assms(2) obtain t v where new: "new = Some (old\<lparr>DeletionTimestamp := Some t, ResourceVersion := v\<rparr>)"
    by (auto simp: deleted_slot_def)
  have "touchable ks src oc (old\<lparr>DeletionTimestamp := Some t, ResourceVersion := v\<rparr>) =
      touchable ks src oc old"
    by (rule touchable_same) simp_all
  with assms(1) new show ?thesis by (simp add: ownable_def)
qed

lemma only_deleted_trans:
  assumes "only_deleted ks src a b" and "only_deleted ks src b c"
  shows "only_deleted ks src a c"
proof -
  consider "b = a" | "c = b" | x y where "a = Some x" "copy_of ks src x" "b = Some y" "deleted_slot x b" "deleted_slot y c"
    using assms unfolding only_deleted_def by blast
  then show ?thesis
  proof cases
    case (3 x y)
    then have "deleted_slot x c" by (auto simp: deleted_slot_def split: if_splits)
    with 3 show ?thesis unfolding only_deleted_def by blast
  qed (use assms in auto)
qed

lemma footprint_refl [simp]: "footprint ks src oc N M M"
  by (simp add: footprint_def)

lemma footprint_trans:
  assumes "footprint ks src oc N M M'" and "footprint ks src oc N M' M''"
  shows "footprint ks src oc N M M''"
  unfolding footprint_def
proof
  fix k
  note a = assms(1) [unfolded footprint_def, rule_format, of k]
    and b = assms(2) [unfolded footprint_def, rule_format, of k]
  show "M'' k = M k \<or> ownable ks src oc (M k) \<and> ownable ks src oc (M'' k) \<and>
      (k \<in> copy_keys src N \<or> only_deleted ks src (M k) (M'' k))"
    using a b only_deleted_trans [of ks src "M k" "M' k" "M'' k"] by auto
qed

lemma footprint_mono:
  "footprint ks src oc N M M' \<Longrightarrow> N \<subseteq> N' \<Longrightarrow> footprint ks src oc N' M M'"
  unfolding footprint_def using copy_keys_mono by blast

text \<open>An object the source may not touch survives any run; outside the wanted slots nothing appears.\<close>

lemma footprint_safe:
  "footprint ks src oc N M M' \<Longrightarrow> M k = Some obj \<Longrightarrow> \<not> touchable ks src oc obj \<Longrightarrow> M' k = Some obj"
  unfolding footprint_def by (metis ownable_def option.case(2))

lemma footprint_outside:
  "footprint ks src oc N M M' \<Longrightarrow> fst (snd k) \<notin> N \<Longrightarrow> only_deleted ks src (M k) (M' k)"
  unfolding footprint_def copy_keys_def only_deleted_def by (auto dest!: spec [of _ k])

lemma footprint_self:
  "footprint ks src oc N M M' \<Longrightarrow> M (okey src) = Some src \<Longrightarrow> Namespace src \<notin> N \<Longrightarrow>
     \<not> copy_of ks src src \<Longrightarrow> M' (okey src) = Some src"
  using footprint_outside [of ks src oc N M M' "okey src"]
  by (auto simp: only_deleted_def okey_def)

subsection \<open>Upserts and deletions keep the footprint\<close>

lemma slot_result_ownable:
  assumes wf: "wf_KeySet ks"
    and key: "\<And>obj. old = Some obj \<Longrightarrow> okey obj = (objKind src, ns, Name src)"
    and res: "slot_result old (fst (spec_upsert ks src ns oc old)) new"
  shows "new = old \<or> ownable ks src oc old \<and> ownable ks src oc new"
proof (cases "fst (spec_upsert ks src ns oc old) = old")
  case True
  with res show ?thesis by (simp add: slot_result_def)
next
  case False
  then obtain d u v where want: "fst (spec_upsert ks src ns oc old) = Some d"
    and new: "new = Some (d\<lparr>UID := u, ResourceVersion := v\<rparr>)"
    using res by (auto simp: slot_result_def)
  have d: "Labels d = copyLabels ks src oc \<and> objKind d = objKind src \<and> ownable ks src oc old"
  proof (cases old)
    case None
    then show ?thesis
      using want by (auto simp: spec_upsert_def slot_class_def fresh_copy_def ownable_def refreshed_kind)
  next
    case (Some obj)
    then show ?thesis
      using want False key [OF Some]
      by (auto simp: spec_upsert_def slot_class_def ownable_def touchable_def refreshed_kind okey_def
          split: if_splits)
  qed
  then have "touchable ks src oc (d\<lparr>UID := u, ResourceVersion := v\<rparr>)"
    by (intro stamped_touchable wf) simp_all
  with d new show ?thesis by (simp add: ownable_def)
qed

context api_server begin

lemma upsert_footprint:
  assumes wf: "wf_KeySet ks" and post: "upsert_post store ks cl src ns oc s r s'"
  shows "footprint ks src oc {ns} (store cl (world s)) (store cl (world s'))"
    and "c \<noteq> cl \<Longrightarrow> store c (world s') = store c (world s)"
proof -
  let ?key = "(objKind src, ns, Name src)"
  let ?old = "store cl (world s) ?key" and ?new = "store cl (world s') ?key"
  have only: "only_slot store cl ?key (world s) (world s')"
    using post by (rule upsert_postD)
  show "store c (world s') = store c (world s)" if "c \<noteq> cl"
    using only that by (rule only_slotD(2))
  have "?new = ?old \<or> slot_result ?old (fst (spec_upsert ks src ns oc ?old)) ?new"
    using post by (rule upsert_postD)
  then have change: "?new = ?old \<or> ownable ks src oc ?old \<and> ownable ks src oc ?new"
  proof
    assume "slot_result ?old (fst (spec_upsert ks src ns oc ?old)) ?new"
    with stored_key show ?thesis by (rule slot_result_ownable [OF wf])
  qed simp
  show "footprint ks src oc {ns} (store cl (world s)) (store cl (world s'))"
    unfolding footprint_def
  proof
    fix k
    show "store cl (world s') k = store cl (world s) k \<or>
        ownable ks src oc (store cl (world s) k) \<and> ownable ks src oc (store cl (world s') k) \<and>
        (k \<in> copy_keys src {ns} \<or> only_deleted ks src (store cl (world s) k) (store cl (world s') k))"
      using change only_slotD(1) [OF only, of k] by (cases "k = ?key") (simp_all add: copy_keys_insert)
  qed
qed

end

lemma pruned_footprint:
  assumes "pruned (prunable ks src keep oc) D M M'"
  shows "footprint ks src oc N M M'"
  unfolding footprint_def
proof
  fix k
  show "M' k = M k \<or> ownable ks src oc (M k) \<and> ownable ks src oc (M' k) \<and>
      (k \<in> copy_keys src N \<or> only_deleted ks src (M k) (M' k))"
  proof (cases "k \<in> D")
    case True
    then obtain old where old: "M k = Some old" "prunable ks src keep oc old" "deleted_slot old (M' k)"
      using prunedD(3) [OF assms] by blast
    have "copy_of ks src old" using old(2) by (simp add: prunable_def)
    then have "only_deleted ks src (M k) (M' k)" using old(1,3) unfolding only_deleted_def by blast
    then show ?thesis
      using old(1) prunable_touchable [OF old(2)] deleted_ownable [OF prunable_touchable [OF old(2)] old(3)]
      by (simp add: ownable_def)
  qed (use prunedD(1) [OF assms] in blast)
qed

lemma delete_footprint:
  assumes "delete_post store ks cl src keep oc s r s'"
  shows "footprint ks src oc N (store cl (world s)) (store cl (world s'))"
    and "c \<noteq> cl \<Longrightarrow> store c (world s') = store c (world s)"
  using assms pruned_footprint unfolding delete_post_def by blast+

subsection \<open>What a run without errors establishes\<close>

definition keep_set :: "string_set \<Rightarrow> string set" where
  "keep_set keep = {ns. set_index keep ns}"

definition upserted ::
  "KeySet \<Rightarrow> object \<Rightarrow> string \<Rightarrow> string set \<Rightarrow> (okey \<Rightarrow> object option) \<Rightarrow> (okey \<Rightarrow> object option) \<Rightarrow> bool"
  where
  "upserted ks src oc N M M' \<longleftrightarrow>
     (\<forall>ns\<in>N. let old = M (objKind src, ns, Name src) in
        slot_result old (fst (spec_upsert ks src ns oc old)) (M' (objKind src, ns, Name src))) \<and>
     (\<forall>k. k \<notin> copy_keys src N \<longrightarrow> M' k = M k)"

definition synced ::
  "KeySet \<Rightarrow> object \<Rightarrow> string \<Rightarrow> string_set \<Rightarrow> (okey \<Rightarrow> object option) \<Rightarrow> (okey \<Rightarrow> object option) \<Rightarrow> bool"
  where
  "synced ks src oc keep M M' \<longleftrightarrow>
     (\<forall>ns\<in>keep_set keep. let old = M (objKind src, ns, Name src) in
        slot_result old (fst (spec_upsert ks src ns oc old)) (M' (objKind src, ns, Name src))) \<and>
     (\<forall>k. k \<notin> copy_keys src (keep_set keep) \<longrightarrow>
        (case M k of
           None \<Rightarrow> M' k = None
         | Some old \<Rightarrow>
             if prunable ks src keep oc old
             then deleted_slot old (M' k) \<or>
               M' k = Some old \<and>
               (\<exists>k' old'. k' \<noteq> k \<and> M k' = Some old' \<and> copy_of ks src old' \<and> Namespace old' = Namespace old \<and>
                  (prunable ks src keep oc old' \<longrightarrow> deleted_slot old' (M' k')))
             else M' k = Some old))"

lemma synced_None:
  assumes "synced ks src oc None M M'"
  shows "case M k of
      None \<Rightarrow> M' k = None
    | Some old \<Rightarrow>
        if prunable ks src None oc old
        then deleted_slot old (M' k) \<or>
          M' k = Some old \<and>
          (\<exists>k' old'. k' \<noteq> k \<and> M k' = Some old' \<and> copy_of ks src old' \<and> Namespace old' = Namespace old \<and>
             (prunable ks src None oc old' \<longrightarrow> deleted_slot old' (M' k')))
        else M' k = Some old"
  using assms unfolding synced_def by (simp add: copy_keys_def keep_set_def)

lemma upserted_empty [simp]: "upserted ks src oc {} M M' \<longleftrightarrow> M' = M"
  by (auto simp: upserted_def)

lemma upserted_insert:
  assumes "upserted ks src oc N M M'" and "ns \<notin> N"
    and "slot_result (M (objKind src, ns, Name src))
      (fst (spec_upsert ks src ns oc (M (objKind src, ns, Name src)))) (M'' (objKind src, ns, Name src))"
    and "\<And>k. k \<noteq> (objKind src, ns, Name src) \<Longrightarrow> M'' k = M' k"
  shows "upserted ks src oc (insert ns N) M M''"
  unfolding upserted_def copy_keys_insert Let_def
proof (intro conjI ballI allI impI)
  fix m assume m: "m \<in> insert ns N"
  show "slot_result (M (objKind src, m, Name src))
      (fst (spec_upsert ks src m oc (M (objKind src, m, Name src)))) (M'' (objKind src, m, Name src))"
  proof (cases "m = ns")
    case False
    then have "M'' (objKind src, m, Name src) = M' (objKind src, m, Name src)"
      by (intro assms(4)) simp
    with m False assms(1) show ?thesis by (simp add: upserted_def Let_def)
  qed (use assms(3) in simp)
next
  fix k assume "k \<notin> insert (objKind src, ns, Name src) (copy_keys src N)"
  with assms(1) assms(4) [of k] show "M'' k = M k" by (simp add: upserted_def)
qed

context api_server begin

lemma upserted_step:
  assumes "upserted ks src oc N M (store cl (world s))" and "ns \<notin> N"
    and post: "upsert_post store ks cl src ns oc s (Ret (a, None)) s'"
  shows "upserted ks src oc (insert ns N) M (store cl (world s'))"
proof (rule upserted_insert [OF assms(1,2)])
  have same: "store cl (world s) (objKind src, ns, Name src) = M (objKind src, ns, Name src)"
    using assms(1,2) by (simp add: upserted_def)
  show "slot_result (M (objKind src, ns, Name src))
      (fst (spec_upsert ks src ns oc (M (objKind src, ns, Name src))))
      (store cl (world s') (objKind src, ns, Name src))"
    using upsert_post_okD(1) [OF post] same by simp
  show "store cl (world s') k = store cl (world s) k" if "k \<noteq> (objKind src, ns, Name src)" for k
    using upsert_postD(1) [OF post] that by (rule only_slotD(1))
qed

lemma synced_intro:
  assumes up: "upserted ks src oc (keep_set keep) M (store cl (world s))"
    and keys: "\<And>k obj. M k = Some obj \<Longrightarrow> okey obj = k"
    and post: "delete_post store ks cl src keep oc s (Ret (n, None)) s'"
  shows "synced ks src oc keep M (store cl (world s'))"
proof -
  let ?K = "copy_keys src (keep_set keep)"
  obtain D where D: "pruned (prunable ks src keep oc) D (store cl (world s)) (store cl (world s'))"
    and inj: "inj_on (\<lambda>k. fst (snd k)) D"
    and complete: "\<And>k old. store cl (world s) k = Some old \<Longrightarrow> prunable ks src keep oc old \<Longrightarrow>
      Namespace old \<in> (\<lambda>k. fst (snd k)) ` D \<or>
      (\<exists>k' old'. store cl (world s) k' = Some old' \<and> copy_of ks src old' \<and>
         Namespace old' = Namespace old \<and> \<not> prunable ks src keep oc old')"
    using post unfolding delete_post_def by auto
  have mid: "store cl (world s) k = M k" if "k \<notin> ?K" for k
    using up that by (simp add: upserted_def)
  have outside: "fst (snd k) \<notin> keep_set keep" if "store cl (world s) k = Some old" "prunable ks src keep oc old" for k old
    using that stored_key [OF that(1)] by (auto simp: prunable_def keep_set_def okey_def)
  have not_kept: "k \<notin> ?K" if "fst (snd k) \<notin> keep_set keep" for k
    using that by (auto simp: copy_keys_def)
  have D_out: "k \<notin> ?K" if "k \<in> D" for k
    using prunedD(3) [OF D that] outside not_kept by blast
  show ?thesis
    unfolding synced_def
  proof (intro conjI ballI allI impI)
    fix ns assume "ns \<in> keep_set keep"
    then have "(objKind src, ns, Name src) \<notin> D" using D_out [of "(objKind src, ns, Name src)"] by auto
    with D have "store cl (world s') (objKind src, ns, Name src) = store cl (world s) (objKind src, ns, Name src)"
      by (rule prunedD(1))
    with up \<open>ns \<in> keep_set keep\<close>
    show "let old = M (objKind src, ns, Name src) in
        slot_result old (fst (spec_upsert ks src ns oc old)) (store cl (world s') (objKind src, ns, Name src))"
      by (simp add: upserted_def Let_def)
  next
    fix k assume k: "k \<notin> ?K"
    show "case M k of None \<Rightarrow> store cl (world s') k = None
      | Some old \<Rightarrow> if prunable ks src keep oc old
          then deleted_slot old (store cl (world s') k) \<or>
            store cl (world s') k = Some old \<and>
            (\<exists>k' old'. k' \<noteq> k \<and> M k' = Some old' \<and> copy_of ks src old' \<and> Namespace old' = Namespace old \<and>
               (prunable ks src keep oc old' \<longrightarrow> deleted_slot old' (store cl (world s') k')))
          else store cl (world s') k = Some old"
    proof (cases "k \<in> D")
      case True
      then show ?thesis using prunedD(3) [OF D True] mid [OF k] by auto
    next
      case False
      then have same: "store cl (world s') k = M k" using prunedD(1) [OF D False] mid [OF k] by simp
      show ?thesis
      proof (cases "M k")
        case None
        with same show ?thesis by simp
      next
        case (Some old)
        have "\<exists>k' old'. k' \<noteq> k \<and> M k' = Some old' \<and> copy_of ks src old' \<and> Namespace old' = Namespace old \<and>
            (prunable ks src keep oc old' \<longrightarrow> deleted_slot old' (store cl (world s') k'))"
          if P: "prunable ks src keep oc old"
        proof -
          have at: "store cl (world s) k = Some old" using mid [OF k] Some by simp
          obtain k' old' where k': "k' \<noteq> k" "store cl (world s) k' = Some old'"
              "copy_of ks src old'" "Namespace old' = Namespace old"
              "prunable ks src keep oc old' \<longrightarrow> deleted_slot old' (store cl (world s') k')"
            using complete [OF at P]
          proof
            assume "Namespace old \<in> (\<lambda>k. fst (snd k)) ` D"
            then obtain k' where k': "k' \<in> D" "fst (snd k') = Namespace old" by auto
            then obtain old' where old': "store cl (world s) k' = Some old'" "prunable ks src keep oc old'"
                "deleted_slot old' (store cl (world s') k')" using prunedD(3) [OF D] by blast
            have "Namespace old' = Namespace old" using stored_key [OF old'(1)] k'(2) by (auto simp: okey_def)
            with old' k' False show thesis by (intro that [of k' old']) (auto simp: prunable_def)
          next
            assume "\<exists>k' old'. store cl (world s) k' = Some old' \<and> copy_of ks src old' \<and>
              Namespace old' = Namespace old \<and> \<not> prunable ks src keep oc old'"
            then obtain k' old' where "store cl (world s) k' = Some old'" "copy_of ks src old'"
              "Namespace old' = Namespace old" "\<not> prunable ks src keep oc old'" by blast
            with at P show thesis by (intro that [of k' old']) auto
          qed
          have "fst (snd k') \<notin> keep_set keep"
            using outside [OF at P] stored_key [OF at] stored_key [OF k'(2)] k'(4) by (auto simp: okey_def)
          then have "M k' = Some old'" using mid not_kept k'(2) by metis
          with k' show ?thesis by blast
        qed
        with Some same show ?thesis by simp
      qed
    qed
  qed
qed

end

end
