(* ===== verification/Cluster_Registry.thy ===== *)
theory Cluster_Registry
  imports Platform
begin

text \<open>
  The registry of spoke clusters, \<open>internal/controller/registry.go\<close>, with \<open>clusterUID\<close> of
  \<open>cluster_controller.go\<close>. The operations on the table are pure functions
  (\<open>reg_lookup\<close>, \<open>reg_store\<close>, \<open>reg_set_up\<close>, \<open>reg_remove\<close>); the methods run them on the
  registry in the state, where a nil registry panics, with their gauge updates. What their
  callers rely on is the locale \<open>registry_contract\<close>. The kubeconfig parser and the
  constructor of clients are parameters (\<open>rest_ext\<close>).
\<close>

definition credentialKubeconfigKey :: string where
  "credentialKubeconfigKey = ''kubeconfig''"

text \<open>\<open>spokeRequestTimeout\<close> in seconds.\<close>

definition spokeRequestTimeout :: nat where
  "spokeRequestTimeout = 10"

record ('cfg, 'c, 'w) rest_ext =
  RESTConfigFromKubeConfig :: "string \<Rightarrow> error + 'cfg"
  with_Timeout :: "nat \<Rightarrow> 'cfg \<Rightarrow> 'cfg"
  client_New :: "'cfg \<Rightarrow> 'w \<Rightarrow> (error + 'c) \<times> 'w"

record 'c clusterConn =
  cc_client :: 'c
  cc_up :: bool

record ('cfg, 'c, 'w) ClusterRegistry =
  clusters :: "(string, 'c clusterConn) fmap"
  newClient :: "'cfg \<Rightarrow> string \<Rightarrow> 'w \<Rightarrow> (error + 'c) \<times> 'w"

type_synonym ('cfg, 'c, 'w, 'a) rgo = "(('cfg, 'c, 'w) ClusterRegistry, 'w, 'a) go"

definition NewClusterRegistry ::
  "('cfg \<Rightarrow> string \<Rightarrow> 'w \<Rightarrow> (error + 'c) \<times> 'w) \<Rightarrow> ('cfg, 'c, 'w) ClusterRegistry" where
  "NewClusterRegistry build = \<lparr>clusters = fmempty, newClient = build\<rparr>"

subsection \<open>The table\<close>

definition reg_lookup :: "('cfg, 'c, 'w) ClusterRegistry \<Rightarrow> string \<Rightarrow> 'c option" where
  "reg_lookup r cid = (case fmlookup (clusters r) cid of None \<Rightarrow> None | Some c \<Rightarrow> Some (cc_client c))"

definition reg_store ::
  "string \<Rightarrow> 'c \<Rightarrow> ('cfg, 'c, 'w) ClusterRegistry \<Rightarrow> ('cfg, 'c, 'w) ClusterRegistry" where
  "reg_store cid c r = r\<lparr>clusters := fmupd cid \<lparr>cc_client = c, cc_up = False\<rparr> (clusters r)\<rparr>"

definition reg_set_up ::
  "string \<Rightarrow> bool \<Rightarrow> ('cfg, 'c, 'w) ClusterRegistry \<Rightarrow> ('cfg, 'c, 'w) ClusterRegistry" where
  "reg_set_up cid up r = (case fmlookup (clusters r) cid of
     Some c \<Rightarrow> r\<lparr>clusters := fmupd cid (c\<lparr>cc_up := up\<rparr>) (clusters r)\<rparr>
   | None \<Rightarrow> r)"

definition reg_remove ::
  "string \<Rightarrow> ('cfg, 'c, 'w) ClusterRegistry \<Rightarrow> ('cfg, 'c, 'w) ClusterRegistry" where
  "reg_remove cid r = r\<lparr>clusters := fmdrop cid (clusters r)\<rparr>"

definition reg_keys :: "('cfg, 'c, 'w) ClusterRegistry \<Rightarrow> string fset" where
  "reg_keys r = fmdom (clusters r)"

subsection \<open>The methods\<close>

definition on_registry :: "('r \<Rightarrow> 'r) \<Rightarrow> ('r, 'w, unit outcome) go" where
  "on_registry f = do {
     s \<leftarrow> State_Monad.get;
     case registry s of
       None \<Rightarrow> State_Monad.return Panic
     | Some r \<Rightarrow> do {
         State_Monad.update (\<lambda>s. s\<lparr>registry := Some (f r)\<rparr>);
         State_Monad.return (Ret ())
       }
   }"

definition ClientFor :: "string \<Rightarrow> ('cfg, 'c, 'w, 'c option outcome) rgo" where
  "ClientFor cid = do {
     s \<leftarrow> State_Monad.get;
     case registry s of
       None \<Rightarrow> State_Monad.return Panic
     | Some r \<Rightarrow> State_Monad.return (Ret (reg_lookup r cid))
   }"

definition IDs :: "('c, 'w) ext \<Rightarrow> ('cfg, 'c, 'w, string list outcome) rgo" where
  "IDs X = do {
     s \<leftarrow> State_Monad.get;
     case registry s of
       None \<Rightarrow> State_Monad.return Panic
     | Some r \<Rightarrow> do {
         ids \<leftarrow> range_over X (reg_keys r);
         State_Monad.return (Ret (sort ids))
       }
   }"

definition Store :: "string \<Rightarrow> 'c \<Rightarrow> ('cfg, 'c, 'w, unit outcome) rgo" where
  "Store cid c = on_registry (reg_store cid c)"

definition SetUp :: "string \<Rightarrow> bool \<Rightarrow> ('cfg, 'c, 'w, unit outcome) rgo" where
  "SetUp cid up = call (on_registry (reg_set_up cid up)) (\<lambda>_. do {
     (if up then emit (GaugeSet clusterUp [cid] 1) else emit (GaugeSet clusterUp [cid] 0));
     State_Monad.return (Ret ())
   })"

definition Remove :: "string \<Rightarrow> ('cfg, 'c, 'w, unit outcome) rgo" where
  "Remove cid = call (on_registry (reg_remove cid)) (\<lambda>_. do {
     emit (GaugeDelete clusterUp [cid]);
     State_Monad.return (Ret ())
   })"

definition secret_data :: "object \<Rightarrow> string_map" where
  "secret_data secret = (case Content secret of Secret d _ \<Rightarrow> d | _ \<Rightarrow> fmempty)"

definition restConfigFromCredential :: "('cfg, 'c, 'w) rest_ext \<Rightarrow> object \<Rightarrow> error + 'cfg" where
  "restConfigFromCredential R secret =
     (case fmlookup (secret_data secret) credentialKubeconfigKey of
        None \<Rightarrow> Inl (Errorf ''credential Secret %s/%s has no %q data key''
                 [ArgS (Namespace secret), ArgS (Name secret), ArgS credentialKubeconfigKey])
      | Some raw \<Rightarrow>
          if length raw = 0
          then Inl (Errorf ''credential Secret %s/%s has no %q data key''
                 [ArgS (Namespace secret), ArgS (Name secret), ArgS credentialKubeconfigKey])
          else (case RESTConfigFromKubeConfig R raw of
              Inl err \<Rightarrow> Inl (Errorf ''parse kubeconfig from %s/%s: %w''
                 [ArgS (Namespace secret), ArgS (Name secret), ArgE err])
            | Inr cfg \<Rightarrow> Inr (with_Timeout R spokeRequestTimeout cfg)))"

definition BuildClient ::
  "('cfg, 'c, 'w) rest_ext \<Rightarrow> string \<Rightarrow> object \<Rightarrow> ('cfg, 'c, 'w, (error + 'c) outcome) rgo" where
  "BuildClient R cid secret =
     (case restConfigFromCredential R secret of
        Inl err \<Rightarrow> State_Monad.return (Ret (Inl err))
      | Inr cfg \<Rightarrow> do {
          s \<leftarrow> State_Monad.get;
          case registry s of
            None \<Rightarrow> State_Monad.return Panic
          | Some r \<Rightarrow> do {
              c \<leftarrow> api (newClient r cfg cid);
              case c of
                Inl err \<Rightarrow> State_Monad.return
                  (Ret (Inl (Errorf ''build client for cluster %q: %w'' [ArgS cid, ArgE err])))
              | Inr c \<Rightarrow> State_Monad.return (Ret (Inr c))
            }
        })"

definition Upsert ::
  "('cfg, 'c, 'w) rest_ext \<Rightarrow> string \<Rightarrow> object \<Rightarrow> ('cfg, 'c, 'w, (error + 'c) outcome) rgo" where
  "Upsert R cid secret =
     call (BuildClient R cid secret) (\<lambda>b.
       case b of
         Inl err \<Rightarrow> State_Monad.return (Ret (Inl err))
       | Inr c \<Rightarrow> call (Store cid c) (\<lambda>_. State_Monad.return (Ret (Inr c))))"

definition connectivityCheck :: "('c, 'w) ext \<Rightarrow> 'c \<Rightarrow> ('r, 'w, error option) go" where
  "connectivityCheck X c = do {
     r \<leftarrow> ListNamespaces X c (Some 1);
     case r of
       Inl err \<Rightarrow> State_Monad.return (Some err)
     | Inr _ \<Rightarrow> State_Monad.return None
   }"

definition clusterUID :: "('c, 'w) ext \<Rightarrow> 'c \<Rightarrow> ('r, 'w, error + string) go" where
  "clusterUID X c = do {
     r \<leftarrow> GetNamespace X c ''kube-system'';
     case r of
       Inl err \<Rightarrow> State_Monad.return (Inl err)
     | Inr ns \<Rightarrow> State_Monad.return (Inr (ns_UID ns))
   }"

definition ClusterUIDFromConfig ::
  "('c, 'w) ext \<Rightarrow> ('cfg, 'c, 'w) rest_ext \<Rightarrow> 'cfg \<Rightarrow> ('r, 'w, error + string) go" where
  "ClusterUIDFromConfig X R cfg = do {
     c \<leftarrow> api (client_New R cfg);
     case c of
       Inl err \<Rightarrow> State_Monad.return (Inl err)
     | Inr c \<Rightarrow> clusterUID X c
   }"

subsection \<open>The contract of a cluster table\<close>

text \<open>
  What the reconcilers rely on: a lookup returns the client stored last under the id and
  nothing after a removal; marking reachability registers nothing and drops nothing; the keys
  are the ids a lookup finds.
\<close>

locale registry_contract =
  fixes lookup :: "'r \<Rightarrow> string \<Rightarrow> 'c option"
    and ids :: "'r \<Rightarrow> string fset"
    and put :: "string \<Rightarrow> 'c \<Rightarrow> 'r \<Rightarrow> 'r"
    and mark :: "string \<Rightarrow> bool \<Rightarrow> 'r \<Rightarrow> 'r"
    and drop_id :: "string \<Rightarrow> 'r \<Rightarrow> 'r"
  assumes lookup_put: "lookup (put cid c r) j = (if j = cid then Some c else lookup r j)"
    and lookup_mark: "lookup (mark cid up r) j = lookup r j"
    and lookup_drop: "lookup (drop_id cid r) j = (if j = cid then None else lookup r j)"
    and ids_lookup: "j |\<in>| ids r \<longleftrightarrow> lookup r j \<noteq> None"
begin

definition all_registered :: "(string \<Rightarrow> 'c \<Rightarrow> bool) \<Rightarrow> 'r \<Rightarrow> bool" where
  "all_registered P r \<longleftrightarrow> (\<forall>j c. lookup r j = Some c \<longrightarrow> P j c)"

lemma all_put: "all_registered P r \<Longrightarrow> P cid c \<Longrightarrow> all_registered P (put cid c r)"
  by (simp add: all_registered_def lookup_put)

lemma all_mark [simp]: "all_registered P (mark cid up r) \<longleftrightarrow> all_registered P r"
  by (simp add: all_registered_def lookup_mark)

lemma all_drop: "all_registered P r \<Longrightarrow> all_registered P (drop_id cid r)"
  by (simp add: all_registered_def lookup_drop)

lemma ids_put [simp]: "ids (put cid c r) = finsert cid (ids r)"
  by (rule fset_eqI) (simp add: ids_lookup lookup_put del: not_None_eq)

lemma ids_mark [simp]: "ids (mark cid up r) = ids r"
  by (rule fset_eqI) (simp add: ids_lookup lookup_mark del: not_None_eq)

lemma ids_drop [simp]: "ids (drop_id cid r) = ids r |-| {|cid|}"
  by (rule fset_eqI) (auto simp: ids_lookup lookup_drop)

end

interpretation reg: registry_contract reg_lookup reg_keys reg_store reg_set_up reg_remove
  by unfold_locales
    (auto simp: reg_lookup_def reg_store_def reg_set_up_def reg_remove_def reg_keys_def
      fmlookup_dom_iff split: option.splits)

subsection \<open>Rules\<close>

lemma wp_on_registry [wp_rules]:
  "wp (on_registry f) Q s \<longleftrightarrow>
     (case registry s of None \<Rightarrow> Q Panic s | Some r \<Rightarrow> Q (Ret ()) (s\<lparr>registry := Some (f r)\<rparr>))"
  by (simp add: on_registry_def wp_rules split: option.splits)

lemma wp_ClientFor [wp_rules]:
  "wp (ClientFor cid) Q s \<longleftrightarrow>
     (case registry s of None \<Rightarrow> Q Panic s | Some r \<Rightarrow> Q (Ret (reg_lookup r cid)) s)"
  by (simp add: ClientFor_def wp_rules split: option.splits)

lemma wp_Store [wp_rules]:
  "wp (Store cid c) Q s \<longleftrightarrow>
     (case registry s of None \<Rightarrow> Q Panic s
      | Some r \<Rightarrow> Q (Ret ()) (s\<lparr>registry := Some (reg_store cid c r)\<rparr>))"
  by (simp add: Store_def wp_rules)

lemma wp_SetUp [wp_rules]:
  "wp (SetUp cid up) Q s \<longleftrightarrow>
     (case registry s of None \<Rightarrow> Q Panic s
      | Some r \<Rightarrow> Q (Ret ()) (s\<lparr>registry := Some (reg_set_up cid up r),
          effects := effects s @ [GaugeSet clusterUp [cid] (if up then 1 else 0)]\<rparr>))"
  by (simp add: SetUp_def wp_rules split: option.splits)

lemma wp_Remove [wp_rules]:
  "wp (Remove cid) Q s \<longleftrightarrow>
     (case registry s of None \<Rightarrow> Q Panic s
      | Some r \<Rightarrow> Q (Ret ()) (s\<lparr>registry := Some (reg_remove cid r),
          effects := effects s @ [GaugeDelete clusterUp [cid]]\<rparr>))"
  by (simp add: Remove_def wp_rules split: option.splits)

text \<open>Whatever order a \<open>range\<close> has, the ids come out sorted.\<close>

lemma sort_range:
  assumes "distinct xs" and "set xs = fset (S :: string fset)"
  shows "sort xs = sorted_list_of_fset S"
  using assms by (simp add: sorted_list_of_fset.rep_eq sorted_list_of_set_sort_remdups distinct_remdups_id
      flip: assms(2))

lemma sorted_ids [simp]:
  "distinct (sorted_list_of_fset S)" "set (sorted_list_of_fset S) = fset S"
  by (simp_all add: sorted_list_of_fset.rep_eq)

context platform begin

lemma wp_IDs:
  "wp (IDs X) Q s \<longleftrightarrow>
     (case registry s of None \<Rightarrow> Q Panic s
      | Some r \<Rightarrow> Q (Ret (sorted_list_of_fset (reg_keys r))) s)"
  using range_once [of "world s"]
  by (simp add: IDs_def wp_rules sort_range split: option.splits)

end

end
