(* ===== verification/Cross_Cluster.thy ===== *)
theory Cross_Cluster
  imports Footprint Cluster_Registry
begin

text \<open>
  Replication into spoke clusters, \<open>internal/controller/cross_cluster.go\<close>:
  \<open>reconcileRemote\<close> and \<open>deleteRemoteCopies\<close>. The bodies of the loops are definitions of
  their own: \<open>reconcileRemote_dest\<close> is one destination namespace on one spoke,
  \<open>reconcileRemote_cluster\<close> one spoke, \<open>deleteRemoteCopies_cluster\<close> one spoke of a deletion.
\<close>

definition targets_keys :: "targets option \<Rightarrow> string fset" where
  "targets_keys t = (case t of None \<Rightarrow> {||} | Some m \<Rightarrow> fmdom m)"

definition warnUnknown :: "object \<Rightarrow> string \<Rightarrow> unit \<Rightarrow> ('cfg, 'c, 'w, (unit, bool outcome) flow) rgo" where
  "warnUnknown src cid _ = step_call (ClientFor cid) (\<lambda>c.
     case c of
       None \<Rightarrow> do {
         Eventf src Warning ''UnknownCluster''
           ''target-clusters names unregistered cluster %q'' [ArgS cid];
         State_Monad.return (Next ())
       }
     | Some _ \<Rightarrow> State_Monad.return (Next ()))"

definition reconcileRemote_dest ::
  "('c, 'w) ext \<Rightarrow> 'c Syncer \<Rightarrow> object \<Rightarrow> string \<Rightarrow> 'c \<Rightarrow> string \<Rightarrow> (string, bool) fmap \<times> bool \<Rightarrow>
     ('cfg, 'c, 'w, ((string, bool) fmap \<times> bool, bool outcome) flow) rgo" where
  "reconcileRemote_dest X sy src cid cl destNS = (\<lambda>(keep, failed).
     let keep = fmupd destNS True keep in
     step_call (upsertCopy X sy cl src destNS (s_HubClusterUID sy)) (\<lambda>(act, err).
       case err of
         Some err \<Rightarrow> do {
           Eventf src Warning ''RemoteError'' ''Replicating to cluster %q namespace %q failed: %v''
             [ArgS cid, ArgS destNS, ArgE err];
           State_Monad.return (Next (keep, True))
         }
       | None \<Rightarrow>
           if act \<noteq> actionNone then do {
             emit (CounterAdd remoteCopyOperationsTotal [cid, operationFor act] 1);
             Eventf src Normal ''RemoteReplicated'' ''Replicated to cluster %q namespace %q''
               [ArgS cid, ArgS destNS];
             State_Monad.return (Next (keep, failed))
           }
           else State_Monad.return (Next (keep, failed))))"

definition reconcileRemote_cluster ::
  "('c, 'w) ext \<Rightarrow> 'c Syncer \<Rightarrow> object \<Rightarrow> targets option \<Rightarrow> string \<Rightarrow> bool \<Rightarrow>
     ('cfg, 'c, 'w, (bool, bool outcome) flow) rgo" where
  "reconcileRemote_cluster X sy src targets cid failed =
     step_call (ClientFor cid) (\<lambda>c.
       case c of
         None \<Rightarrow> State_Monad.return (Next failed)
       | Some cl \<Rightarrow>
           (case target_lookup targets cid of
              None \<Rightarrow>
                step_call (deleteCopies X sy cl src None (s_HubClusterUID sy)) (\<lambda>(n, err).
                  case err of
                    Some err \<Rightarrow> do {
                      Eventf src Warning ''RemoteError'' ''Removing copies from cluster %q failed: %v''
                        [ArgS cid, ArgE err];
                      State_Monad.return (Next True)
                    }
                  | None \<Rightarrow>
                      if n > 0 then do {
                        emit (CounterAdd remoteCopyOperationsTotal [cid, ''deleted''] n);
                        State_Monad.return (Next failed)
                      }
                      else State_Monad.return (Next failed))
            | Some nsTargets \<Rightarrow> do {
                f \<leftarrow> for_range (destNamespaces src nsTargets)
                  (reconcileRemote_dest X sy src cid cl) (fmempty, failed);
                case f of
                  Return r \<Rightarrow> State_Monad.return (Return r)
                | Next (keep, failed) \<Rightarrow>
                    step_call (deleteCopies X sy cl src (Some keep) (s_HubClusterUID sy)) (\<lambda>(n, err).
                      case err of
                        Some err \<Rightarrow> State_Monad.return (Next True)
                      | None \<Rightarrow>
                          if n > 0 then do {
                            emit (CounterAdd remoteCopyOperationsTotal [cid, ''deleted''] n);
                            State_Monad.return (Next failed)
                          }
                          else State_Monad.return (Next failed))
              }))"

definition reconcileRemote ::
  "('c, 'w) ext \<Rightarrow> 'c Syncer \<Rightarrow> object \<Rightarrow> ('cfg, 'c, 'w, bool outcome) rgo" where
  "reconcileRemote X sy src =
     (let tcValue = (case targetClustersValue (s_Keys sy) (Annotations src) of
            None \<Rightarrow> [] | Some v \<Rightarrow> v);
          targets = parseTargetClusters tcValue
      in do {
        named \<leftarrow> range_over X (targets_keys targets);
        f \<leftarrow> for_range named (warnUnknown src) ();
        case f of
          Return r \<Rightarrow> State_Monad.return r
        | Next _ \<Rightarrow> call (IDs X) (\<lambda>ids. do {
            f \<leftarrow> for_range ids (reconcileRemote_cluster X sy src targets) False;
            case f of
              Return r \<Rightarrow> State_Monad.return r
            | Next failed \<Rightarrow> State_Monad.return (Ret failed)
          })
      })"

definition deleteRemoteCopies_cluster ::
  "('c, 'w) ext \<Rightarrow> 'c Syncer \<Rightarrow> object \<Rightarrow> string \<Rightarrow> unit \<Rightarrow>
     ('cfg, 'c, 'w, (unit, error option outcome) flow) rgo" where
  "deleteRemoteCopies_cluster X sy src cid _ =
     step_call (ClientFor cid) (\<lambda>c.
       case c of
         None \<Rightarrow> State_Monad.return (Next ())
       | Some cl \<Rightarrow>
           step_call (deleteCopies X sy cl src None (s_HubClusterUID sy)) (\<lambda>(n, err).
             case err of
               Some err \<Rightarrow> do {
                 Eventf src Warning ''RemoteError''
                   ''Removing copies from cluster %q on delete failed: %v'' [ArgS cid, ArgE err];
                 State_Monad.return (Next ())
               }
             | None \<Rightarrow>
                 if n > 0 then do {
                   emit (CounterAdd remoteCopyOperationsTotal [cid, ''deleted''] n);
                   State_Monad.return (Next ())
                 }
                 else State_Monad.return (Next ())))"

definition deleteRemoteCopies ::
  "('c, 'w) ext \<Rightarrow> 'c Syncer \<Rightarrow> object \<Rightarrow> ('cfg, 'c, 'w, error option outcome) rgo" where
  "deleteRemoteCopies X sy src =
     call (IDs X) (\<lambda>ids. do {
       f \<leftarrow> for_range ids (deleteRemoteCopies_cluster X sy src) ();
       case f of
         Return r \<Rightarrow> State_Monad.return r
       | Next _ \<Rightarrow> State_Monad.return (Ret None)
     })"

subsection \<open>What a remote run does\<close>

text \<open>
  The namespaces wanted on a spoke (nil where the source does not target it), and the effect
  of a remote run on the stores: whatever fails, a registered spoke changes within the
  footprint of the source, and nothing else changes.
\<close>

definition spoke_keep :: "object \<Rightarrow> targets option \<Rightarrow> string \<Rightarrow> string_set" where
  "spoke_keep src targets cid = (case target_lookup targets cid of
     None \<Rightarrow> None
   | Some l \<Rightarrow> Some (fmap_of_list (map (\<lambda>ns. (ns, True)) (destNamespaces src l))))"

lemma keep_set_simps [simp]:
  "keep_set None = {}"
  "keep_set (Some fmempty) = {}"
  "keep_set (Some (fmupd ns True m)) = insert ns (keep_set (Some m))"
  by (auto simp: keep_set_def)

lemma keep_set_list [simp]: "keep_set (Some (fmap_of_list (map (\<lambda>ns. (ns, True)) l))) = set l"
  by (induction l) simp_all

lemma synced_keep:
  assumes "synced ks src oc keep M M'" and "keep_set keep = keep_set keep'"
  shows "synced ks src oc keep' M M'"
proof -
  have "set_index keep = set_index keep'"
    using assms(2) by (auto simp: keep_set_def set_eq_iff)
  then have "prunable ks src keep = prunable ks src keep'"
    by (auto simp: prunable_def fun_eq_iff)
  then have "synced ks src oc keep' M M' = synced ks src oc keep M M'"
    unfolding synced_def assms(2) by (simp only:)
  with assms(1) show ?thesis by simp
qed

text \<open>
  All spokes. \<open>wanted_on\<close> collects the namespaces wanted on a cluster under any id it is
  registered as; \<open>only_as\<close> says that a cluster is registered under one id only.
\<close>

definition wanted_on ::
  "('cfg, 'c, 'w) ClusterRegistry \<Rightarrow> object \<Rightarrow> targets option \<Rightarrow> 'c \<Rightarrow> string set" where
  "wanted_on rg src targets c = (\<Union>cid\<in>{cid. reg_lookup rg cid = Some c}. keep_set (spoke_keep src targets cid))"

definition only_as :: "('cfg, 'c, 'w) ClusterRegistry \<Rightarrow> string \<Rightarrow> 'c \<Rightarrow> bool" where
  "only_as rg cid c \<longleftrightarrow> (\<forall>j. reg_lookup rg j = Some c \<longleftrightarrow> j = cid)"

definition remote_inv ::
  "('c \<Rightarrow> 'w \<Rightarrow> okey \<Rightarrow> object option) \<Rightarrow> 'c Syncer \<Rightarrow> object \<Rightarrow> targets option \<Rightarrow> ('cfg, 'c, 'w) ClusterRegistry \<Rightarrow>
     (('cfg, 'c, 'w) ClusterRegistry, 'w) st \<Rightarrow> string list \<Rightarrow> bool \<Rightarrow>
     (('cfg, 'c, 'w) ClusterRegistry, 'w) st \<Rightarrow> bool" where
  "remote_inv store sy src targets rg s0 ys failed s \<longleftrightarrow>
     registry s = Some rg \<and> channels s = channels s0 \<and>
     (\<forall>c. (\<forall>cid\<in>set ys. reg_lookup rg cid \<noteq> Some c) \<longrightarrow> store c (world s) = store c (world s0)) \<and>
     (\<forall>c. footprint (s_Keys sy) src (s_HubClusterUID sy) (wanted_on rg src targets c)
        (store c (world s0)) (store c (world s))) \<and>
     (\<not> failed \<longrightarrow> (\<forall>cid\<in>set ys. \<forall>c. only_as rg cid c \<longrightarrow>
        synced (s_Keys sy) src (s_HubClusterUID sy) (spoke_keep src targets cid)
          (store c (world s0)) (store c (world s))))"

text \<open>The target list a run works with.\<close>

definition source_targets :: "KeySet \<Rightarrow> object \<Rightarrow> targets option" where
  "source_targets ks src = parseTargetClusters
     (case targetClustersValue ks (Annotations src) of None \<Rightarrow> [] | Some v \<Rightarrow> v)"

definition remote_post ::
  "('c \<Rightarrow> 'w \<Rightarrow> okey \<Rightarrow> object option) \<Rightarrow> 'c Syncer \<Rightarrow> object \<Rightarrow> ('cfg, 'c, 'w) ClusterRegistry \<Rightarrow> (('cfg, 'c, 'w) ClusterRegistry, 'w) st \<Rightarrow>
     bool outcome \<Rightarrow> (('cfg, 'c, 'w) ClusterRegistry, 'w) st \<Rightarrow> bool" where
  "remote_post store sy src rg s r s' \<longleftrightarrow>
     (\<exists>failed. r = Ret failed \<and>
        remote_inv store sy src (source_targets (s_Keys sy) src) rg s (sorted_list_of_fset (reg_keys rg)) failed s')"

text \<open>
  The removal of a source: no error is ever returned; whether a spoke failed shows only in the
  events.
\<close>

definition remote_error :: "effect \<Rightarrow> bool" where
  "remote_error e = (case e of Event _ _ reason _ _ \<Rightarrow> reason = ''RemoteError'' | _ \<Rightarrow> False)"

definition remote_purged ::
  "('c \<Rightarrow> 'w \<Rightarrow> okey \<Rightarrow> object option) \<Rightarrow> 'c Syncer \<Rightarrow> object \<Rightarrow> ('cfg, 'c, 'w) ClusterRegistry \<Rightarrow> (('cfg, 'c, 'w) ClusterRegistry, 'w) st \<Rightarrow>
     string list \<Rightarrow> (('cfg, 'c, 'w) ClusterRegistry, 'w) st \<Rightarrow> bool" where
  "remote_purged store sy src rg s ids s' \<longleftrightarrow>
     (\<exists>new. effects s' = effects s @ new \<and> remote_inv store sy src None rg s ids (list_ex remote_error new) s')"

context platform begin

text \<open>One destination: the invariant of the loop over the namespaces of one spoke.\<close>

definition dest_inv ::
  "KeySet \<Rightarrow> object \<Rightarrow> string \<Rightarrow> 'c \<Rightarrow> ('r, 'w) st \<Rightarrow> bool \<Rightarrow> string list \<Rightarrow>
     (string, bool) fmap \<Rightarrow> bool \<Rightarrow> ('r, 'w) st \<Rightarrow> bool" where
  "dest_inv ks src oc cl s0 failed0 ys keep failed s \<longleftrightarrow>
     registry s = registry s0 \<and> channels s = channels s0 \<and>
     (\<forall>c. c \<noteq> cl \<longrightarrow> store c (world s) = store c (world s0)) \<and>
     footprint ks src oc (set ys) (store cl (world s0)) (store cl (world s)) \<and>
     keep_set (Some keep) = set ys \<and>
     (\<not> failed \<longrightarrow> \<not> failed0 \<and> upserted ks src oc (set ys) (store cl (world s0)) (store cl (world s)))"

lemma dest_inv_emit [simp]:
  "dest_inv ks src oc cl s0 failed0 ys keep failed (s\<lparr>effects := e\<rparr>) \<longleftrightarrow>
     dest_inv ks src oc cl s0 failed0 ys keep failed s"
  by (simp add: dest_inv_def)

lemma dest_inv_step:
  assumes wf: "wf_KeySet ks"
    and inv: "dest_inv ks src oc cl s0 failed0 ys keep failed s"
    and post: "upsert_post store ks cl src ns oc s (Ret (a, err)) s'"
    and new: "ns \<notin> set ys"
  shows "dest_inv ks src oc cl s0 failed0 (ys @ [ns]) (fmupd ns True keep) (failed \<or> err \<noteq> None) s'"
proof -
  note frame = upsert_postD [OF post] upsert_footprint [OF wf post]
  have one: "footprint ks src oc (insert ns (set ys)) (store cl (world s)) (store cl (world s'))"
    by (rule footprint_mono [OF frame(6)]) simp
  have "footprint ks src oc (insert ns (set ys)) (store cl (world s0)) (store cl (world s))"
    using inv footprint_mono [OF _ subset_insertI] unfolding dest_inv_def by blast
  with one have fp: "footprint ks src oc (insert ns (set ys)) (store cl (world s0)) (store cl (world s'))"
    using footprint_trans by blast
  have "upserted ks src oc (insert ns (set ys)) (store cl (world s0)) (store cl (world s'))"
    if "\<not> failed" "err = None"
    using inv that(1) new post unfolding that(2) dest_inv_def by (blast intro: upserted_step)
  with inv frame fp show ?thesis
    by (auto simp: dest_inv_def)
qed

lemma wp_reconcileRemote_dest:
  assumes wf: "wf_KeySet (s_Keys sy)" and kind: "objKind src \<noteq> OtherKind"
    and inv: "dest_inv (s_Keys sy) src (s_HubClusterUID sy) cl s0 failed0 ys (fst a) (snd a) s"
    and new: "ns \<notin> set ys"
  shows "wp (reconcileRemote_dest X sy src cid cl ns a)
    (\<lambda>f s'. case f of
       Next p \<Rightarrow> dest_inv (s_Keys sy) src (s_HubClusterUID sy) cl s0 failed0 (ys @ [ns]) (fst p) (snd p) s'
     | Return r \<Rightarrow> False) s"
proof -
  obtain keep failed where a: "a = (keep, failed)" by (rule prod.exhaust)
  show ?thesis
    unfolding a reconcileRemote_dest_def prod.case Let_def wp_step_call
  proof (rule wp_mono [OF wp_upsertCopy [OF wf kind]], goal_cases)
    case (1 r s')
    obtain act err where r: "r = Ret (act, err)"
      using upsert_postD(5) [OF 1] by (cases r) auto
    from dest_inv_step [OF wf _ 1 [unfolded r] new] inv
    have "dest_inv (s_Keys sy) src (s_HubClusterUID sy) cl s0 failed0 (ys @ [ns]) (fmupd ns True keep)
        (failed \<or> err \<noteq> None) s'" by (simp add: a)
    then show ?case
      by (auto simp: r wp_rules split: option.splits)
  qed
qed

text \<open>One spoke.\<close>

definition cluster_post ::
  "'c Syncer \<Rightarrow> object \<Rightarrow> targets option \<Rightarrow> string \<Rightarrow> ('cfg, 'c, 'w) ClusterRegistry \<Rightarrow> bool \<Rightarrow>
     (('cfg, 'c, 'w) ClusterRegistry, 'w) st \<Rightarrow> bool \<Rightarrow> (('cfg, 'c, 'w) ClusterRegistry, 'w) st \<Rightarrow> bool" where
  "cluster_post sy src targets cid rg failed s failed' s' \<longleftrightarrow>
     registry s' = registry s \<and> channels s' = channels s \<and>
     (\<forall>c. reg_lookup rg cid \<noteq> Some c \<longrightarrow> store c (world s') = store c (world s)) \<and>
     (\<forall>c. reg_lookup rg cid = Some c \<longrightarrow>
        footprint (s_Keys sy) src (s_HubClusterUID sy) (keep_set (spoke_keep src targets cid))
          (store c (world s)) (store c (world s')) \<and>
        (\<not> failed' \<longrightarrow> synced (s_Keys sy) src (s_HubClusterUID sy) (spoke_keep src targets cid)
          (store c (world s)) (store c (world s')))) \<and>
     (\<not> failed' \<longrightarrow> \<not> failed)"

lemma cluster_post_emit [simp]:
  "cluster_post sy src targets cid rg failed s failed' (s'\<lparr>effects := e\<rparr>) \<longleftrightarrow>
     cluster_post sy src targets cid rg failed s failed' s'"
  by (simp add: cluster_post_def)

lemma cluster_postI:
  assumes wf: "wf_KeySet (s_Keys sy)" and cl: "reg_lookup rg cid = Some cl"
    and inv: "dest_inv (s_Keys sy) src (s_HubClusterUID sy) cl s failed dests keepm failed' t"
    and keep: "keep_set keep = set dests" "keep_set (spoke_keep src targets cid) = set dests"
    and post: "delete_post store (s_Keys sy) cl src keep (s_HubClusterUID sy) t (Ret (n, err)) s'"
  shows "cluster_post sy src targets cid rg failed s (failed' \<or> err \<noteq> None) s'"
proof -
  let ?ks = "s_Keys sy" and ?oc = "s_HubClusterUID sy"
  have "footprint ?ks src ?oc (set dests) (store cl (world s)) (store cl (world s'))"
    using inv delete_footprint(1) [OF post] footprint_trans unfolding dest_inv_def by blast
  moreover have "synced ?ks src ?oc (spoke_keep src targets cid) (store cl (world s)) (store cl (world s'))"
    if "\<not> failed'" "err = None"
  proof -
    have "synced ?ks src ?oc keep (store cl (world s)) (store cl (world s'))"
      using inv that(1) keep(1)
      by (intro synced_intro [OF _ stored_key post [unfolded that(2)]]) (simp add: dest_inv_def)
    then show ?thesis by (rule synced_keep) (simp add: keep)
  qed
  moreover have "registry s' = registry t \<and> channels s' = channels t"
    using post by (simp add: delete_post_def)
  ultimately show ?thesis
    using inv delete_footprint(2) [OF post] cl keep(2) by (auto simp: cluster_post_def dest_inv_def)
qed

lemma wp_reconcileRemote_cluster:
  assumes wf: "wf_KeySet (s_Keys sy)" and kind: "objKind src \<noteq> OtherKind"
    and rg: "registry s = Some rg"
  shows "wp (reconcileRemote_cluster X sy src targets cid failed)
    (\<lambda>f s'. case f of
       Next failed' \<Rightarrow> cluster_post sy src targets cid rg failed s failed' s'
     | Return r \<Rightarrow> False) s"
proof (cases "reg_lookup rg cid")
  case None
  then show ?thesis
    by (simp add: reconcileRemote_cluster_def wp_rules rg cluster_post_def)
next
  case (Some cl)
  let ?ks = "s_Keys sy" and ?oc = "s_HubClusterUID sy"
  note del = wp_deleteCopies [OF wf kind]
  have ret: "\<exists>n err. r = Ret (n, err)" if "delete_post store ?ks cl src keep ?oc t r t'" for keep t r t'
    using that by (cases r) (auto simp: delete_post_def)
  show ?thesis
  proof (cases "target_lookup targets cid")
    case None
    have start: "dest_inv ?ks src ?oc cl s failed [] fmempty failed s" by (simp add: dest_inv_def)
    show ?thesis
      unfolding reconcileRemote_cluster_def wp_step_call wp_ClientFor rg Some None option.case outcome.case
    proof (rule wp_mono [OF del], goal_cases)
      case (1 r s')
      obtain n err where r: "r = Ret (n, err)" using ret [OF 1] by blast
      have "cluster_post sy src targets cid rg failed s (failed \<or> err \<noteq> None) s'"
        by (rule cluster_postI [OF wf Some start _ _ 1 [unfolded r]])
          (simp_all add: spoke_keep_def None)
      then show ?case by (auto simp: r wp_rules split: option.splits)
    qed
  next
    case (Some nsTargets)
    let ?dests = "destNamespaces src nsTargets"
    have dist: "distinct ?dests" using destNamespaces_distinct by simp
    show ?thesis
      unfolding reconcileRemote_cluster_def wp_step_call wp_ClientFor rg \<open>reg_lookup rg cid = Some cl\<close>
        Some option.case outcome.case wp_bind
    proof (rule wp_for_range [where I = "\<lambda>ys a t. dest_inv ?ks src ?oc cl s failed ys (fst a) (snd a) t"],
        goal_cases)
      case 1
      show ?case by (simp add: dest_inv_def)
    next
      case (2 ys ns zs a t)
      have "ns \<notin> set ys" using dist 2(1) by simp
      from wp_reconcileRemote_dest [OF wf kind 2(2) this]
      show ?case by (rule wp_mono) (auto split: flow.splits)
    next
      case (3 a t)
      obtain keep failed1 where a: "a = (keep, failed1)" by (rule prod.exhaust)
      have inv: "dest_inv ?ks src ?oc cl s failed ?dests keep failed1 t" using 3 by (simp add: a)
      then have keep: "keep_set (Some keep) = set ?dests" by (simp add: dest_inv_def)
      show ?case
        unfolding a flow.case prod.case wp_step_call
      proof (rule wp_mono [OF del], goal_cases)
        case (1 r s')
        obtain n err where r: "r = Ret (n, err)" using ret [OF 1] by blast
        have "cluster_post sy src targets cid rg failed s (failed1 \<or> err \<noteq> None) s'"
          by (rule cluster_postI [OF wf \<open>reg_lookup rg cid = Some cl\<close> inv keep _ 1 [unfolded r]])
            (simp add: spoke_keep_def Some)
        then show ?case by (auto simp: r wp_rules split: option.splits)
      qed
    qed
  qed
qed

lemma remote_inv_emit [simp]:
  "remote_inv store sy src targets rg s0 ys failed (s\<lparr>effects := e\<rparr>) \<longleftrightarrow>
     remote_inv store sy src targets rg s0 ys failed s"
  "remote_inv store sy src targets rg (s0\<lparr>effects := e\<rparr>) ys failed s \<longleftrightarrow>
     remote_inv store sy src targets rg s0 ys failed s"
  by (simp_all add: remote_inv_def)

lemma remote_inv_step:
  assumes inv: "remote_inv store sy src targets rg s0 ys failed s" and new: "cid \<notin> set ys"
    and post: "cluster_post sy src targets cid rg failed s failed' s'"
  shows "remote_inv store sy src targets rg s0 (ys @ [cid]) failed' s'"
proof -
  let ?ks = "s_Keys sy" and ?oc = "s_HubClusterUID sy"
  have same: "store c (world s') = store c (world s)" if "reg_lookup rg cid \<noteq> Some c" for c
    using post that by (simp add: cluster_post_def)
  have "footprint ?ks src ?oc (wanted_on rg src targets c) (store c (world s)) (store c (world s'))" for c
  proof (cases "reg_lookup rg cid = Some c")
    case True
    then have "footprint ?ks src ?oc (keep_set (spoke_keep src targets cid))
        (store c (world s)) (store c (world s'))"
      using post by (simp add: cluster_post_def)
    then show ?thesis by (rule footprint_mono) (use True in \<open>auto simp: wanted_on_def\<close>)
  qed (simp add: same)
  then have fp: "footprint ?ks src ?oc (wanted_on rg src targets c) (store c (world s0)) (store c (world s'))" for c
    using inv footprint_trans unfolding remote_inv_def by blast
  have "synced ?ks src ?oc (spoke_keep src targets j) (store c (world s0)) (store c (world s'))"
    if "\<not> failed'" and j: "j \<in> set (ys @ [cid])" and only: "only_as rg j c" for j c
  proof (cases "j = cid")
    case True
    then have "\<forall>i\<in>set ys. reg_lookup rg i \<noteq> Some c" using only new by (auto simp: only_as_def)
    then have "store c (world s) = store c (world s0)" using inv by (simp add: remote_inv_def)
    moreover have "reg_lookup rg cid = Some c" using only True by (simp add: only_as_def)
    ultimately show ?thesis
      using post that(1) True unfolding cluster_post_def by auto
  next
    case False
    then have "reg_lookup rg cid \<noteq> Some c" using only by (simp add: only_as_def)
    moreover have "\<not> failed" using post that(1) by (simp add: cluster_post_def)
    ultimately show ?thesis
      using inv j False only same by (simp add: remote_inv_def)
  qed
  with inv post fp same show ?thesis
    by (auto simp: remote_inv_def cluster_post_def)
qed

lemma wp_reconcileRemote:
  assumes wf: "wf_KeySet (s_Keys sy)" and kind: "objKind src \<noteq> OtherKind"
    and rg: "registry s = Some rg"
  shows "wp (reconcileRemote X sy src) (remote_post store sy src rg s) s"
  unfolding reconcileRemote_def Let_def wp_bind wp_range_over source_targets_def [symmetric]
proof (rule wp_for_range [where I = "\<lambda>_ _ t. \<exists>e. t = s\<lparr>effects := e\<rparr>"], goal_cases)
  case 1
  show ?case by (metis st.surjective st.update_convs(3))
next
  case (2 ys cid zs a t)
  then obtain e where "t = s\<lparr>effects := e\<rparr>" by blast
  then show ?case
    by (auto simp: warnUnknown_def wp_rules rg split: option.splits)
next
  case (3 a t)
  then obtain e where t: "t = s\<lparr>effects := e\<rparr>" by blast
  let ?T = "source_targets (s_Keys sy) src"
  show ?case
    unfolding flow.case wp_call wp_IDs
  proof (simp add: t rg wp_bind, rule wp_for_range [where I = "remote_inv store sy src ?T rg s"], goal_cases)
    case 1
    show ?case by (simp add: remote_inv_def rg)
  next
    case (2 ys cid zs failed u)
    have "cid \<notin> set ys"
      using 2(1) sorted_ids(1) [of "reg_keys rg"] by simp
    moreover have "registry u = Some rg" using 2(2) by (simp add: remote_inv_def)
    ultimately show ?case
      using remote_inv_step [OF 2(2)]
      by (intro wp_mono [OF wp_reconcileRemote_cluster [OF wf kind]]) (auto split: flow.splits)
  next
    case (3 failed u)
    then show ?case by (simp add: wp_rules remote_post_def)
  qed
qed

lemma wp_deleteRemoteCopies_cluster:
  assumes wf: "wf_KeySet (s_Keys sy)" and kind: "objKind src \<noteq> OtherKind"
    and rg: "registry s = Some rg"
  shows "wp (deleteRemoteCopies_cluster X sy src cid u)
    (\<lambda>f s'. \<exists>new. f = Next () \<and> effects s' = effects s @ new \<and>
       cluster_post sy src None cid rg failed s (failed \<or> list_ex remote_error new) s') s"
proof (cases "reg_lookup rg cid")
  case None
  then show ?thesis
    by (simp add: deleteRemoteCopies_cluster_def wp_rules rg cluster_post_def)
next
  case (Some cl)
  let ?ks = "s_Keys sy" and ?oc = "s_HubClusterUID sy"
  have start: "dest_inv ?ks src ?oc cl s failed [] fmempty failed s" by (simp add: dest_inv_def)
  show ?thesis
    unfolding deleteRemoteCopies_cluster_def wp_step_call wp_ClientFor rg Some option.case outcome.case
  proof (rule wp_mono [OF wp_deleteCopies [OF wf kind]], goal_cases)
    case (1 r s')
    then obtain n err where r: "r = Ret (n, err)" by (cases r) (auto simp: delete_post_def)
    have "cluster_post sy src None cid rg failed s (failed \<or> err \<noteq> None) s'"
      by (rule cluster_postI [OF wf Some start _ _ 1 [unfolded r]])
        (simp_all add: spoke_keep_def target_lookup_def)
    moreover have "effects s' = effects s" using 1 by (simp add: delete_post_def)
    ultimately show ?case
      by (auto simp: r wp_rules remote_error_def split: option.splits)
  qed
qed

lemma wp_deleteRemoteCopies:
  assumes wf: "wf_KeySet (s_Keys sy)" and kind: "objKind src \<noteq> OtherKind"
    and rg: "registry s = Some rg"
  shows "wp (deleteRemoteCopies X sy src)
    (\<lambda>r s'. r = Ret None \<and> remote_purged store sy src rg s (sorted_list_of_fset (reg_keys rg)) s') s"
  unfolding deleteRemoteCopies_def wp_call wp_IDs rg option.case outcome.case wp_bind
proof (rule wp_for_range [where I = "\<lambda>ys _ t. remote_purged store sy src rg s ys t"], goal_cases)
  case 1
  show ?case by (auto simp: remote_purged_def remote_inv_def rg)
next
  case (2 ys cid zs a t)
  then obtain old where old: "effects t = effects s @ old"
    and inv: "remote_inv store sy src None rg s ys (list_ex remote_error old) t"
    unfolding remote_purged_def by blast
  have "cid \<notin> set ys" using 2(1) sorted_ids(1) [of "reg_keys rg"] by simp
  note step = remote_inv_step [OF inv this]
  have "registry t = Some rg" using inv by (simp add: remote_inv_def)
  from wp_deleteRemoteCopies_cluster [OF wf kind this, of cid a "list_ex remote_error old"]
  show ?case
  proof (rule wp_mono, goal_cases)
    case (1 f s')
    then obtain new where "f = Next ()" "effects s' = effects t @ new"
      "cluster_post sy src None cid rg (list_ex remote_error old) t
         (list_ex remote_error old \<or> list_ex remote_error new) s'" by blast
    with step [OF this(3)] old show ?case
      by (auto simp: remote_purged_def intro!: exI [of _ "old @ new"])
  qed
next
  case (3 a t)
  then show ?case by (simp add: wp_rules)
qed

end

end
