(* ===== verification/Source_Reconcile.thy ===== *)
theory Source_Reconcile
  imports Cross_Cluster
begin

text \<open>
  The reconciliation of one source, \<open>reconcileSource\<close> and \<open>cleanupAndRemoveFinalizer\<close> of
  \<open>internal/controller/syncer.go\<close>, with \<open>observeReconcile\<close> of \<open>metrics.go\<close> and the
  \<open>Reconcile\<close> methods of \<open>configmap_controller.go\<close> and \<open>secret_controller.go\<close>. The body
  of \<open>reconcileSource\<close> is cut at its own paragraphs: \<open>targetNamespaces\<close> computes the target
  set, \<open>replicateLocal\<close> writes and prunes the local copies, \<open>replicateRemote\<close> is the
  cross-cluster part.
\<close>

text \<open>A \<open>reconcile.Result\<close>; \<open>RequeueAfter\<close> and the retry interval are in seconds.\<close>

record Result =
  RequeueAfter :: nat

definition zero_Result :: Result where
  "zero_Result = \<lparr>RequeueAfter = 0\<rparr>"

definition remoteRetryInterval :: nat where
  "remoteRetryInterval = 60"

fun err_of :: "error + 'a \<Rightarrow> error option" where
  "err_of (Inl e) = Some e"
| "err_of (Inr _) = None"

definition countDeleted :: "object \<Rightarrow> nat \<Rightarrow> ('r, 'w, unit) go" where
  "countDeleted obj n =
     (if n > 0 then emit (CounterAdd copyOperationsTotal [kindOf obj, ''deleted''] n)
      else State_Monad.return ())"

lemma wp_countDeleted [wp_rules]:
  "wp (countDeleted obj n) Q s \<longleftrightarrow>
     Q () (s\<lparr>effects := effects s @
       (if n > 0 then [CounterAdd copyOperationsTotal [kindOf obj, ''deleted''] n] else [])\<rparr>)"
  by (simp add: countDeleted_def wp_rules)

definition dropFinalizers ::
  "('c, 'w) ext \<Rightarrow> 'c Syncer \<Rightarrow> object \<Rightarrow> ('r, 'w, error option outcome) go" where
  "dropFinalizers X sy obj = do {
     r \<leftarrow> Update X (s_Client sy) (removeAllFinalizers (finalizers X) (s_Keys sy) obj);
     State_Monad.return (Ret (IgnoreNotFound (err_of r)))
   }"

definition cleanupAndRemoveFinalizer ::
  "('c, 'w) ext \<Rightarrow> 'c Syncer \<Rightarrow> object \<Rightarrow> ('cfg, 'c, 'w, error option outcome) rgo" where
  "cleanupAndRemoveFinalizer X sy obj =
     (if \<not> hasFinalizer (finalizers X) (s_Keys sy) obj then State_Monad.return (Ret None)
      else call (deleteCopies X sy (s_Client sy) obj None []) (\<lambda>(n, err).
        case err of
          Some err \<Rightarrow> State_Monad.return (Ret (Some err))
        | None \<Rightarrow> do {
            countDeleted obj n;
            s \<leftarrow> State_Monad.get;
            if registry s \<noteq> None then
              call (deleteRemoteCopies X sy obj) (\<lambda>err.
                case err of
                  Some err \<Rightarrow> State_Monad.return (Ret (Some err))
                | None \<Rightarrow> dropFinalizers X sy obj)
            else dropFinalizers X sy obj
          }))"

fun targetNamespaces ::
  "string_set \<Rightarrow> object \<Rightarrow> (string_map \<Rightarrow> bool) \<Rightarrow> namespace list \<Rightarrow> (string, bool) fmap \<Rightarrow>
     (string, bool) fmap" where
  "targetNamespaces excluded obj selector [] targets = targets"
| "targetNamespaces excluded obj selector (ns # items) targets =
     (if ns_Name ns = Namespace obj \<or> ns_DeletionTimestamp ns \<noteq> None
      then targetNamespaces excluded obj selector items targets
      else if set_index excluded (ns_Name ns)
      then targetNamespaces excluded obj selector items targets
      else if selector (ns_Labels ns)
      then targetNamespaces excluded obj selector items (fmupd (ns_Name ns) True targets)
      else targetNamespaces excluded obj selector items targets)"

definition upsertTarget ::
  "('c, 'w) ext \<Rightarrow> 'c Syncer \<Rightarrow> object \<Rightarrow> string \<Rightarrow> nat \<Rightarrow>
     ('r, 'w, (nat, error option outcome) flow) go" where
  "upsertTarget X sy obj ns changed =
     step_call (upsertCopy X sy (s_Client sy) obj ns []) (\<lambda>(act, err).
       case err of
         Some err \<Rightarrow> State_Monad.return (Return (Ret (Some err)))
       | None \<Rightarrow>
           if act \<noteq> actionNone then do {
             emit (CounterAdd copyOperationsTotal [kindOf obj, operationFor act] 1);
             State_Monad.return (Next (changed + 1))
           }
           else State_Monad.return (Next changed))"

definition replicateLocal ::
  "('c, 'w) ext \<Rightarrow> 'c Syncer \<Rightarrow> object \<Rightarrow> (string, bool) fmap \<Rightarrow>
     ('r, 'w, error option outcome) go" where
  "replicateLocal X sy obj targets = do {
     order \<leftarrow> range_over X (fmdom targets);
     f \<leftarrow> for_range order (upsertTarget X sy obj) 0;
     case f of
       Return r \<Rightarrow> State_Monad.return r
     | Next changed \<Rightarrow>
         call (deleteCopies X sy (s_Client sy) obj (Some targets) []) (\<lambda>(deleted, err).
           case err of
             Some err \<Rightarrow> State_Monad.return (Ret (Some err))
           | None \<Rightarrow> do {
               countDeleted obj deleted;
               (if changed > 0 \<or> deleted > 0
                then Eventf obj Normal ''Replicated''
                  ''Reconciled %d target namespace(s): %d written, %d removed''
                  [ArgN (fcard (fmdom targets)), ArgN changed, ArgN deleted]
                else State_Monad.return ());
               State_Monad.return (Ret None)
             })
   }"

definition replicateRemote ::
  "('c, 'w) ext \<Rightarrow> 'c Syncer \<Rightarrow> object \<Rightarrow> ('cfg, 'c, 'w, (Result \<times> error option) outcome) rgo" where
  "replicateRemote X sy obj = do {
     s \<leftarrow> State_Monad.get;
     if registry s \<noteq> None \<and> targetClustersValue (s_Keys sy) (Annotations obj) \<noteq> None then
       call (reconcileRemote X sy obj) (\<lambda>failed.
         if failed then State_Monad.return (Ret (\<lparr>RequeueAfter = remoteRetryInterval\<rparr>, None))
         else State_Monad.return (Ret (zero_Result, None)))
     else State_Monad.return (Ret (zero_Result, None))
   }"

definition reconcileSource ::
  "('c, 'w) ext \<Rightarrow> 'c Syncer \<Rightarrow> object \<Rightarrow> ('cfg, 'c, 'w, (Result \<times> error option) outcome) rgo" where
  "reconcileSource X sy obj =
     (if DeletionTimestamp obj \<noteq> None then
        call (cleanupAndRemoveFinalizer X sy obj) (\<lambda>err. State_Monad.return (Ret (zero_Result, err)))
      else if \<not> isSource (s_Keys sy) obj then
        (if hasFinalizer (finalizers X) (s_Keys sy) obj then
           call (cleanupAndRemoveFinalizer X sy obj) (\<lambda>err. State_Monad.return (Ret (zero_Result, err)))
         else State_Monad.return (Ret (zero_Result, None)))
      else
        let (obj, changed) = reconcileFinalizer (finalizers X) (s_Keys sy) obj in
        if changed then do {
          r \<leftarrow> Update X (s_Client sy) obj;
          case r of
            Inl err \<Rightarrow> State_Monad.return (Ret (zero_Result, IgnoreNotFound (Some err)))
          | Inr _ \<Rightarrow> State_Monad.return (Ret (zero_Result, None))
        }
        else
          let selValue = (case syncValue (s_Keys sy) (Annotations obj) of
                None \<Rightarrow> [] | Some (_, v) \<Rightarrow> v)
          in case labels_Parse X selValue of
               Inl err \<Rightarrow> do {
                 Eventf obj Warning ''InvalidSelector'' ''Ignoring invalid sync selector %q: %v''
                   [ArgS selValue, ArgE err];
                 State_Monad.return (Ret (zero_Result, None))
               }
             | Inr selector \<Rightarrow> do {
                 r \<leftarrow> ListNamespaces X (s_Client sy) None;
                 case r of
                   Inl err \<Rightarrow> State_Monad.return (Ret (zero_Result, Some err))
                 | Inr items \<Rightarrow>
                     let targets = targetNamespaces (s_ExcludeNamespaces sy) obj selector items fmempty in
                     call (replicateLocal X sy obj targets) (\<lambda>err.
                       case err of
                         Some err \<Rightarrow> State_Monad.return (Ret (zero_Result, Some err))
                       | None \<Rightarrow> replicateRemote X sy obj)
               })"

subsection \<open>The controllers\<close>

definition observeReconcile :: "string \<Rightarrow> error option \<Rightarrow> ('r, 'w, unit) go" where
  "observeReconcile knd err =
     (let result = (if err \<noteq> None then ''error'' else ''success'')
      in emit (CounterAdd reconcileTotal [knd, result] 1))"

definition ConfigMapReconciler_Reconcile ::
  "('c, 'w) ext \<Rightarrow> 'c Syncer \<Rightarrow> string \<Rightarrow> string \<Rightarrow> ('cfg, 'c, 'w, (Result \<times> error option) outcome) rgo"
  where
  "ConfigMapReconciler_Reconcile X sy ns n = do {
     r \<leftarrow> Get X (s_Client sy) ConfigMapKind ns n;
     case r of
       Inl err \<Rightarrow> State_Monad.return (Ret (zero_Result, IgnoreNotFound (Some err)))
     | Inr cm \<Rightarrow> call (reconcileSource X sy cm) (\<lambda>(res, err). do {
         observeReconcile ''configmap'' err;
         State_Monad.return (Ret (res, err))
       })
   }"

definition SecretReconciler_Reconcile ::
  "('c, 'w) ext \<Rightarrow> 'c Syncer \<Rightarrow> string \<Rightarrow> string \<Rightarrow> ('cfg, 'c, 'w, (Result \<times> error option) outcome) rgo"
  where
  "SecretReconciler_Reconcile X sy ns n = do {
     r \<leftarrow> Get X (s_Client sy) SecretKind ns n;
     case r of
       Inl err \<Rightarrow> State_Monad.return (Ret (zero_Result, IgnoreNotFound (Some err)))
     | Inr sec \<Rightarrow> call (reconcileSource X sy sec) (\<lambda>(res, err). do {
         observeReconcile ''secret'' err;
         State_Monad.return (Ret (res, err))
       })
   }"

subsection \<open>The target set\<close>

definition wanted_namespace ::
  "string_set \<Rightarrow> object \<Rightarrow> (string_map \<Rightarrow> bool) \<Rightarrow> namespace list \<Rightarrow> string \<Rightarrow> bool" where
  "wanted_namespace excluded obj selector items ns \<longleftrightarrow>
     ns \<noteq> Namespace obj \<and> \<not> set_index excluded ns \<and>
     list_ex (\<lambda>n. ns_Name n = ns \<and> ns_DeletionTimestamp n = None \<and> selector (ns_Labels n)) items"

lemma targetNamespaces_lookup:
  "fmlookup (targetNamespaces excluded obj selector items targets) ns =
     (if wanted_namespace excluded obj selector items ns then Some True else fmlookup targets ns)"
  by (induction items arbitrary: targets) (auto simp: wanted_namespace_def)

lemma targetNamespaces_keep:
  "keep_set (Some (targetNamespaces excluded obj selector items fmempty)) =
     {ns. wanted_namespace excluded obj selector items ns}"
  by (auto simp: keep_set_def set_index_def targetNamespaces_lookup)

lemma targetNamespaces_dom:
  "fset (fmdom (targetNamespaces excluded obj selector items fmempty)) =
     keep_set (Some (targetNamespaces excluded obj selector items fmempty))"
  by (auto simp: keep_set_def set_index_def targetNamespaces_lookup fmlookup_dom_iff split: if_splits)

subsection \<open>The local cluster\<close>

definition local_post ::
  "('c \<Rightarrow> 'w \<Rightarrow> okey \<Rightarrow> object option) \<Rightarrow> 'c Syncer \<Rightarrow> object \<Rightarrow> string_set \<Rightarrow> ('r, 'w) st \<Rightarrow> error option outcome \<Rightarrow> ('r, 'w) st \<Rightarrow> bool" where
  "local_post store sy obj keep s r s' \<longleftrightarrow>
     registry s' = registry s \<and> channels s' = channels s \<and>
     (\<forall>c. c \<noteq> s_Client sy \<longrightarrow> store c (world s') = store c (world s)) \<and>
     footprint (s_Keys sy) obj [] (keep_set keep) (store (s_Client sy) (world s)) (store (s_Client sy) (world s')) \<and>
     (\<exists>err. r = Ret err \<and>
        (err = None \<longrightarrow> synced (s_Keys sy) obj [] keep
           (store (s_Client sy) (world s)) (store (s_Client sy) (world s'))))"

text \<open>
  The cross-cluster part. \<open>spokes_only\<close>: the registry does not hold the local cluster, so
  the cross-cluster part leaves the local store alone.
\<close>

definition spokes_only :: "'c Syncer \<Rightarrow> (('cfg, 'c, 'w) ClusterRegistry, 'w) st \<Rightarrow> bool" where
  "spokes_only sy s \<longleftrightarrow> (case registry s of
     None \<Rightarrow> True | Some rg \<Rightarrow> \<forall>cid. reg_lookup rg cid \<noteq> Some (s_Client sy))"

definition remote_phase ::
  "('c \<Rightarrow> 'w \<Rightarrow> okey \<Rightarrow> object option) \<Rightarrow> 'c Syncer \<Rightarrow> object \<Rightarrow> (('cfg, 'c, 'w) ClusterRegistry, 'w) st \<Rightarrow> bool \<Rightarrow>
     (('cfg, 'c, 'w) ClusterRegistry, 'w) st \<Rightarrow> bool" where
  "remote_phase store sy obj s failed s' \<longleftrightarrow>
     registry s' = registry s \<and> channels s' = channels s \<and>
     (case registry s of
        None \<Rightarrow> \<not> failed \<and> world s' = world s
      | Some rg \<Rightarrow>
          if targetClustersValue (s_Keys sy) (Annotations obj) = None
          then \<not> failed \<and> world s' = world s
          else remote_inv store sy obj (source_targets (s_Keys sy) obj) rg s
                 (sorted_list_of_fset (reg_keys rg)) failed s')"

text \<open>
  \<open>spoke_frame\<close>: on the spokes a run stays in the footprint of the source, and a cluster that
  is neither the hub nor registered is not changed at all.
\<close>

definition spoke_frame ::
  "('c \<Rightarrow> 'w \<Rightarrow> okey \<Rightarrow> object option) \<Rightarrow> 'c Syncer \<Rightarrow> object \<Rightarrow> targets option \<Rightarrow> (('cfg, 'c, 'w) ClusterRegistry, 'w) st \<Rightarrow>
     (('cfg, 'c, 'w) ClusterRegistry, 'w) st \<Rightarrow> bool" where
  "spoke_frame store sy obj T s s' \<longleftrightarrow>
     (\<forall>c. c \<noteq> s_Client sy \<longrightarrow>
        (case registry s of
           None \<Rightarrow> store c (world s') = store c (world s)
         | Some rg \<Rightarrow>
             footprint (s_Keys sy) obj (s_HubClusterUID sy) (wanted_on rg obj T c)
               (store c (world s)) (store c (world s')) \<and>
             ((\<forall>cid. reg_lookup rg cid \<noteq> Some c) \<longrightarrow> store c (world s') = store c (world s))))"

definition cleanup_post ::
  "('c, 'w) ext \<Rightarrow> ('c \<Rightarrow> 'w \<Rightarrow> okey \<Rightarrow> object option) \<Rightarrow> 'c Syncer \<Rightarrow> object \<Rightarrow> (('cfg, 'c, 'w) ClusterRegistry, 'w) st \<Rightarrow> error option outcome \<Rightarrow>
     (('cfg, 'c, 'w) ClusterRegistry, 'w) st \<Rightarrow> bool" where
  "cleanup_post X store sy obj s r s' \<longleftrightarrow>
     registry s' = registry s \<and> channels s' = channels s \<and> spoke_frame store sy obj None s s' \<and>
     (\<exists>err M1. r = Ret err \<and>
        footprint (s_Keys sy) obj [] {} (store (s_Client sy) (world s)) M1 \<and> M1 (okey obj) = Some obj \<and>
        (synced (s_Keys sy) obj [] None (store (s_Client sy) (world s)) M1 \<and>
           (\<exists>v. store (s_Client sy) (world s') =
               M1(okey obj := persisted (removeAllFinalizers (finalizers X) (s_Keys sy) obj) v)) \<or>
         err \<noteq> None \<and> store (s_Client sy) (world s') = M1))"

text \<open>
  \<open>source_frame\<close> bounds every run: the spokes and the local cluster change within the
  footprint of the source, where copies are only written to the wanted namespaces, and the
  source object itself keeps everything but its finalizers and its version.
\<close>

definition selector_value :: "KeySet \<Rightarrow> object \<Rightarrow> string" where
  "selector_value ks obj = (case syncValue ks (Annotations obj) of None \<Rightarrow> [] | Some (_, v) \<Rightarrow> v)"

definition wanted_local ::
  "('c, 'w) ext \<Rightarrow> ('c \<Rightarrow> 'w \<Rightarrow> namespace list) \<Rightarrow> 'c Syncer \<Rightarrow> object \<Rightarrow> 'w \<Rightarrow> string set" where
  "wanted_local X nslist sy obj w =
     (if DeletionTimestamp obj = None \<and> isSource (s_Keys sy) obj then
        (case labels_Parse X (selector_value (s_Keys sy) obj) of
           Inl _ \<Rightarrow> {}
         | Inr selector \<Rightarrow>
             {ns. wanted_namespace (s_ExcludeNamespaces sy) obj selector (nslist (s_Client sy) w) ns})
      else {})"

text \<open>
  What a run leaves in the slot of its source: the source with finalizers of ours added or removed
  and those of others kept, or nothing, which needs that the source was being deleted and that no
  finalizer but ours held it.
\<close>

definition foreign_finalizers :: "KeySet \<Rightarrow> string list \<Rightarrow> string list" where
  "foreign_finalizers ks fs = filter (\<lambda>f. f \<notin> Finalizer ` set (each ks)) fs"

definition own_slot :: "KeySet \<Rightarrow> object \<Rightarrow> object option \<Rightarrow> bool" where
  "own_slot ks obj new \<longleftrightarrow>
     (case new of
        None \<Rightarrow> DeletionTimestamp obj \<noteq> None \<and> foreign_finalizers ks (Finalizers obj) = []
      | Some x \<Rightarrow> (\<exists>f v. x = obj\<lparr>Finalizers := f, ResourceVersion := v\<rparr> \<and>
          foreign_finalizers ks f = foreign_finalizers ks (Finalizers obj)))"

definition source_frame ::
  "('c \<Rightarrow> 'w \<Rightarrow> okey \<Rightarrow> object option) \<Rightarrow> 'c Syncer \<Rightarrow> object \<Rightarrow> string set \<Rightarrow> (('cfg, 'c, 'w) ClusterRegistry, 'w) st \<Rightarrow>
     (('cfg, 'c, 'w) ClusterRegistry, 'w) st \<Rightarrow> bool" where
  "source_frame store sy obj N s s' \<longleftrightarrow>
     registry s' = registry s \<and> channels s' = channels s \<and>
     spoke_frame store sy obj (source_targets (s_Keys sy) obj) s s' \<and>
     footprint (s_Keys sy) obj [] N (store (s_Client sy) (world s))
       ((store (s_Client sy) (world s'))(okey obj := store (s_Client sy) (world s) (okey obj))) \<and>
     own_slot (s_Keys sy) obj (store (s_Client sy) (world s') (okey obj))"

definition spokes_converged ::
  "('c \<Rightarrow> 'w \<Rightarrow> okey \<Rightarrow> object option) \<Rightarrow> 'c Syncer \<Rightarrow> object \<Rightarrow> (('cfg, 'c, 'w) ClusterRegistry, 'w) st \<Rightarrow> bool \<Rightarrow>
     (('cfg, 'c, 'w) ClusterRegistry, 'w) st \<Rightarrow> bool" where
  "spokes_converged store sy obj s failed s' \<longleftrightarrow>
     (case registry s of
        None \<Rightarrow> \<not> failed \<and> (\<forall>c. c \<noteq> s_Client sy \<longrightarrow> store c (world s') = store c (world s))
      | Some rg \<Rightarrow>
          if targetClustersValue (s_Keys sy) (Annotations obj) = None
          then \<not> failed \<and> (\<forall>c. c \<noteq> s_Client sy \<longrightarrow> store c (world s') = store c (world s))
          else \<not> failed \<longrightarrow> (\<forall>cid c. only_as rg cid c \<longrightarrow>
            synced (s_Keys sy) obj (s_HubClusterUID sy) (spoke_keep obj (source_targets (s_Keys sy) obj) cid)
              (store c (world s)) (store c (world s'))))"

definition active_post ::
  "('c \<Rightarrow> 'w \<Rightarrow> okey \<Rightarrow> object option) \<Rightarrow> 'c Syncer \<Rightarrow> object \<Rightarrow> string_set \<Rightarrow> (('cfg, 'c, 'w) ClusterRegistry, 'w) st \<Rightarrow>
     (Result \<times> error option) outcome \<Rightarrow> (('cfg, 'c, 'w) ClusterRegistry, 'w) st \<Rightarrow> bool" where
  "active_post store sy obj keep s r s' \<longleftrightarrow>
     (case r of
        Panic \<Rightarrow> False
      | Ret (res, Some e) \<Rightarrow>
          res = zero_Result \<and> (\<forall>c. c \<noteq> s_Client sy \<longrightarrow> store c (world s') = store c (world s))
      | Ret (res, None) \<Rightarrow>
          synced (s_Keys sy) obj [] keep (store (s_Client sy) (world s)) (store (s_Client sy) (world s')) \<and>
          (\<exists>failed. res = (if failed then \<lparr>RequeueAfter = remoteRetryInterval\<rparr> else zero_Result) \<and>
             spokes_converged store sy obj s failed s'))"

context platform begin

definition local_inv ::
  "'c Syncer \<Rightarrow> object \<Rightarrow> ('r, 'w) st \<Rightarrow> string list \<Rightarrow> ('r, 'w) st \<Rightarrow> bool" where
  "local_inv sy obj s0 ys s \<longleftrightarrow>
     registry s = registry s0 \<and> channels s = channels s0 \<and>
     (\<forall>c. c \<noteq> s_Client sy \<longrightarrow> store c (world s) = store c (world s0)) \<and>
     footprint (s_Keys sy) obj [] (set ys) (store (s_Client sy) (world s0)) (store (s_Client sy) (world s)) \<and>
     upserted (s_Keys sy) obj [] (set ys) (store (s_Client sy) (world s0)) (store (s_Client sy) (world s))"

lemma local_inv_emit [simp]:
  "local_inv sy obj s0 ys (s\<lparr>effects := e\<rparr>) \<longleftrightarrow> local_inv sy obj s0 ys s"
  by (simp add: local_inv_def)

lemma local_post_emit [simp]:
  "local_post store sy obj keep s r (s'\<lparr>effects := e\<rparr>) \<longleftrightarrow> local_post store sy obj keep s r s'"
  by (simp add: local_post_def)

lemma local_inv_step:
  assumes wf: "wf_KeySet (s_Keys sy)"
    and inv: "local_inv sy obj s0 ys s" and new: "ns \<notin> set ys"
    and post: "upsert_post store (s_Keys sy) (s_Client sy) obj ns [] s (Ret (a, err)) s'"
  shows "err = None \<Longrightarrow> local_inv sy obj s0 (ys @ [ns]) s'"
    and "err = Some e \<Longrightarrow> set ys \<subseteq> keep_set keep \<Longrightarrow> ns \<in> keep_set keep \<Longrightarrow>
      local_post store sy obj keep s0 (Ret (Some e)) s'"
proof -
  let ?start = "store (s_Client sy) (world s0)" and ?M = "store (s_Client sy) (world s)"
    and ?M' = "store (s_Client sy) (world s')"
  note frame = upsert_postD [OF post] upsert_footprint [OF wf post]
  have fp: "footprint (s_Keys sy) obj [] N ?start ?M'" if "set ys \<subseteq> N" "ns \<in> N" for N
  proof (rule footprint_trans)
    show "footprint (s_Keys sy) obj [] N ?start ?M"
      using inv footprint_mono [OF _ that(1)] by (simp add: local_inv_def)
    show "footprint (s_Keys sy) obj [] N ?M ?M'"
      by (rule footprint_mono [OF frame(6)]) (use that(2) in simp)
  qed
  show "local_inv sy obj s0 (ys @ [ns]) s'" if "err = None"
  proof -
    have "upserted (s_Keys sy) obj [] (insert ns (set ys)) ?start ?M'"
      using inv upserted_step [OF _ new post [unfolded that]] unfolding local_inv_def by blast
    then show ?thesis
      using inv frame fp [of "insert ns (set ys)"] by (auto simp: local_inv_def)
  qed
  show "local_post store sy obj keep s0 (Ret (Some e)) s'" if "set ys \<subseteq> keep_set keep" "ns \<in> keep_set keep"
    using inv frame fp [OF that] by (auto simp: local_inv_def local_post_def)
qed

lemma wp_upsertTarget:
  assumes wf: "wf_KeySet (s_Keys sy)" and kind: "objKind obj \<noteq> OtherKind"
    and inv: "local_inv sy obj s0 ys s" and new: "ns \<notin> set ys"
    and keep: "set ys \<subseteq> keep_set keep" "ns \<in> keep_set keep"
  shows "wp (upsertTarget X sy obj ns n)
    (\<lambda>f s'. case f of
       Next _ \<Rightarrow> local_inv sy obj s0 (ys @ [ns]) s'
     | Return r \<Rightarrow> local_post store sy obj keep s0 r s') s"
  unfolding upsertTarget_def wp_step_call
proof (rule wp_mono [OF wp_upsertCopy [OF wf kind]], goal_cases)
  case (1 r s')
  obtain act err where r: "r = Ret (act, err)"
    using upsert_postD(5) [OF 1] by (cases r) auto
  show ?case
    using local_inv_step [OF wf inv new 1 [unfolded r]] keep
    by (auto simp: r wp_rules split: option.splits)
qed

lemma wp_replicateLocal:
  assumes wf: "wf_KeySet (s_Keys sy)" and kind: "objKind obj \<noteq> OtherKind"
    and dom: "fset (fmdom targets) = keep_set (Some targets)"
  shows "wp (replicateLocal X sy obj targets) (local_post store sy obj (Some targets) s) s"
proof -
  let ?order = "range_keys X (world s) (fmdom targets)"
  have order: "distinct ?order" "set ?order = keep_set (Some targets)"
    using range_once [of "world s" "fmdom targets"] dom by auto
  show ?thesis
    unfolding replicateLocal_def wp_bind wp_range_over
  proof (rule wp_for_range [where I = "\<lambda>ys _ t. local_inv sy obj s ys t"], goal_cases)
    case 1
    show ?case by (simp add: local_inv_def)
  next
    case (2 ys ns zs n t)
    have ns: "ns \<notin> set ys" using order(1) 2(1) by simp
    have "set ys \<subseteq> keep_set (Some targets)" "ns \<in> keep_set (Some targets)"
      unfolding order(2) [symmetric] 2(1) by auto
    from wp_upsertTarget [OF wf kind 2(2) ns this]
    show ?case by (rule wp_mono) (auto simp: wp_rules split: flow.splits)
  next
    case (3 n t)
    then have inv: "registry t = registry s" "channels t = channels s"
      "\<forall>c. c \<noteq> s_Client sy \<longrightarrow> store c (world t) = store c (world s)"
      "footprint (s_Keys sy) obj [] (keep_set (Some targets)) (store (s_Client sy) (world s)) (store (s_Client sy) (world t))"
      "upserted (s_Keys sy) obj [] (keep_set (Some targets)) (store (s_Client sy) (world s)) (store (s_Client sy) (world t))"
      by (simp_all add: local_inv_def order(2))
    show ?case
      unfolding flow.case wp_call
    proof (rule wp_mono [OF wp_deleteCopies [OF wf kind]], goal_cases)
      case (1 r s')
      then obtain d err where r: "r = Ret (d, err)" by (cases r) (auto simp: delete_post_def)
      have "synced (s_Keys sy) obj [] (Some targets) (store (s_Client sy) (world s)) (store (s_Client sy) (world s'))"
        if "err = None"
        by (rule synced_intro [OF inv(5) stored_key 1 [unfolded r that]])
      moreover have "registry s' = registry t" "channels s' = channels t"
        using 1 by (simp_all add: delete_post_def)
      ultimately have "local_post store sy obj (Some targets) s (Ret err) s'"
        using inv delete_footprint(2) [OF 1] footprint_trans [OF inv(4) delete_footprint(1) [OF 1]]
        by (simp add: local_post_def)
      then show ?case
        by (auto simp: r wp_rules split: option.splits)
    qed
  qed
qed

lemma wp_replicateRemote:
  assumes wf: "wf_KeySet (s_Keys sy)" and kind: "objKind obj \<noteq> OtherKind"
  shows "wp (replicateRemote X sy obj)
    (\<lambda>r s'. \<exists>failed. r = Ret (if failed then \<lparr>RequeueAfter = remoteRetryInterval\<rparr> else zero_Result, None) \<and>
       remote_phase store sy obj s failed s') s"
proof (cases "registry s")
  case None
  then show ?thesis by (auto simp: replicateRemote_def wp_rules remote_phase_def)
next
  case (Some rg)
  show ?thesis
  proof (cases "targetClustersValue (s_Keys sy) (Annotations obj)")
    case None
    with Some show ?thesis by (auto simp: replicateRemote_def wp_rules remote_phase_def)
  next
    case (Some v)
    have "wp (reconcileRemote X sy obj) (\<lambda>r s'. \<exists>failed. r = Ret failed \<and> remote_phase store sy obj s failed s') s"
    proof (rule wp_mono [OF wp_reconcileRemote [OF wf kind \<open>registry s = Some rg\<close>]], goal_cases)
      case (1 r s')
      with Some \<open>registry s = Some rg\<close> show ?case
        by (auto simp: remote_post_def remote_phase_def remote_inv_def)
    qed
    then have "wp (call (reconcileRemote X sy obj) (\<lambda>failed.
         if failed then State_Monad.return (Ret (\<lparr>RequeueAfter = remoteRetryInterval\<rparr>, None))
         else State_Monad.return (Ret (zero_Result, None))))
      (\<lambda>r s'. \<exists>failed. r = Ret (if failed then \<lparr>RequeueAfter = remoteRetryInterval\<rparr> else zero_Result, None) \<and>
         remote_phase store sy obj s failed s') s"
      unfolding wp_call
    proof (rule wp_mono, goal_cases)
      case (1 r s')
      then obtain failed where "r = Ret failed" "remote_phase store sy obj s failed s'" by blast
      then show ?case
        by (cases failed) (auto simp: wp_rules intro: exI [of _ True] exI [of _ False])
    qed
    with Some \<open>registry s = Some rg\<close> show ?thesis by (simp add: replicateRemote_def wp_rules)
  qed
qed

lemma ids_all: "(\<forall>cid\<in>set (sorted_list_of_fset (reg_keys rg)). reg_lookup rg cid \<noteq> Some c) \<longleftrightarrow>
    (\<forall>cid. reg_lookup rg cid \<noteq> Some c)"
  using reg.ids_lookup [of _ rg] by (metis sorted_ids(2) option.distinct(1))

lemma remote_phase_local:
  "remote_phase store sy obj s failed s' \<Longrightarrow> spokes_only sy s \<Longrightarrow>
     store (s_Client sy) (world s') = store (s_Client sy) (world s)"
  unfolding remote_phase_def spokes_only_def remote_inv_def ids_all
  by (auto split: option.splits if_splits)

subsection \<open>Cleaning up\<close>

lemma spoke_frame_same:
  "(\<And>c. c \<noteq> s_Client sy \<Longrightarrow> store c (world s') = store c (world s)) \<Longrightarrow> spoke_frame store sy obj T s s'"
  by (simp add: spoke_frame_def split: option.splits)

lemma spoke_frame_then:
  assumes "spoke_frame store sy obj T s t" and "\<And>c. c \<noteq> s_Client sy \<Longrightarrow> store c (world s') = store c (world t)"
  shows "spoke_frame store sy obj T s s'"
  using assms by (cases "registry s") (auto simp: spoke_frame_def)

lemma spoke_frame_after:
  assumes "\<And>c. c \<noteq> s_Client sy \<Longrightarrow> store c (world t) = store c (world s)" "registry t = registry s"
    and "spoke_frame store sy obj T t s'"
  shows "spoke_frame store sy obj T s s'"
  using assms by (cases "registry s") (auto simp: spoke_frame_def)

lemma remote_inv_spoke_frame:
  "registry s = Some rg \<Longrightarrow> remote_inv store sy obj T rg s (sorted_list_of_fset (reg_keys rg)) failed s' \<Longrightarrow>
     spoke_frame store sy obj T s s'"
  unfolding remote_inv_def spoke_frame_def ids_all by simp

lemma remote_phase_spoke_frame:
  "remote_phase store sy obj s failed s' \<Longrightarrow> spoke_frame store sy obj (source_targets (s_Keys sy) obj) s s'"
  unfolding remote_phase_def
  by (auto split: option.splits if_splits intro: spoke_frame_same remote_inv_spoke_frame)

lemma wp_dropFinalizers:
  assumes "store (s_Client sy) (world s) (okey obj) = Some obj"
  shows "wp (dropFinalizers X sy obj)
    (\<lambda>r s'. registry s' = registry s \<and> channels s' = channels s \<and>
       (\<forall>c. c \<noteq> s_Client sy \<longrightarrow> store c (world s') = store c (world s)) \<and>
       (\<exists>err. r = Ret err \<and>
          ((\<exists>v. store (s_Client sy) (world s') = (store (s_Client sy) (world s))
               (okey obj := persisted (removeAllFinalizers (finalizers X) (s_Keys sy) obj) v)) \<or>
           err \<noteq> None \<and> store (s_Client sy) (world s') = store (s_Client sy) (world s)))) s"
proof -
  let ?new = "removeAllFinalizers (finalizers X) (s_Keys sy) obj" and ?cl = "s_Client sy"
  have key: "okey ?new = okey obj" and same: "UID obj = UID ?new" "DeletionTimestamp obj = DeletionTimestamp ?new"
    by (simp_all add: removeAllFinalizers_eq)
  have upd: "store ?cl w' = (store ?cl (world s))(okey obj := slot)"
    if "only_slot store ?cl (okey obj) (world s) w'" "store ?cl w' (okey obj) = slot" for w' slot
    using only_slotD(1) [OF that(1)] that(2) by (intro ext) simp
  have keep: "store ?cl w' = store ?cl (world s)"
    if "only_slot store ?cl (okey obj) (world s) w'" "store ?cl w' (okey obj) = Some obj" for w'
    using upd [OF that] assms by (simp add: fun_upd_idem)
  show ?thesis
    unfolding dropFinalizers_def wp_bind
  proof (rule wp_Update [where old = obj], goal_cases)
    case (4 w' v)
    then have "store ?cl w' = (store ?cl (world s))(okey obj := persisted ?new v)"
      unfolding key by (rule upd)
    moreover have "store c w' = store c (world s)" if "c \<noteq> ?cl" for c
      using 4(1) that by (rule only_slotD(2))
    ultimately show ?case by (auto simp: wp_rules IgnoreNotFound_def)
  next
    case (5 w' e v)
    have "store ?cl w' = store ?cl (world s) \<or>
        store ?cl w' = (store ?cl (world s))(okey obj := persisted ?new v)"
      using 5(3) unfolding key
    proof
      assume "store ?cl w' (okey obj) = Some obj"
      from keep [OF 5(1) [unfolded key] this] show ?thesis ..
    next
      assume "store ?cl w' (okey obj) = persisted ?new v"
      from upd [OF 5(1) [unfolded key] this] show ?thesis ..
    qed
    moreover have "store c w' = store c (world s)" if "c \<noteq> ?cl" for c
      using 5(1) that by (rule only_slotD(2))
    ultimately show ?case using 5(2) by (auto simp: wp_rules IgnoreNotFound_def)
  qed (use assms same in \<open>simp_all add: key\<close>)
qed

lemma delete_post_self:
  assumes "delete_post store ks cl obj keep oc s r s'" and "\<not> copy_of ks obj obj"
    and "store cl (world s) (okey obj) = Some obj"
  shows "store cl (world s') (okey obj) = Some obj"
proof -
  obtain D where D: "pruned (prunable ks obj keep oc) D (store cl (world s)) (store cl (world s'))"
    using assms(1) unfolding delete_post_def by blast
  have "okey obj \<notin> D"
  proof
    assume "okey obj \<in> D"
    from prunedD(3) [OF D this] assms(2,3) show False by (auto simp: prunable_def)
  qed
  with prunedD(1) [OF D this] assms(3) show ?thesis by simp
qed

lemma wp_finish_cleanup:
  assumes self: "store (s_Client sy) (world t) (okey obj) = Some obj"
    and frame: "registry t = registry s" "channels t = channels s" "spoke_frame store sy obj None s t"
    and fp: "footprint (s_Keys sy) obj [] {} (store (s_Client sy) (world s)) (store (s_Client sy) (world t))"
    and sync: "synced (s_Keys sy) obj [] None (store (s_Client sy) (world s)) (store (s_Client sy) (world t))"
  shows "wp (dropFinalizers X sy obj) (cleanup_post X store sy obj s) t"
proof (rule wp_mono [OF wp_dropFinalizers [OF self]], goal_cases)
  case (1 r s')
  then have "spoke_frame store sy obj None s s'"
    by (intro spoke_frame_then [OF frame(3)]) auto
  moreover obtain err where "r = Ret err"
    and "(\<exists>v. store (s_Client sy) (world s') = (store (s_Client sy) (world t))
        (okey obj := persisted (removeAllFinalizers (finalizers X) (s_Keys sy) obj) v)) \<or>
      err \<noteq> None \<and> store (s_Client sy) (world s') = store (s_Client sy) (world t)"
    using 1 by blast
  ultimately show ?case
    using 1 frame(1,2) fp sync self unfolding cleanup_post_def
    by (intro conjI exI [of _ err] exI [of _ "store (s_Client sy) (world t)"]) auto
qed

lemma wp_cleanup:
  assumes wf: "wf_KeySet (s_Keys sy)" and kind: "objKind obj \<noteq> OtherKind"
    and fin: "hasFinalizer (finalizers X) (s_Keys sy) obj"
    and self: "store (s_Client sy) (world s) (okey obj) = Some obj" "\<not> copy_of (s_Keys sy) obj obj"
    and spokes: "spokes_only sy s"
  shows "wp (cleanupAndRemoveFinalizer X sy obj) (cleanup_post X store sy obj s) s"
  unfolding cleanupAndRemoveFinalizer_def if_not_P [of "\<not> hasFinalizer (finalizers X) (s_Keys sy) obj",
      unfolded not_not, OF fin] wp_call
proof (rule wp_mono [OF wp_deleteCopies [OF wf kind]], goal_cases)
  case (1 r t)
  let ?cl = "s_Client sy"
  obtain n err where r: "r = Ret (n, err)" using 1 by (cases r) (auto simp: delete_post_def)
  have reg: "registry t = registry s" "channels t = channels s" using 1 by (simp_all add: delete_post_def)
  have self': "store ?cl (world t) (okey obj) = Some obj"
    using delete_post_self [OF 1 self(2,1)] .
  have fp: "footprint (s_Keys sy) obj [] {} (store ?cl (world s)) (store ?cl (world t))"
    by (rule delete_footprint(1) [OF 1])
  have frame: "spoke_frame store sy obj None s t"
    using delete_footprint(2) [OF 1] by (intro spoke_frame_same)
  show ?case
  proof (cases err)
    case (Some e)
    then show ?thesis
      using reg self' fp frame by (auto simp: r wp_rules cleanup_post_def)
  next
    case None
    have sync: "synced (s_Keys sy) obj [] None (store ?cl (world s)) (store ?cl (world t))"
      by (rule synced_intro [OF _ stored_key 1 [unfolded r None]]) simp
    let ?u = "t\<lparr>effects := effects t @
      (if n > 0 then [CounterAdd copyOperationsTotal [kindOf obj, ''deleted''] n] else [])\<rparr>"
    have local: "wp (dropFinalizers X sy obj) (cleanup_post X store sy obj s) u"
      if "registry u = registry t" "channels u = channels t" "spoke_frame store sy obj None s u"
        "store ?cl (world u) = store ?cl (world t)" for u
      by (rule wp_finish_cleanup) (use that self' reg fp sync in simp_all)
    show ?thesis
    proof (cases "registry s")
      case None
      then show ?thesis
        using reg frame local [of ?u]
        by (simp add: r \<open>err = None\<close> wp_rules spoke_frame_def)
    next
      case (Some rg)
      then have "registry ?u = Some rg" using reg by simp
      have "wp (call (deleteRemoteCopies X sy obj) (\<lambda>err.
          case err of
            Some err \<Rightarrow> State_Monad.return (Ret (Some err))
          | None \<Rightarrow> dropFinalizers X sy obj)) (cleanup_post X store sy obj s) ?u"
        unfolding wp_call
      proof (rule wp_mono [OF wp_deleteRemoteCopies [OF wf kind \<open>registry ?u = Some rg\<close>]], goal_cases)
        case (1 e v)
        then obtain failed where inv: "remote_inv store sy obj None rg ?u (sorted_list_of_fset (reg_keys rg)) failed v"
          by (auto simp: remote_purged_def simp del: remote_inv_emit)
        have "store ?cl (world v) = store ?cl (world ?u)"
          using inv spokes Some unfolding remote_inv_def ids_all by (simp add: spokes_only_def)
        moreover have "spoke_frame store sy obj None s v"
        proof (rule spoke_frame_after)
          show "spoke_frame store sy obj None ?u v"
            using inv \<open>registry ?u = Some rg\<close> by (intro remote_inv_spoke_frame)
        qed (use delete_footprint(2) [OF \<open>delete_post store (s_Keys sy) (s_Client sy) obj None [] s r t\<close>] reg in simp_all)
        ultimately show ?case
          using 1 inv Some reg local [of v] by (simp add: remote_inv_def)
      qed
      then show ?thesis
        using Some reg
        by (simp add: r \<open>err = None\<close> wp_countDeleted wp_get wp_bind)
    qed
  qed
qed

subsection \<open>The whole reconciliation\<close>

lemma own_slot_self [simp]: "own_slot ks obj (Some obj)"
  unfolding own_slot_def
  by (auto intro!: exI [of _ "Finalizers obj"] exI [of _ "ResourceVersion obj"])

lemma own_slot_persisted:
  assumes "foreign_finalizers ks f = foreign_finalizers ks (Finalizers obj)"
  shows "own_slot ks obj (persisted (obj\<lparr>Finalizers := f\<rparr>) v)"
proof (cases "DeletionTimestamp obj \<noteq> None \<and> f = []")
  case True
  with assms show ?thesis by (auto simp: own_slot_def persisted_def foreign_finalizers_def)
next
  case False
  then have "persisted (obj\<lparr>Finalizers := f\<rparr>) v = Some (obj\<lparr>Finalizers := f, ResourceVersion := v\<rparr>)"
    by (auto simp: persisted_def)
  with assms show ?thesis by (auto simp: own_slot_def)
qed

lemma foreign_removeAllFinalizers:
  "own_slot ks obj (persisted (removeAllFinalizers (finalizers X) ks obj) v)"
  unfolding removeAllFinalizers_eq by (rule own_slot_persisted) (simp add: foreign_finalizers_def)

lemma foreign_reconcileFinalizer:
  assumes "wf_KeySet ks" and "reconcileFinalizer (finalizers X) ks obj = (obj', b)"
  shows "foreign_finalizers ks (Finalizers obj') = foreign_finalizers ks (Finalizers obj)"
proof -
  let ?L = "Finalizer ` set (Legacy ks)" and ?P = "Finalizer (Primary ks)"
  have "filter (\<lambda>f. f \<notin> insert ?P ?L) (filter (\<lambda>f. f \<notin> ?L) fs) = filter (\<lambda>f. f \<notin> insert ?P ?L) fs" for fs
    by (simp only: filter_filter, rule filter_cong) auto
  moreover have "Finalizers obj' = filter (\<lambda>f. f \<notin> ?L) (Finalizers obj) @ (if ?P \<in> set (Finalizers obj) then [] else [?P])"
    using assms(2) unfolding reconcileFinalizer_eq [OF assms(1)] by auto
  ultimately show ?thesis
    by (simp add: foreign_finalizers_def del: insert_iff) simp
qed

lemma source_frame_emit [simp]:
  "source_frame store sy obj N s (s'\<lparr>effects := e\<rparr>) \<longleftrightarrow> source_frame store sy obj N s s'"
  by (cases "registry s") (simp_all add: source_frame_def spoke_frame_def)

lemma wanted_on_None [simp]: "wanted_on rg obj None c = {}"
  by (simp add: wanted_on_def spoke_keep_def target_lookup_def)

lemma spoke_frame_targets: "spoke_frame store sy obj None s s' \<Longrightarrow> spoke_frame store sy obj T s s'"
  by (cases "registry s") (auto simp: spoke_frame_def intro: footprint_mono [of _ _ _ "{}"])

lemma source_frame_idle:
  assumes "store (s_Client sy) (world s) (okey obj) = Some obj"
    and "registry s' = registry s" "channels s' = channels s"
    and "\<And>c. store c (world s') = store c (world s)"
  shows "source_frame store sy obj N s s'"
  using assms by (simp add: source_frame_def spoke_frame_same fun_upd_idem)

lemma cleanup_frame:
  assumes post: "cleanup_post X store sy obj s r s'"
    and self: "store (s_Client sy) (world s) (okey obj) = Some obj"
  shows "source_frame store sy obj N s s'" and "\<exists>err. r = Ret err"
proof -
  let ?M = "store (s_Client sy) (world s)" and ?M' = "store (s_Client sy) (world s')"
  obtain err M1 where r: "r = Ret err" and fp: "footprint (s_Keys sy) obj [] {} ?M M1"
    and M1: "M1 (okey obj) = Some obj"
    and M': "(\<exists>v. ?M' = M1(okey obj := persisted (removeAllFinalizers (finalizers X) (s_Keys sy) obj) v)) \<or> ?M' = M1"
    using post unfolding cleanup_post_def by blast
  show "\<exists>err. r = Ret err" using r by blast
  have slot: "own_slot (s_Keys sy) obj (?M' (okey obj))"
    using M' M1 foreign_removeAllFinalizers by auto
  have "?M'(okey obj := ?M (okey obj)) = M1" using M' M1 self by (auto simp: fun_upd_idem)
  then have "footprint (s_Keys sy) obj [] N ?M (?M'(okey obj := ?M (okey obj)))"
    using footprint_mono [OF fp] by simp
  with slot post show "source_frame store sy obj N s s'"
    by (simp add: source_frame_def cleanup_post_def spoke_frame_targets)
qed

text \<open>Updating the finalizers of a source.\<close>

lemma wp_add_finalizer:
  assumes self: "store (s_Client sy) (world s) (okey obj) = Some obj"
    and new: "obj' = obj\<lparr>Finalizers := f\<rparr>" and live: "DeletionTimestamp obj = None"
    and foreign: "foreign_finalizers (s_Keys sy) f = foreign_finalizers (s_Keys sy) (Finalizers obj)"
  shows "wp (Update X (s_Client sy) obj')
    (\<lambda>r s'. effects s' = effects s \<and> source_frame store sy obj N s s' \<and>
       (\<forall>c k. (c, k) \<noteq> (s_Client sy, okey obj) \<longrightarrow> store c (world s') k = store c (world s) k) \<and>
       (r = Inr () \<longrightarrow> (\<exists>v. store (s_Client sy) (world s') (okey obj) = Some (obj'\<lparr>ResourceVersion := v\<rparr>))) \<and>
       (\<forall>e. r = Inl e \<longrightarrow> \<not> IsNotFound e)) s"
proof -
  let ?cl = "s_Client sy"
  have key: "okey obj' = okey obj" and kept: "persisted obj' v = Some (obj'\<lparr>ResourceVersion := v\<rparr>)" for v
    using live by (simp_all add: new persisted_def)
  have frame: "source_frame store sy obj N s (s\<lparr>world := w'\<rparr>)"
    if only: "only_slot store ?cl (okey obj) (world s) w'" and slot: "own_slot (s_Keys sy) obj (store ?cl w' (okey obj))" for w'
  proof -
    have "(store ?cl w')(okey obj := store ?cl (world s) (okey obj)) = store ?cl (world s)"
      using only_slotD(1) [OF only] by (intro ext) simp
    moreover have "spoke_frame store sy obj T s (s\<lparr>world := w'\<rparr>)" for T
      by (rule spoke_frame_same) (use only_slotD(2) [OF only] in simp)
    ultimately show ?thesis using slot by (simp add: source_frame_def)
  qed
  have slot: "own_slot (s_Keys sy) obj (Some (obj'\<lparr>ResourceVersion := v\<rparr>))" for v
    using own_slot_persisted [OF foreign, of v] by (simp add: kept flip: new)
  have only: "\<forall>c k. (c, k) \<noteq> (?cl, okey obj) \<longrightarrow> store c w' k = store c (world s) k"
    if "only_slot store ?cl (okey obj) (world s) w'" for w'
    using that by (simp add: only_slot_def)
  show ?thesis
  proof (rule wp_Update [where old = obj], goal_cases)
    case (4 w' v)
    then have *: "only_slot store ?cl (okey obj) (world s) w'"
      "store ?cl w' (okey obj) = Some (obj'\<lparr>ResourceVersion := v\<rparr>)"
      by (simp_all add: key kept)
    then show ?case using frame [OF *(1)] slot [of v] only [OF *(1)] by auto
  next
    case (5 w' e v)
    then have *: "only_slot store ?cl (okey obj) (world s) w'"
      "store ?cl w' (okey obj) = Some obj \<or> store ?cl w' (okey obj) = Some (obj'\<lparr>ResourceVersion := v\<rparr>)"
      by (simp_all add: key kept)
    then have "own_slot (s_Keys sy) obj (store ?cl w' (okey obj))" using slot [of v] by auto
    then show ?case using frame [OF *(1)] only [OF *(1)] 5(2) by auto
  qed (use self new in \<open>simp_all add: key\<close>)
qed

lemma remote_phase_converged:
  assumes phase: "remote_phase store sy obj t failed s'"
    and t: "registry t = registry s" "\<And>c. c \<noteq> s_Client sy \<Longrightarrow> store c (world t) = store c (world s)"
    and spokes: "spokes_only sy s"
  shows "spokes_converged store sy obj s failed s'"
proof (cases "registry s")
  case None
  with phase t show ?thesis by (simp add: remote_phase_def spokes_converged_def)
next
  case (Some rg)
  show ?thesis
  proof (cases "targetClustersValue (s_Keys sy) (Annotations obj)")
    case None
    with phase t Some show ?thesis by (simp add: remote_phase_def spokes_converged_def)
  next
    case (Some v)
    have "synced (s_Keys sy) obj (s_HubClusterUID sy) (spoke_keep obj (source_targets (s_Keys sy) obj) cid)
        (store c (world s)) (store c (world s'))" if "\<not> failed" "only_as rg cid c" for cid c
    proof -
      have lookup: "reg_lookup rg cid = Some c" using that(2) by (simp add: only_as_def)
      then have "c \<noteq> s_Client sy" using spokes \<open>registry s = Some rg\<close> by (auto simp: spokes_only_def)
      moreover have "cid \<in> set (sorted_list_of_fset (reg_keys rg))"
        using reg.ids_lookup [of cid rg] lookup by simp
      moreover have "remote_inv store sy obj (source_targets (s_Keys sy) obj) rg t
          (sorted_list_of_fset (reg_keys rg)) failed s'"
        using phase t(1) Some \<open>registry s = Some rg\<close> by (simp add: remote_phase_def)
      ultimately show ?thesis
        using that t(2) [of c] unfolding remote_inv_def by metis
    qed
    with Some \<open>registry s = Some rg\<close> show ?thesis by (simp add: spokes_converged_def)
  qed
qed

lemma wp_replicate:
  assumes wf: "wf_KeySet (s_Keys sy)" and kind: "objKind obj \<noteq> OtherKind"
    and dom: "fset (fmdom targets) = keep_set (Some targets)" "Namespace obj \<notin> keep_set (Some targets)"
    and self: "store (s_Client sy) (world s) (okey obj) = Some obj" "\<not> copy_of (s_Keys sy) obj obj"
    and spokes: "spokes_only sy s"
  shows "wp (call (replicateLocal X sy obj targets) (\<lambda>err.
        case err of
          Some err \<Rightarrow> State_Monad.return (Ret (zero_Result, Some err))
        | None \<Rightarrow> replicateRemote X sy obj))
    (\<lambda>r s'. source_frame store sy obj (keep_set (Some targets)) s s' \<and> active_post store sy obj (Some targets) s r s') s"
  unfolding wp_call
proof (rule wp_mono [OF wp_replicateLocal [OF wf kind dom(1)]], goal_cases)
  case (1 r t)
  let ?cl = "s_Client sy"
  have t: "registry t = registry s" "channels t = channels s"
    "\<And>c. c \<noteq> ?cl \<Longrightarrow> store c (world t) = store c (world s)"
    "footprint (s_Keys sy) obj [] (keep_set (Some targets)) (store ?cl (world s)) (store ?cl (world t))"
    using 1 by (simp_all add: local_post_def)
  have self': "store ?cl (world t) (okey obj) = Some obj"
    using t(4) self(1) dom(2) self(2) by (rule footprint_self)
  have frame: "source_frame store sy obj (keep_set (Some targets)) s s'"
    if "registry s' = registry t" "channels s' = channels t" "store ?cl (world s') = store ?cl (world t)"
      "spoke_frame store sy obj (source_targets (s_Keys sy) obj) t s'" for s'
    using that t(1,2,4) self(1) self' spoke_frame_after [OF t(3) t(1) that(4)]
    by (simp add: source_frame_def fun_upd_idem)
  obtain err where r: "r = Ret err"
    and sync: "err = None \<Longrightarrow> synced (s_Keys sy) obj [] (Some targets) (store ?cl (world s)) (store ?cl (world t))"
    using 1 unfolding local_post_def by blast
  show ?case
  proof (cases err)
    case (Some e)
    then show ?thesis
      using t frame [of t] by (simp add: r wp_rules active_post_def spoke_frame_same)
  next
    case None
    show ?thesis
      unfolding r None outcome.case option.case
    proof (rule wp_mono [OF wp_replicateRemote [OF wf kind]], goal_cases)
      case (1 r' s')
      then obtain failed where
        r': "r' = Ret (if failed then \<lparr>RequeueAfter = remoteRetryInterval\<rparr> else zero_Result, None)"
        and phase: "remote_phase store sy obj t failed s'" by blast
      have "spokes_only sy t" using spokes t(1) by (simp add: spokes_only_def)
      then have hub: "store ?cl (world s') = store ?cl (world t)"
        by (rule remote_phase_local [OF phase])
      have "source_frame store sy obj (keep_set (Some targets)) s s'"
        using phase hub remote_phase_spoke_frame [OF phase]
        by (intro frame) (simp_all add: remote_phase_def)
      moreover have "spokes_converged store sy obj s failed s'"
        using phase t(1,3) spokes by (rule remote_phase_converged)
      moreover have "synced (s_Keys sy) obj [] (Some targets) (store ?cl (world s)) (store ?cl (world s'))"
        using sync [OF None] unfolding hub .
      ultimately show ?case
        unfolding r' active_post_def outcome.case prod.case option.case by blast
    qed
  qed
qed

lemma wp_reconcileSource_active:
  assumes wf: "wf_KeySet (s_Keys sy)" and kind: "objKind obj \<noteq> OtherKind"
    and active: "DeletionTimestamp obj = None" "isSource (s_Keys sy) obj"
      "\<not> snd (reconcileFinalizer (finalizers X) (s_Keys sy) obj)"
      "labels_Parse X (selector_value (s_Keys sy) obj) = Inr selector"
    and self: "store (s_Client sy) (world s) (okey obj) = Some obj" "\<not> copy_of (s_Keys sy) obj obj"
    and spokes: "spokes_only sy s"
  shows "wp (reconcileSource X sy obj)
    (\<lambda>r s'. source_frame store sy obj (wanted_local X nslist sy obj (world s)) s s' \<and>
       active_post store sy obj (Some (targetNamespaces (s_ExcludeNamespaces sy) obj selector
         (nslist (s_Client sy) (world s)) fmempty)) s r s') s"
proof -
  have same: "reconcileFinalizer (finalizers X) (s_Keys sy) obj = (obj, False)"
    using wf active(3) by (rule reconcileFinalizer_same)
  let ?T = "targetNamespaces (s_ExcludeNamespaces sy) obj selector (nslist (s_Client sy) (world s)) fmempty"
  have wanted: "wanted_local X nslist sy obj (world s) = keep_set (Some ?T)"
    using active by (simp add: wanted_local_def targetNamespaces_keep)
  have "Namespace obj \<notin> keep_set (Some ?T)" by (simp add: targetNamespaces_keep wanted_namespace_def)
  note rep = wp_replicate [OF wf kind targetNamespaces_dom this _ self(2)]
  have frame_eq: "source_frame store sy obj N (s\<lparr>world := w'\<rparr>) s' = source_frame store sy obj N s s' \<and>
      active_post store sy obj keep (s\<lparr>world := w'\<rparr>) r s' = active_post store sy obj keep s r s'"
    if "\<And>c. store c w' = store c (world s)" for N keep w' r s'
  proof -
    have eqs: "registry (s\<lparr>world := w'\<rparr>) = registry s" "channels (s\<lparr>world := w'\<rparr>) = channels s"
      "store c (world (s\<lparr>world := w'\<rparr>)) = store c (world s)" for c
      using that by simp_all
    show ?thesis
      unfolding source_frame_def spoke_frame_def active_post_def spokes_converged_def eqs
      by (intro conjI refl)
  qed
  show ?thesis
    unfolding reconcileSource_def
    using active(1,2)
    apply (simp add: same wp_bind active(4) [unfolded selector_value_def] split del: if_split)
  proof (rule wp_ListNamespaces, goal_cases)
    case (1 w')
    have "spokes_only sy (s\<lparr>world := w'\<rparr>)" using spokes by (simp add: spokes_only_def)
    from rep [of "s\<lparr>world := w'\<rparr>", OF _ this] self(1) 1 frame_eq [OF 1(3)] wanted
    show ?case by (simp add: Let_def)
  next
    case (2 w' e)
    have "source_frame store sy obj N s (s\<lparr>world := w'\<rparr>)" for N
      using self(1) 2 by (intro source_frame_idle) simp_all
    with 2 show ?case by (simp add: wp_rules active_post_def)
  qed
qed

text \<open>Every run, on every path and whatever fails.\<close>

lemma wp_reconcileSource_frame:
  assumes wf: "wf_KeySet (s_Keys sy)" and kind: "objKind obj \<noteq> OtherKind"
    and self: "store (s_Client sy) (world s) (okey obj) = Some obj" "\<not> copy_of (s_Keys sy) obj obj"
    and spokes: "spokes_only sy s"
  shows "wp (reconcileSource X sy obj)
    (\<lambda>r s'. (\<exists>res err. r = Ret (res, err)) \<and>
       source_frame store sy obj (wanted_local X nslist sy obj (world s)) s s') s"
proof -
  let ?U = "finalizers X" and ?ks = "s_Keys sy"
  have clean: "wp (call (cleanupAndRemoveFinalizer X sy obj) (\<lambda>err. State_Monad.return (Ret (zero_Result, err))))
      (\<lambda>r s'. (\<exists>res err. r = Ret (res, err)) \<and> source_frame store sy obj N s s') s" for N
  proof (cases "hasFinalizer ?U ?ks obj")
    case True
    show ?thesis
      unfolding wp_call
      by (rule wp_mono [OF wp_cleanup [OF wf kind True self spokes]])
        (auto simp: wp_rules split: outcome.splits dest: cleanup_frame [OF _ self(1)])
  next
    case False
    then show ?thesis
      using source_frame_idle [OF self(1)] by (simp add: cleanupAndRemoveFinalizer_def wp_rules)
  qed
  consider (clean) "DeletionTimestamp obj \<noteq> None \<or> \<not> isSource ?ks obj"
    | (fin) "DeletionTimestamp obj = None" "isSource ?ks obj" "snd (reconcileFinalizer ?U ?ks obj)"
    | (bad) e where "DeletionTimestamp obj = None" "isSource ?ks obj" "\<not> snd (reconcileFinalizer ?U ?ks obj)"
        "labels_Parse X (selector_value ?ks obj) = Inl e"
    | (ok) sel where "DeletionTimestamp obj = None" "isSource ?ks obj" "\<not> snd (reconcileFinalizer ?U ?ks obj)"
        "labels_Parse X (selector_value ?ks obj) = Inr sel"
    by (cases "labels_Parse X (selector_value ?ks obj)") auto
  then show ?thesis
  proof cases
    case clean
    then show ?thesis
      using \<open>\<And>N. wp _ _ s\<close> source_frame_idle [OF self(1)]
      by (auto simp: reconcileSource_def wp_rules)
  next
    case fin
    obtain obj' where obj': "reconcileFinalizer ?U ?ks obj = (obj', True)"
      using fin(3) by (metis (full_types) prod.collapse)
    have new: "obj' = obj\<lparr>Finalizers := Finalizers obj'\<rparr>"
      using obj' by (auto simp: reconcileFinalizer_eq [OF wf])
    have "wp (Update X (s_Client sy) obj') (\<lambda>r s'. source_frame store sy obj N s s') s" for N
      by (rule wp_mono [OF wp_add_finalizer [OF self(1) new fin(1) foreign_reconcileFinalizer [OF wf obj']]]) blast
    then have "wp (Update X (s_Client sy) obj')
         (\<lambda>a. wp (case a of
              Inl err \<Rightarrow> State_Monad.return (Ret (zero_Result, IgnoreNotFound (Some err)))
            | Inr x \<Rightarrow> State_Monad.return (Ret (zero_Result, None)))
           (\<lambda>r s'. (\<exists>res err. r = Ret (res, err)) \<and>
              source_frame store sy obj (wanted_local X nslist sy obj (world s)) s s')) s"
      by (rule wp_mono) (auto simp: wp_rules split: sum.splits)
    then show ?thesis using fin by (simp add: reconcileSource_def obj' wp_bind)
  next
    case (bad e)
    have "reconcileFinalizer ?U ?ks obj = (obj, False)"
      using wf bad(3) by (rule reconcileFinalizer_same)
    with bad show ?thesis
      using source_frame_idle [OF self(1)]
      by (simp add: reconcileSource_def wp_rules selector_value_def)
  next
    case (ok sel)
    show ?thesis
      by (rule wp_mono [OF wp_reconcileSource_active [OF wf kind ok self spokes]])
        (auto simp: active_post_def split: outcome.splits)
  qed
qed

end

subsection \<open>What a reconciliation does to other objects, without assumptions on the source\<close>

definition others_frame ::
  "('c \<Rightarrow> 'w \<Rightarrow> okey \<Rightarrow> object option) \<Rightarrow> 'c Syncer \<Rightarrow> object \<Rightarrow> string set \<Rightarrow>
     (('cfg, 'c, 'w) ClusterRegistry, 'w) st \<Rightarrow> (('cfg, 'c, 'w) ClusterRegistry, 'w) st \<Rightarrow> bool" where
  "others_frame store sy obj N s s' \<longleftrightarrow>
     registry s' = registry s \<and> channels s' = channels s \<and>
     spoke_frame store sy obj (source_targets (s_Keys sy) obj) s s' \<and>
     footprint (s_Keys sy) obj [] N (store (s_Client sy) (world s))
       ((store (s_Client sy) (world s'))(okey obj := store (s_Client sy) (world s) (okey obj)))"

lemma footprint_but:
  assumes "footprint ks src oc N M M1" and "\<And>k. k \<noteq> key \<Longrightarrow> M' k = M1 k"
  shows "footprint ks src oc N M (M'(key := M key))"
  unfolding footprint_def
proof
  fix k
  show "(M'(key := M key)) k = M k \<or>
      ownable ks src oc (M k) \<and> ownable ks src oc ((M'(key := M key)) k) \<and>
      (k \<in> copy_keys src N \<or> only_deleted ks src (M k) ((M'(key := M key)) k))"
    using assms(1) assms(2) [of k] unfolding footprint_def by (cases "k = key") auto
qed

context platform begin

lemma others_frame_emit [simp]:
  "others_frame store sy obj N s (s'\<lparr>effects := e\<rparr>) \<longleftrightarrow> others_frame store sy obj N s s'"
  by (cases "registry s") (simp_all add: others_frame_def spoke_frame_def)

lemma others_frame_idle:
  assumes "registry s' = registry s" "channels s' = channels s"
    and "\<And>c. store c (world s') = store c (world s)"
  shows "others_frame store sy obj N s s'"
  using assms by (simp add: others_frame_def spoke_frame_same)

lemma others_frameI:
  assumes "registry s' = registry s" "channels s' = channels s"
    and "spoke_frame store sy obj (source_targets (s_Keys sy) obj) s s'"
    and "footprint (s_Keys sy) obj [] N (store (s_Client sy) (world s)) M1"
    and "\<And>k. k \<noteq> okey obj \<Longrightarrow> store (s_Client sy) (world s') k = M1 k"
  shows "others_frame store sy obj N s s'"
  using assms footprint_but [OF assms(4,5)] by (simp add: others_frame_def)

lemma wp_Update_slot:
  assumes "\<And>r w'. only_slot store cl (okey obj) (world s) w' \<Longrightarrow> Q r (s\<lparr>world := w'\<rparr>)"
  shows "wp (Update X cl obj) Q s"
proof -
  obtain r w' where r: "client_update X cl obj (world s) = (r, w')" by (rule prod.exhaust)
  have "only_slot store cl (okey obj) (world s) w'"
    using update_frame [OF r] by (simp add: only_slot_def)
  with r assms show ?thesis by (simp add: Update_def wp_api)
qed

lemma wp_finish_others:
  assumes fin: "\<And>r w'. only_slot store (s_Client sy) (okey obj) (world t) w' \<Longrightarrow>
      Q r (t\<lparr>world := w'\<rparr>)"
    and key: "okey new = okey obj"
  shows "wp (Update X (s_Client sy) new) Q t"
  by (rule wp_Update_slot) (use fin key in simp)

lemma others_after_slot:
  assumes t: "registry t = registry s" "channels t = channels s"
      "spoke_frame store sy obj (source_targets (s_Keys sy) obj) s t"
      "footprint (s_Keys sy) obj [] N (store (s_Client sy) (world s)) (store (s_Client sy) (world t))"
    and only: "only_slot store (s_Client sy) (okey obj) (world t) w'"
  shows "others_frame store sy obj N s (t\<lparr>world := w'\<rparr>)"
proof (rule others_frameI [OF _ _ _ t(4)])
  show "spoke_frame store sy obj (source_targets (s_Keys sy) obj) s (t\<lparr>world := w'\<rparr>)"
    by (rule spoke_frame_then [OF t(3)]) (use only_slotD(2) [OF only] in simp)
qed (use t only_slotD(1) [OF only] in simp_all)

lemma wp_cleanup_others:
  assumes wf: "wf_KeySet (s_Keys sy)" and kind: "objKind obj \<noteq> OtherKind" and spokes: "spokes_only sy s"
  shows "wp (cleanupAndRemoveFinalizer X sy obj)
    (\<lambda>r s'. (\<exists>err. r = Ret err) \<and> others_frame store sy obj N s s') s"
proof (cases "hasFinalizer (finalizers X) (s_Keys sy) obj")
  case False
  then show ?thesis by (simp add: cleanupAndRemoveFinalizer_def wp_rules others_frame_idle)
next
  case True
  let ?cl = "s_Client sy" and ?Q = "\<lambda>r s'. (\<exists>err. r = Ret err) \<and> others_frame store sy obj N s s'"
  have key: "okey (removeAllFinalizers (finalizers X) (s_Keys sy) obj) = okey obj"
    by (simp add: removeAllFinalizers_eq)
  have drop: "wp (dropFinalizers X sy obj) ?Q t"
    if "registry t = registry s" "channels t = channels s" "spoke_frame store sy obj None s t"
      "footprint (s_Keys sy) obj [] N (store ?cl (world s)) (store ?cl (world t))" for t
    unfolding dropFinalizers_def wp_bind
    by (rule wp_finish_others [where obj = obj])
      (use others_after_slot [OF that(1,2) spoke_frame_targets [OF that(3)] that(4)] key
        in \<open>simp_all add: wp_rules\<close>)
  show ?thesis
    unfolding cleanupAndRemoveFinalizer_def if_not_P [of "\<not> hasFinalizer (finalizers X) (s_Keys sy) obj",
        unfolded not_not, OF True] wp_call
  proof (rule wp_mono [OF wp_deleteCopies [OF wf kind]], goal_cases)
    case (1 r t)
    obtain n err where r: "r = Ret (n, err)" using 1 by (cases r) (auto simp: delete_post_def)
    have reg: "registry t = registry s" "channels t = channels s" using 1 by (simp_all add: delete_post_def)
    note fp = delete_footprint(1) [OF 1, of N]
    have frame: "spoke_frame store sy obj None s t"
      using delete_footprint(2) [OF 1] by (intro spoke_frame_same)
    show ?case
    proof (cases err)
      case (Some e)
      have "others_frame store sy obj N s t"
        by (rule others_frameI [OF reg spoke_frame_targets [OF frame] fp]) simp
      with Some show ?thesis by (simp add: r wp_rules)
    next
      case None
      let ?u = "t\<lparr>effects := effects t @
        (if n > 0 then [CounterAdd copyOperationsTotal [kindOf obj, ''deleted''] n] else [])\<rparr>"
      have fu: "spoke_frame store sy obj None s ?u"
        by (rule spoke_frame_then [OF frame]) simp
      show ?thesis
      proof (cases "registry s")
        case None
        then show ?thesis
          using reg fu fp drop [of ?u] by (simp add: r \<open>err = None\<close> wp_rules)
      next
        case (Some rg)
        then have ru: "registry ?u = Some rg" using reg by simp
        have "wp (call (deleteRemoteCopies X sy obj) (\<lambda>err.
            case err of
              Some err \<Rightarrow> State_Monad.return (Ret (Some err))
            | None \<Rightarrow> dropFinalizers X sy obj)) ?Q ?u"
          unfolding wp_call
        proof (rule wp_mono [OF wp_deleteRemoteCopies [OF wf kind ru]], goal_cases)
          case (1 e v)
          then obtain failed where
            inv: "remote_inv store sy obj None rg ?u (sorted_list_of_fset (reg_keys rg)) failed v"
            by (auto simp: remote_purged_def simp del: remote_inv_emit)
          have hub: "store ?cl (world v) = store ?cl (world ?u)"
            using inv spokes Some unfolding remote_inv_def ids_all by (simp add: spokes_only_def)
          have v: "registry v = registry s" "channels v = channels s"
            using inv Some reg by (simp_all add: remote_inv_def)
          have "spoke_frame store sy obj None s v"
          proof (rule spoke_frame_after)
            show "spoke_frame store sy obj None ?u v" using ru inv by (rule remote_inv_spoke_frame)
          qed (use delete_footprint(2) [OF \<open>delete_post store (s_Keys sy) ?cl obj None [] s r t\<close>] reg in simp_all)
          then show ?case using 1 v fp hub by (simp add: drop)
        qed
        then show ?thesis
          using Some reg by (simp add: r \<open>err = None\<close> wp_countDeleted wp_get wp_bind)
      qed
    qed
  qed
qed

lemma wp_replicate_others:
  assumes wf: "wf_KeySet (s_Keys sy)" and kind: "objKind obj \<noteq> OtherKind"
    and dom: "fset (fmdom targets) = keep_set (Some targets)" and spokes: "spokes_only sy s"
  shows "wp (call (replicateLocal X sy obj targets) (\<lambda>err.
        case err of
          Some err \<Rightarrow> State_Monad.return (Ret (zero_Result, Some err))
        | None \<Rightarrow> replicateRemote X sy obj))
    (\<lambda>r s'. (\<exists>res err. r = Ret (res, err)) \<and> others_frame store sy obj (keep_set (Some targets)) s s') s"
  unfolding wp_call
proof (rule wp_mono [OF wp_replicateLocal [OF wf kind dom]], goal_cases)
  case (1 r t)
  let ?cl = "s_Client sy"
  have t: "registry t = registry s" "channels t = channels s"
    "\<And>c. c \<noteq> ?cl \<Longrightarrow> store c (world t) = store c (world s)"
    "footprint (s_Keys sy) obj [] (keep_set (Some targets)) (store ?cl (world s)) (store ?cl (world t))"
    using 1 by (simp_all add: local_post_def)
  obtain err where r: "r = Ret err" using 1 unfolding local_post_def by blast
  show ?case
  proof (cases err)
    case (Some e)
    then show ?thesis
      using others_frameI [OF t(1,2) spoke_frame_same [OF t(3)] t(4)] by (simp add: r wp_rules)
  next
    case None
    show ?thesis
      unfolding r None outcome.case option.case
    proof (rule wp_mono [OF wp_replicateRemote [OF wf kind]], goal_cases)
      case (1 r' s')
      then obtain failed where phase: "remote_phase store sy obj t failed s'"
        and r': "\<exists>res err. r' = Ret (res, err)" by blast
      have "spokes_only sy t" using spokes t(1) by (simp add: spokes_only_def)
      then have hub: "store ?cl (world s') = store ?cl (world t)"
        by (rule remote_phase_local [OF phase])
      have "registry s' = registry s" "channels s' = channels s"
        using phase t(1,2) by (simp_all add: remote_phase_def)
      from others_frameI [OF this spoke_frame_after [OF t(3) t(1) remote_phase_spoke_frame [OF phase]] t(4)]
      show ?case using r' hub by simp
    qed
  qed
qed

lemma wp_reconcileSource_others:
  assumes wf: "wf_KeySet (s_Keys sy)" and kind: "objKind obj \<noteq> OtherKind" and spokes: "spokes_only sy s"
  shows "wp (reconcileSource X sy obj)
    (\<lambda>r s'. (\<exists>res err. r = Ret (res, err)) \<and>
       others_frame store sy obj (wanted_local X nslist sy obj (world s)) s s') s"
proof -
  let ?U = "finalizers X" and ?ks = "s_Keys sy" and ?N = "wanted_local X nslist sy obj (world s)"
  let ?Q = "\<lambda>r s'. (\<exists>res err. r = Ret (res, err)) \<and> others_frame store sy obj ?N s s'"
  have clean: "wp (call (cleanupAndRemoveFinalizer X sy obj) (\<lambda>err. State_Monad.return (Ret (zero_Result, err)))) ?Q s"
    unfolding wp_call
    by (rule wp_mono [OF wp_cleanup_others [OF wf kind spokes, where N = ?N]]) (auto simp: wp_rules)
  obtain obj' changed where rf: "reconcileFinalizer ?U ?ks obj = (obj', changed)" by (rule prod.exhaust)
  have key: "okey obj' = okey obj"
    using rf by (auto simp: reconcileFinalizer_eq [OF wf])
  have update: "wp (Update X (s_Client sy) obj')
         (\<lambda>a. wp (case a of
              Inl err \<Rightarrow> State_Monad.return (Ret (zero_Result, IgnoreNotFound (Some err)))
            | Inr x \<Rightarrow> State_Monad.return (Ret (zero_Result, None))) ?Q) s"
    by (rule wp_Update_slot)
      (auto simp: key wp_rules split: sum.splits intro!: others_after_slot [OF _ _ spoke_frame_same])
  have same: "changed \<or> obj' = obj"
    using reconcileFinalizer_same [OF wf, of obj] rf by auto
  show ?thesis
  proof (cases "DeletionTimestamp obj = None \<and> isSource ?ks obj \<and> \<not> changed")
    case False
    then show ?thesis
      using clean update others_frame_idle [of s s sy obj ?N]
      by (auto simp: reconcileSource_def rf wp_rules)
  next
    case True
    then have active: "DeletionTimestamp obj = None" "isSource ?ks obj" "\<not> changed" "obj' = obj"
      using same by auto
    show ?thesis
    proof (cases "labels_Parse X (selector_value ?ks obj)")
      case (Inl e)
      with active show ?thesis
        by (simp add: reconcileSource_def rf wp_rules selector_value_def others_frame_idle)
    next
      case (Inr sel)
      let ?T = "targetNamespaces (s_ExcludeNamespaces sy) obj sel (nslist (s_Client sy) (world s)) fmempty"
      have wanted: "?N = keep_set (Some ?T)"
        using active Inr by (simp add: wanted_local_def targetNamespaces_keep)
      show ?thesis
        unfolding reconcileSource_def
        using active(1-3)
        apply (simp add: rf active(4) wp_bind Inr [unfolded selector_value_def] split del: if_split)
      proof (rule wp_ListNamespaces, goal_cases)
        case (1 w')
        have "spokes_only sy (s\<lparr>world := w'\<rparr>)" using spokes by (simp add: spokes_only_def)
        note rep = wp_replicate_others [OF wf kind targetNamespaces_dom [of "s_ExcludeNamespaces sy" obj sel
              "nslist (s_Client sy) (world s)"] this]
        have eq: "others_frame store sy obj N (s\<lparr>world := w'\<rparr>) s' = others_frame store sy obj N s s'" for N s'
        proof -
          have eqs: "registry (s\<lparr>world := w'\<rparr>) = registry s" "channels (s\<lparr>world := w'\<rparr>) = channels s"
            "store c (world (s\<lparr>world := w'\<rparr>)) = store c (world s)" for c
            using 1 by simp_all
          show ?thesis unfolding others_frame_def spoke_frame_def eqs by (rule refl)
        qed
        show ?case using rep by (simp add: eq wanted Let_def)
      next
        case (2 w' e)
        then show ?case by (simp add: wp_rules others_frame_idle)
      qed
    qed
  qed
qed

lemma wp_reconcileSource_idle:
  assumes "\<not> isSource (s_Keys sy) obj" and "\<not> hasFinalizer (finalizers X) (s_Keys sy) obj"
    and "Q (Ret (zero_Result, None)) s"
  shows "wp (reconcileSource X sy obj) Q s"
  using assms by (simp add: reconcileSource_def cleanupAndRemoveFinalizer_def wp_rules)

end

lemma others_frame_safe:
  assumes frame: "others_frame store sy src N s s'"
    and old: "store c (world s) k = Some obj" and other: "(c, k) \<noteq> (s_Client sy, okey src)"
    and safe: "\<not> touchable (s_Keys sy) src (if c = s_Client sy then [] else s_HubClusterUID sy) obj"
  shows "store c (world s') k = Some obj"
proof (cases "c = s_Client sy")
  case True
  then have "footprint (s_Keys sy) src [] N (store c (world s))
      ((store c (world s'))(okey src := store c (world s) (okey src)))"
    using frame by (simp add: others_frame_def)
  from footprint_safe [where M = "store c (world s)" and k = k, OF this old]
  show ?thesis using other safe True by simp
next
  case False
  then have frame: "case registry s of
         None \<Rightarrow> store c (world s') = store c (world s)
       | Some rg \<Rightarrow>
           footprint (s_Keys sy) src (s_HubClusterUID sy)
             (wanted_on rg src (source_targets (s_Keys sy) src) c) (store c (world s)) (store c (world s')) \<and>
           ((\<forall>cid. reg_lookup rg cid \<noteq> Some c) \<longrightarrow> store c (world s') = store c (world s))"
    using frame unfolding others_frame_def spoke_frame_def by blast
  show ?thesis
  proof (cases "registry s")
    case None
    with frame old show ?thesis by simp
  next
    case (Some rg)
    with frame have "footprint (s_Keys sy) src (s_HubClusterUID sy)
        (wanted_on rg src (source_targets (s_Keys sy) src) c) (store c (world s)) (store c (world s'))"
      by simp
    from footprint_safe [where M = "store c (world s)" and k = k, OF this old]
    show ?thesis using safe False by simp
  qed
qed

text \<open>An object that has nothing to do with the program: no copy, not adoptable, no source.\<close>

definition bystander :: "finalizer_util \<Rightarrow> KeySet \<Rightarrow> object \<Rightarrow> bool" where
  "bystander U ks obj \<longleftrightarrow>
     \<not> isManagedCopy ks obj \<and> \<not> isAdoptable obj \<and> \<not> isSource ks obj \<and> \<not> hasFinalizer U ks obj"

lemma bystander_untouchable:
  assumes "bystander U ks obj"
  shows "\<not> touchable ks src oc obj"
proof -
  have none: "\<forall>k\<in>set (each ks). \<not> managed_under k obj"
    using assms unfolding bystander_def isManagedCopy_iff by blast
  have free: "keysFor ks obj = None"
    using assms by (simp add: bystander_def isManagedCopy_def)
  from none have "\<not> copy_of ks src obj" by (auto simp: copy_of_def stamped_for_def list_ex_iff simp del: each_simps)
  with free assms show ?thesis by (simp add: touchable_def ownsCopy_def bystander_def)
qed

end
