(* ===== verification/Watches.thy ===== *)
theory Watches
  imports Source_Reconcile
begin

text \<open>
  What triggers a reconciliation: the index function, the map functions and the predicates of
  \<open>internal/controller/syncer.go\<close>, and the watches that the \<open>SetupWithManager\<close> methods of
  \<open>configmap_controller.go\<close> and \<open>secret_controller.go\<close> register. The two controllers share
  the locale \<open>kind_controller\<close>, in which what a \<open>Reconcile\<close> does is proved once.
\<close>

type_synonym request = "string \<times> string"

definition SourceIndexField :: string where
  "SourceIndexField = ''replikate.source''"

definition sourceIndexTrue :: string where
  "sourceIndexTrue = ''true''"

definition indexSource :: "'c Syncer \<Rightarrow> object \<Rightarrow> string list" where
  "indexSource sy obj = (if isSource (s_Keys sy) obj then [sourceIndexTrue] else [])"

definition sourceRequests ::
  "('c, 'w) ext \<Rightarrow> 'c Syncer \<Rightarrow> ObjectList \<Rightarrow> ('r, 'w, request list) go" where
  "sourceRequests X sy l = do {
     r \<leftarrow> List X (s_Client sy) (listKind l) (MatchingFields SourceIndexField sourceIndexTrue);
     case r of
       Inl _ \<Rightarrow> State_Monad.return []
     | Inr l \<Rightarrow> State_Monad.return (map (\<lambda>o'. (Namespace o', Name o')) (listItems l))
   }"

fun credentialTargets :: "KeySet \<Rightarrow> string \<Rightarrow> object list \<Rightarrow> request list" where
  "credentialTargets ks clusterID [] = []"
| "credentialTargets ks clusterID (o' # os) =
     (let tcValue = (case targetClustersValue ks (Annotations o') of None \<Rightarrow> [] | Some v \<Rightarrow> v) in
      if target_lookup (parseTargetClusters tcValue) clusterID \<noteq> None
      then (Namespace o', Name o') # credentialTargets ks clusterID os
      else credentialTargets ks clusterID os)"

definition mapCredentialToSources ::
  "('c, 'w) ext \<Rightarrow> 'c Syncer \<Rightarrow> object \<Rightarrow> ObjectList \<Rightarrow> ('r, 'w, request list) go" where
  "mapCredentialToSources X sy obj l = do {
     r \<leftarrow> List X (s_Client sy) (listKind l) (MatchingFields SourceIndexField sourceIndexTrue);
     case r of
       Inl _ \<Rightarrow> State_Monad.return []
     | Inr l \<Rightarrow> State_Monad.return (credentialTargets (s_Keys sy) (Name obj) (listItems l))
   }"

definition mapCopyToSource :: "'c Syncer \<Rightarrow> object \<Rightarrow> request list" where
  "mapCopyToSource sy obj =
     (let (ns, name, ok) = copyOrigin (s_Keys sy) obj in if \<not> ok then [] else [(ns, name)])"

definition sourcePredicate :: "finalizer_util \<Rightarrow> 'c Syncer \<Rightarrow> object \<Rightarrow> bool" where
  "sourcePredicate U sy obj \<longleftrightarrow> isSource (s_Keys sy) obj \<or> hasFinalizer U (s_Keys sy) obj"

definition managedCopyPredicate :: "'c Syncer \<Rightarrow> object \<Rightarrow> bool" where
  "managedCopyPredicate sy obj \<longleftrightarrow> isManagedCopy (s_Keys sy) obj"

text \<open>
  The watches of a controller: an object of its kind is seen by the primary watch and by the
  drift-correction watch, each behind its predicate; a namespace re-drives every source; a
  cluster-ready signal, when the controller has the channel, the sources that name the cluster.
  An \<open>ObjectEvent\<close> is a creation, a deletion or a generic event. For an update the library asks a
  predicate about the new object only, hands the new object to the primary watch, and maps both
  the old and the new one.
\<close>

datatype watch_event =
    ObjectEvent object
  | UpdateEvent object object
  | NamespaceEvent string
  | ClusterReadyEvent object

definition ConfigMapReconciler_SetupWithManager ::
  "('c, 'w) ext \<Rightarrow> 'c Syncer \<Rightarrow> nat option \<Rightarrow> watch_event \<Rightarrow> ('r, 'w, request list) go" where
  "ConfigMapReconciler_SetupWithManager X sy clusterReady ev = (case ev of
     ObjectEvent obj \<Rightarrow> State_Monad.return
       (if objKind obj = ConfigMapKind then
          (if sourcePredicate (finalizers X) sy obj then [(Namespace obj, Name obj)] else []) @
          (if managedCopyPredicate sy obj then mapCopyToSource sy obj else [])
        else [])
   | UpdateEvent old obj \<Rightarrow> State_Monad.return
       (if objKind obj = ConfigMapKind then
          (if sourcePredicate (finalizers X) sy obj then [(Namespace obj, Name obj)] else []) @
          (if managedCopyPredicate sy obj then mapCopyToSource sy old @ mapCopyToSource sy obj else [])
        else [])
   | NamespaceEvent _ \<Rightarrow> sourceRequests X sy (ConfigMapList [])
   | ClusterReadyEvent obj \<Rightarrow>
       (if clusterReady \<noteq> None then mapCredentialToSources X sy obj (ConfigMapList [])
        else State_Monad.return []))"

definition SecretReconciler_SetupWithManager ::
  "('c, 'w) ext \<Rightarrow> 'c Syncer \<Rightarrow> nat option \<Rightarrow> watch_event \<Rightarrow> ('r, 'w, request list) go" where
  "SecretReconciler_SetupWithManager X sy clusterReady ev = (case ev of
     ObjectEvent obj \<Rightarrow> State_Monad.return
       (if objKind obj = SecretKind then
          (if sourcePredicate (finalizers X) sy obj then [(Namespace obj, Name obj)] else []) @
          (if managedCopyPredicate sy obj then mapCopyToSource sy obj else [])
        else [])
   | UpdateEvent old obj \<Rightarrow> State_Monad.return
       (if objKind obj = SecretKind then
          (if sourcePredicate (finalizers X) sy obj then [(Namespace obj, Name obj)] else []) @
          (if managedCopyPredicate sy obj then mapCopyToSource sy old @ mapCopyToSource sy obj else [])
        else [])
   | NamespaceEvent _ \<Rightarrow> sourceRequests X sy (SecretList [])
   | ClusterReadyEvent obj \<Rightarrow>
       (if clusterReady \<noteq> None then mapCredentialToSources X sy obj (SecretList [])
        else State_Monad.return []))"

lemma credentialTargets_set:
  "set (credentialTargets ks cid objs) =
     {(Namespace obj, Name obj) | obj. obj \<in> set objs \<and> target_lookup (source_targets ks obj) cid \<noteq> None}"
  by (induction ks cid objs rule: credentialTargets.induct) (auto simp: Let_def source_targets_def)

subsection \<open>What the code relies on in the index\<close>

text \<open>The field index returns what the index function selects.\<close>

locale indexed_api_server = api_server X store nslist
  for X :: "('c, 'w) ext" and store and nslist +
  fixes ks :: KeySet
  assumes list_index_ok:
    "client_list X c kd (MatchingFields SourceIndexField sourceIndexTrue) w = (Inr li, w') \<Longrightarrow>
       listKind li = kd \<and>
       set (listItems li) = {obj. store c w (okey obj) = Some obj \<and> objKind obj = kd \<and> isSource ks obj}"
begin

lemma wp_sourceRequests:
  assumes "s_Keys sy = ks" and "listKind l = kd"
  shows "wp (sourceRequests X sy l)
    (\<lambda>reqs s'. (\<forall>c. store c (world s') = store c (world s)) \<and>
       (case fst (client_list X (s_Client sy) kd (MatchingFields SourceIndexField sourceIndexTrue) (world s)) of
          Inl _ \<Rightarrow> reqs = []
        | Inr _ \<Rightarrow> set reqs = {(Namespace obj, Name obj) | obj.
            store (s_Client sy) (world s) (okey obj) = Some obj \<and> objKind obj = kd \<and> isSource ks obj})) s"
proof -
  obtain r w' where r:
    "client_list X (s_Client sy) kd (MatchingFields SourceIndexField sourceIndexTrue) (world s) = (r, w')"
    by (rule prod.exhaust)
  show ?thesis
    using list_store [OF r] list_index_ok [of "s_Client sy" kd "world s" _ w'] r assms(2)
    by (cases r) (auto simp: sourceRequests_def List_def wp_rules wp_api)
qed

lemma wp_mapCredentialToSources:
  assumes "s_Keys sy = ks" and "listKind l = kd"
  shows "wp (mapCredentialToSources X sy cred l)
    (\<lambda>reqs s'. (\<forall>c. store c (world s') = store c (world s)) \<and>
       (case fst (client_list X (s_Client sy) kd (MatchingFields SourceIndexField sourceIndexTrue) (world s)) of
          Inl _ \<Rightarrow> reqs = []
        | Inr _ \<Rightarrow> set reqs = {(Namespace obj, Name obj) | obj.
            store (s_Client sy) (world s) (okey obj) = Some obj \<and> objKind obj = kd \<and> isSource ks obj \<and>
            target_lookup (source_targets ks obj) (Name cred) \<noteq> None})) s"
proof -
  obtain r w' where r:
    "client_list X (s_Client sy) kd (MatchingFields SourceIndexField sourceIndexTrue) (world s) = (r, w')"
    by (rule prod.exhaust)
  show ?thesis
    using list_store [OF r] list_index_ok [of "s_Client sy" kd "world s" _ w'] r assms
    by (cases r)
      (auto simp: mapCredentialToSources_def List_def wp_rules wp_api credentialTargets_set)
qed

end

subsection \<open>The contract of a controller\<close>

locale kind_controller =
  fixes K :: kind
    and knd :: string
    and Rec :: "('c, 'w) ext \<Rightarrow> 'c Syncer \<Rightarrow> string \<Rightarrow> string \<Rightarrow>
      ('cfg, 'c, 'w, (Result \<times> error option) outcome) rgo"
  assumes replicable: "K \<noteq> OtherKind"
    and Rec_eq: "Rec X sy ns n = do {
       r \<leftarrow> Get X (s_Client sy) K ns n;
       case r of
         Inl err \<Rightarrow> State_Monad.return (Ret (zero_Result, IgnoreNotFound (Some err)))
       | Inr obj \<Rightarrow> call (reconcileSource X sy obj) (\<lambda>(res, err). do {
           observeReconcile knd err;
           State_Monad.return (Ret (res, err))
         })
     }"
begin

text \<open>
  A reconcile of a name that does not exist, or that cannot be read, changes nothing; any other
  stays in the frame of the source it reads.
\<close>

lemma wp_Rec:
  assumes P: "platform X store nslist" and wf: "wf_KeySet (s_Keys sy)" and spokes: "spokes_only sy s"
    and self: "\<And>obj. store (s_Client sy) (world s) (K, ns, n) = Some obj \<Longrightarrow> \<not> copy_of (s_Keys sy) obj obj"
  shows "wp (Rec X sy ns n)
    (\<lambda>r s'. (\<exists>res err. r = Ret (res, err)) \<and>
       registry s' = registry s \<and> channels s' = channels s \<and>
       (case store (s_Client sy) (world s) (K, ns, n) of
          None \<Rightarrow> \<forall>c. store c (world s') = store c (world s)
        | Some obj \<Rightarrow> \<exists>w. source_frame store sy obj (wanted_local X nslist sy obj w) s s')) s"
  unfolding Rec_eq wp_bind
proof (rule api_server.wp_Get [OF platform.axioms(1) [OF P]], goal_cases)
  case (1 w' obj)
  have key: "okey obj = (K, ns, n)"
    using api_server.stored_key [OF platform.axioms(1) [OF P] 1(2)] .
  then have kind: "objKind obj \<noteq> OtherKind" using replicable by (simp add: okey_def)
  let ?s = "s\<lparr>world := w'\<rparr>"
  have self': "store (s_Client sy) (world ?s) (okey obj) = Some obj" using 1 by (simp add: key)
  have "spokes_only sy ?s" using spokes by (simp add: spokes_only_def)
  note frame = platform.wp_reconcileSource_frame [OF P wf kind self' self [OF 1(2)] this]
  have eq: "source_frame store sy obj N ?s s' = source_frame store sy obj N s s'" for N s'
  proof -
    have eqs: "registry ?s = registry s" "channels ?s = channels s"
      "store c (world ?s) = store c (world s)" for c
      using 1(1) by simp_all
    show ?thesis unfolding source_frame_def spoke_frame_def eqs by (rule refl)
  qed
  show ?case
    unfolding sum.case wp_call 1(2) option.case
  proof (rule wp_mono [OF frame], goal_cases)
    case (1 r s')
    then obtain res err where r: "r = Ret (res, err)"
      and fr: "source_frame store sy obj (wanted_local X nslist sy obj w') s s'"
      by (auto simp: eq)
    then have "registry s' = registry s" "channels s' = channels s"
      by (simp_all add: source_frame_def)
    with fr show ?case
      by (auto simp: r wp_rules observeReconcile_def platform.source_frame_emit [OF P])
  qed
next
  case (2 w' e)
  have "source_frame store sy obj N s (s\<lparr>world := w'\<rparr>)"
    if "store (s_Client sy) (world s) (K, ns, n) = Some obj" for obj N
    using that api_server.stored_key [OF platform.axioms(1) [OF P] that] 2(1)
    by (intro platform.source_frame_idle [OF P]) simp_all
  then show ?case using 2 by (auto simp: wp_rules split: option.splits)
qed

end

interpretation configmap: kind_controller ConfigMapKind "''configmap''" ConfigMapReconciler_Reconcile
  by unfold_locales (simp_all add: ConfigMapReconciler_Reconcile_def)

interpretation secret: kind_controller SecretKind "''secret''" SecretReconciler_Reconcile
  by unfold_locales (simp_all add: SecretReconciler_Reconcile_def)

end
