(* ===== verification/Credentials.thy ===== *)
theory Credentials
  imports Source_Reconcile
begin

text \<open>
  The reconciler of spoke credentials, \<open>internal/controller/cluster_controller.go\<close>: it keeps
  the registry in step with the labeled Secrets, checks reachability, refuses the hub's own
  cluster and signals the source controllers. A reconcile ends in one of the situations of
  \<open>verdict\<close>, each with its effect on the registry, its event and its result.
\<close>

text \<open>\<open>clusterRecheckInterval\<close> in seconds.\<close>

definition clusterRecheckInterval :: nat where
  "clusterRecheckInterval = 120"

record 'c ClusterCredentialReconciler =
  cr_Client :: 'c
  cr_Namespace :: string
  cr_Keys :: KeySet
  cr_HubClusterUID :: string
  cr_Notify :: "nat list"

text \<open>\<open>try_send\<close> is the \<open>select\<close> with a \<open>default\<close>: a full channel drops the signal.\<close>

definition try_send :: "nat \<Rightarrow> object \<Rightarrow> ('r, 'w, unit) go" where
  "try_send ch obj = State_Monad.update (\<lambda>s.
     if length (ch_queue (channels s ch)) < ch_cap (channels s ch)
     then s\<lparr>channels := (channels s)(ch := (channels s ch)\<lparr>ch_queue := ch_queue (channels s ch) @ [obj]\<rparr>)\<rparr>
     else s)"

fun notifyAll :: "nat list \<Rightarrow> object \<Rightarrow> ('r, 'w, unit) go" where
  "notifyAll [] obj = State_Monad.return ()"
| "notifyAll (ch # chs) obj = do { try_send ch obj; notifyAll chs obj }"

definition registerCluster ::
  "'c ClusterCredentialReconciler \<Rightarrow> string \<Rightarrow> object \<Rightarrow> 'c \<Rightarrow>
     ('cfg, 'c, 'w, (Result \<times> error option) outcome) rgo" where
  "registerCluster cr cid secret c =
     call (Store cid c) (\<lambda>_.
     call (SetUp cid True) (\<lambda>_. do {
       Eventf secret Normal ''ClusterConnected'' ''Registered spoke cluster %s'' [ArgS cid];
       notifyAll (cr_Notify cr) secret;
       State_Monad.return (Ret (\<lparr>RequeueAfter = clusterRecheckInterval\<rparr>, None))
     }))"

definition ClusterCredentialReconciler_Reconcile ::
  "('c, 'w) ext \<Rightarrow> ('cfg, 'c, 'w) rest_ext \<Rightarrow> 'c ClusterCredentialReconciler \<Rightarrow> string \<Rightarrow> string \<Rightarrow>
     ('cfg, 'c, 'w, (Result \<times> error option) outcome) rgo" where
  "ClusterCredentialReconciler_Reconcile X R cr ns n =
     (let cid = n in do {
       r \<leftarrow> Get X (cr_Client cr) SecretKind ns n;
       case r of
         Inl err \<Rightarrow>
           if IsNotFound err then
             call (Remove cid) (\<lambda>_. State_Monad.return (Ret (zero_Result, None)))
           else State_Monad.return (Ret (zero_Result, Some err))
       | Inr secret \<Rightarrow>
           call (BuildClient R cid secret) (\<lambda>b.
             case b of
               Inl err \<Rightarrow>
                 call (Remove cid) (\<lambda>_. do {
                   Eventf secret Warning ''InvalidCredential'' ''%v'' [ArgE err];
                   State_Monad.return (Ret (zero_Result, None))
                 })
             | Inr c \<Rightarrow> do {
                 e \<leftarrow> connectivityCheck X c;
                 case e of
                   Some err \<Rightarrow>
                     call (SetUp cid False) (\<lambda>_. do {
                       Eventf secret Warning ''ClusterUnreachable'' ''%v'' [ArgE err];
                       State_Monad.return (Ret (\<lparr>RequeueAfter = clusterRecheckInterval\<rparr>, None))
                     })
                 | None \<Rightarrow>
                     if cr_HubClusterUID cr \<noteq> [] then do {
                       u \<leftarrow> clusterUID X c;
                       case u of
                         Inl uerr \<Rightarrow>
                           call (Remove cid) (\<lambda>_. do {
                             Eventf secret Warning ''IdentityUnverified''
                               ''Refusing to register: could not read cluster identity: %v'' [ArgE uerr];
                             State_Monad.return (Ret (\<lparr>RequeueAfter = clusterRecheckInterval\<rparr>, None))
                           })
                       | Inr uid \<Rightarrow>
                           if uid = cr_HubClusterUID cr then
                             call (Remove cid) (\<lambda>_. do {
                               Eventf secret Warning ''SelfCluster''
                                 ''Refusing credential that resolves to the hub's own cluster'' [];
                               State_Monad.return (Ret (zero_Result, None))
                             })
                           else registerCluster cr cid secret c
                     }
                     else registerCluster cr cid secret c
               })
     })"

definition credentialPredicate :: "'c ClusterCredentialReconciler \<Rightarrow> object \<Rightarrow> bool" where
  "credentialPredicate cr obj \<longleftrightarrow> Namespace obj = cr_Namespace cr \<and> hasCredentialLabel (cr_Keys cr) obj"

subsection \<open>Signals\<close>

definition sent :: "object \<Rightarrow> nat list \<Rightarrow> (nat \<Rightarrow> chan) \<Rightarrow> nat \<Rightarrow> chan" where
  "sent obj chs C = fold (\<lambda>ch C. if length (ch_queue (C ch)) < ch_cap (C ch)
     then C(ch := (C ch)\<lparr>ch_queue := ch_queue (C ch) @ [obj]\<rparr>) else C) chs C"

lemma wp_try_send [wp_rules]:
  "wp (try_send ch obj) Q s \<longleftrightarrow> Q () (s\<lparr>channels := sent obj [ch] (channels s)\<rparr>)"
  by (simp add: try_send_def wp_update sent_def)

lemma wp_notifyAll [wp_rules]:
  "wp (notifyAll chs obj) Q s \<longleftrightarrow> Q () (s\<lparr>channels := sent obj chs (channels s)\<rparr>)"
  by (induction chs arbitrary: s) (simp_all add: wp_rules sent_def)

lemma sent_cap [simp]: "ch_cap (sent obj chs C ch) = ch_cap (C ch)"
  by (induction chs arbitrary: C) (auto simp: sent_def)

lemma sent_bounded_at:
  "length (ch_queue (C ch)) \<le> ch_cap (C ch) \<Longrightarrow> length (ch_queue (sent obj chs C ch)) \<le> ch_cap (C ch)"
proof (induction chs arbitrary: C)
  case (Cons j chs)
  let ?C = "sent obj [j] C"
  have "length (ch_queue (?C ch)) \<le> ch_cap (?C ch)" using Cons.prems by (auto simp: sent_def)
  from Cons.IH [of ?C, OF this] show ?case by (simp add: sent_def split: if_splits)
qed (simp add: sent_def)

subsection \<open>The outcomes of a reconcile\<close>

text \<open>
  The verdict on a credential, and what each does to the registry entry of its cluster. Only
  \<open>Registered\<close> adds a client.
\<close>

datatype 'c verdict =
    Unread
  | Gone
  | Invalid
  | Unreachable
  | Unverified
  | SelfCluster
  | Registered 'c

definition apply_verdict ::
  "string \<Rightarrow> 'c verdict \<Rightarrow> ('cfg, 'c, 'w) ClusterRegistry \<Rightarrow> ('cfg, 'c, 'w) ClusterRegistry" where
  "apply_verdict cid v rg = (case v of
     Unread \<Rightarrow> rg
   | Unreachable \<Rightarrow> reg_set_up cid False rg
   | Registered c \<Rightarrow> reg_set_up cid True (reg_store cid c rg)
   | _ \<Rightarrow> reg_remove cid rg)"

definition verdict_gauge :: "string \<Rightarrow> 'c verdict \<Rightarrow> effect list" where
  "verdict_gauge cid v = (case v of
     Unread \<Rightarrow> []
   | Unreachable \<Rightarrow> [GaugeSet clusterUp [cid] 0]
   | Registered _ \<Rightarrow> [GaugeSet clusterUp [cid] 1]
   | _ \<Rightarrow> [GaugeDelete clusterUp [cid]])"

definition verdict_requeue :: "'c verdict \<Rightarrow> nat" where
  "verdict_requeue v = (case v of
     Unreachable \<Rightarrow> clusterRecheckInterval
   | Unverified \<Rightarrow> clusterRecheckInterval
   | Registered _ \<Rightarrow> clusterRecheckInterval
   | _ \<Rightarrow> 0)"

definition verdict_reasons :: "'c verdict \<Rightarrow> string list" where
  "verdict_reasons v = (case v of
     Unread \<Rightarrow> [] | Gone \<Rightarrow> []
   | Invalid \<Rightarrow> [''InvalidCredential'']
   | Unreachable \<Rightarrow> [''ClusterUnreachable'']
   | Unverified \<Rightarrow> [''IdentityUnverified'']
   | SelfCluster \<Rightarrow> [''SelfCluster'']
   | Registered _ \<Rightarrow> [''ClusterConnected''])"

text \<open>
  \<open>credential_post\<close>: a reconcile reaches some verdict and does what it says, touches no
  cluster, and registers only a client that is not the hub (when the hub's identity is known);
  only an unread credential is an error, only a registration signals the source controllers.
\<close>

definition credential_post ::
  "('c \<Rightarrow> 'w \<Rightarrow> okey \<Rightarrow> object option) \<Rightarrow> ('c \<Rightarrow> string) \<Rightarrow> 'c ClusterCredentialReconciler \<Rightarrow> string \<Rightarrow> string \<Rightarrow>
     ('cfg, 'c, 'w) ClusterRegistry \<Rightarrow> (('cfg, 'c, 'w) ClusterRegistry, 'w) st \<Rightarrow>
     (Result \<times> error option) outcome \<Rightarrow> (('cfg, 'c, 'w) ClusterRegistry, 'w) st \<Rightarrow> 'c verdict \<Rightarrow> bool" where
  "credential_post store cuid cr ns cid rg s r s' v \<longleftrightarrow>
     (\<exists>err. r = Ret (\<lparr>RequeueAfter = verdict_requeue v\<rparr>, err) \<and> (err \<noteq> None) = (v = Unread)) \<and>
     registry s' = Some (apply_verdict cid v rg) \<and>
     (\<forall>c. store c (world s') = store c (world s)) \<and>
     (\<exists>evs. effects s' = effects s @ verdict_gauge cid v @ evs \<and> map event_reason evs = verdict_reasons v) \<and>
     (\<forall>c. v = Registered c \<longrightarrow> cr_HubClusterUID cr \<noteq> [] \<longrightarrow> cuid c \<noteq> cr_HubClusterUID cr) \<and>
     ((\<forall>c. v \<noteq> Registered c) \<longrightarrow> channels s' = channels s) \<and>
     (v = Gone \<longrightarrow> store (cr_Client cr) (world s) (SecretKind, ns, cid) = None) \<and>
     (v \<noteq> Gone \<and> v \<noteq> Unread \<longrightarrow> (\<exists>secret.
        store (cr_Client cr) (world s) (SecretKind, ns, cid) = Some secret \<and>
        (\<forall>c. v = Registered c \<longrightarrow> channels s' = sent secret (cr_Notify cr) (channels s))))"

text \<open>
  What the reconciler relies on: building a client and asking a cluster for its identity do not
  change any cluster, and \<open>cuid c\<close>, the UID of its \<open>kube-system\<close> namespace, identifies the
  cluster behind a client.
\<close>

definition builds_only :: "('c \<Rightarrow> 'w \<Rightarrow> okey \<Rightarrow> object option) \<Rightarrow> ('cfg, 'c, 'w) ClusterRegistry \<Rightarrow> bool" where
  "builds_only store rg \<longleftrightarrow>
     (\<forall>cfg cid w c. store c (snd (newClient rg cfg cid w)) = store c w)"

lemma builds_only_apply [simp]: "builds_only store (apply_verdict cid v rg) \<longleftrightarrow> builds_only store rg"
  by (simp add: builds_only_def apply_verdict_def reg_remove_def reg_store_def reg_set_up_def
      split: verdict.splits option.splits)

locale cluster_identity = api_server X store nslist
  for X :: "('c, 'w) ext" and store and nslist +
  fixes cuid :: "'c \<Rightarrow> string"
  assumes kube_system_uid:
    "client_get_namespace X c ''kube-system'' w = (Inr nsobj, w') \<Longrightarrow> ns_UID nsobj = cuid c"
begin

lemma wp_connectivityCheck:
  assumes "\<And>w' e. (\<And>c. store c w' = store c (world s)) \<Longrightarrow> Q e (s\<lparr>world := w'\<rparr>)"
  shows "wp (connectivityCheck X c) Q s"
proof -
  obtain r w' where r: "client_list_namespaces X c (Some 1) (world s) = (r, w')" by (rule prod.exhaust)
  show ?thesis
    using assms list_namespaces_store [OF r] r
    by (cases r) (auto simp: connectivityCheck_def ListNamespaces_def wp_rules wp_api)
qed

lemma wp_clusterUID:
  assumes "\<And>w' e. (\<And>c. store c w' = store c (world s)) \<Longrightarrow> Q (Inl e) (s\<lparr>world := w'\<rparr>)"
    and "\<And>w'. (\<And>c. store c w' = store c (world s)) \<Longrightarrow> Q (Inr (cuid c)) (s\<lparr>world := w'\<rparr>)"
  shows "wp (clusterUID X c) Q s"
proof -
  obtain r w' where r: "client_get_namespace X c ''kube-system'' (world s) = (r, w')" by (rule prod.exhaust)
  show ?thesis
    using assms get_namespace_store [OF r] kube_system_uid [of c "world s" _ w'] r
    by (cases r) (auto simp: clusterUID_def GetNamespace_def wp_rules wp_api)
qed

lemma wp_BuildClient:
  assumes rg: "registry s = Some rg" and builds: "builds_only store rg"
    and "\<And>w' b. (\<And>c. store c w' = store c (world s)) \<Longrightarrow> Q (Ret b) (s\<lparr>world := w'\<rparr>)"
  shows "wp (BuildClient R cid secret) Q s"
proof -
  have same: "s = s\<lparr>world := world s\<rparr>" by simp
  have "Q (Ret (Inl e)) s" for e
    by (subst same, rule assms(3)) simp
  moreover have "Q (Ret b) (s\<lparr>world := snd (newClient rg cfg cid (world s))\<rparr>)" for b cfg
    using builds by (intro assms(3)) (simp add: builds_only_def)
  ultimately show ?thesis
    using rg by (auto simp: BuildClient_def wp_rules wp_api split: sum.splits prod.splits) (metis snd_conv)+
qed

lemma wp_registerCluster:
  assumes rg: "registry t = Some rg" and t: "channels t = channels s" "effects t = effects s"
      "\<And>c. store c (world t) = store c (world s)"
    and secret: "store (cr_Client cr) (world s) (SecretKind, ns, cid) = Some secret"
    and c: "cr_HubClusterUID cr \<noteq> [] \<longrightarrow> cuid c \<noteq> cr_HubClusterUID cr"
  shows "wp (registerCluster cr cid secret c) (\<lambda>r s'. \<exists>v. credential_post store cuid cr ns cid rg s r s' v) t"
proof -
  have "\<exists>evs. [GaugeSet clusterUp [cid] 1,
      Event (okey secret) Normal ''ClusterConnected'' ''Registered spoke cluster %s'' [ArgS cid]] =
      verdict_gauge cid (Registered c) @ evs \<and> map event_reason evs = verdict_reasons (Registered c)"
    by (simp add: verdict_gauge_def verdict_reasons_def)
  then show ?thesis
    using t secret c
    by (auto simp: registerCluster_def wp_rules rg credential_post_def verdict_requeue_def apply_verdict_def
        intro!: exI [of _ "Registered c"])
qed

lemma wp_Reconcile:
  assumes rg: "registry s = Some rg" and builds: "builds_only store rg"
  shows "wp (ClusterCredentialReconciler_Reconcile X R cr ns cid)
    (\<lambda>r s'. \<exists>v. credential_post store cuid cr ns cid rg s r s' v) s"
  unfolding ClusterCredentialReconciler_Reconcile_def Let_def wp_bind
proof (rule wp_Get, goal_cases)
  case (2 w' err)
  have "credential_post store cuid cr ns cid rg s (Ret (zero_Result, Some err)) (s\<lparr>world := w'\<rparr>) Unread"
    using 2 rg by (simp add: credential_post_def zero_Result_def verdict_requeue_def apply_verdict_def
        verdict_gauge_def verdict_reasons_def)
  moreover have "credential_post store cuid cr ns cid rg s (Ret (zero_Result, None))
      (s\<lparr>world := w', registry := Some (reg_remove cid rg),
         effects := effects s @ [GaugeDelete clusterUp [cid]]\<rparr>) Gone" if "IsNotFound err"
    using 2 rg that by (simp add: credential_post_def zero_Result_def verdict_requeue_def apply_verdict_def
        verdict_gauge_def verdict_reasons_def)
  ultimately show ?case by (auto simp: wp_rules rg)
next
  case (1 w' secret)
  note secret = 1(2)
  note post = credential_post_def zero_Result_def verdict_requeue_def apply_verdict_def
    verdict_gauge_def verdict_reasons_def rg
  show ?case
    unfolding sum.case wp_call
  proof (rule wp_BuildClient, goal_cases)
    case (3 w2 b)
    have same2: "store c w2 = store c (world s)" for c using 1(1) 3 by simp
    show ?case
    proof (cases b)
      case (Inl err)
      with same2 secret show ?thesis
        by (auto simp: wp_rules post intro!: exI [of _ Invalid])
    next
      case (Inr c)
      show ?thesis
        unfolding Inr outcome.case sum.case wp_bind
      proof (rule wp_connectivityCheck, goal_cases)
        case (1 w3 e)
        have same3: "store c w3 = store c (world s)" for c using 1 same2 by simp
        note reg = wp_registerCluster [OF _ _ _ _ secret, where t = "s\<lparr>world := w\<rparr>" for w]
        show ?case
        proof (cases e)
          case (Some err)
          with same3 secret show ?thesis
            by (auto simp: wp_rules post intro!: exI [of _ Unreachable])
        next
          case None
          show ?thesis
          proof (cases "cr_HubClusterUID cr = []")
            case True
            with None show ?thesis
              using same3 rg by (auto intro!: reg)
          next
            case False
            have "wp (clusterUID X c)
               (\<lambda>u. wp (case u of
                  Inl uerr \<Rightarrow>
                    call (Remove cid) (\<lambda>_. do {
                      Eventf secret Warning ''IdentityUnverified''
                        ''Refusing to register: could not read cluster identity: %v'' [ArgE uerr];
                      State_Monad.return (Ret (\<lparr>RequeueAfter = clusterRecheckInterval\<rparr>, None))
                    })
                | Inr uid \<Rightarrow>
                    if uid = cr_HubClusterUID cr then
                      call (Remove cid) (\<lambda>_. do {
                        Eventf secret Warning ''SelfCluster''
                          ''Refusing credential that resolves to the hub's own cluster'' [];
                        State_Monad.return (Ret (zero_Result, None))
                      })
                    else registerCluster cr cid secret c)
                 (\<lambda>r s'. \<exists>v. credential_post store cuid cr ns cid rg s r s' v)) (s\<lparr>world := w3\<rparr>)"
            proof (rule wp_clusterUID, goal_cases)
              case (1 w4 e)
              have "store c w4 = store c (world s)" for c using 1 same3 by simp
              with secret show ?case
                by (auto simp: wp_rules post intro!: exI [of _ Unverified])
            next
              case (2 w4)
              have same4: "store c w4 = store c (world s)" for c using 2 same3 by simp
              show ?case
              proof (cases "cuid c = cr_HubClusterUID cr")
                case True
                with same4 secret show ?thesis
                  by (auto simp: wp_rules post intro!: exI [of _ SelfCluster])
              next
                case False
                with same4 rg show ?thesis by (auto intro!: reg)
              qed
            qed
            with None False show ?thesis by (simp add: wp_bind)
          qed
        qed
      qed
    qed
  qed (use rg builds in simp_all)
qed

end

end
