(* ===== verification/Mem_Platform.thy ===== *)
theory Mem_Platform
  imports Watches Credentials
begin

text \<open>
  An in-memory instance of everything external: clusters are numbers, a world maps each to its
  objects and namespaces, a cluster that is down fails every call. It satisfies the laws of
  \<open>api_server\<close>, \<open>finalizer_laws\<close> and \<open>platform\<close>, so these can hold together, and the
  witnesses of the properties run on it. Objects that the server would not keep (a key shadowed
  by an earlier entry, a deleted object without finalizers) are not visible in a world.
\<close>

record mem =
  m_objects :: "nat \<Rightarrow> object list"
  m_namespaces :: "nat \<Rightarrow> namespace list"
  m_next :: nat
  m_down :: "nat list"

definition mem_kept :: "object \<Rightarrow> bool" where
  "mem_kept obj \<longleftrightarrow> DeletionTimestamp obj = None \<or> Finalizers obj \<noteq> []"

definition mem_store :: "nat \<Rightarrow> mem \<Rightarrow> okey \<Rightarrow> object option" where
  "mem_store c w k = find (\<lambda>obj. okey obj = k \<and> mem_kept obj) (m_objects w c)"

definition mem_items :: "nat \<Rightarrow> mem \<Rightarrow> object list" where
  "mem_items c w = filter (\<lambda>obj. mem_store c w (okey obj) = Some obj) (remdups (m_objects w c))"

definition mem_put :: "nat \<Rightarrow> okey \<Rightarrow> object option \<Rightarrow> mem \<Rightarrow> mem" where
  "mem_put c k new w = w\<lparr>m_objects := (m_objects w)
     (c := (case new of None \<Rightarrow> [] | Some obj \<Rightarrow> [obj]) @ filter (\<lambda>obj. okey obj \<noteq> k) (m_objects w c)),
     m_next := Suc (m_next w)\<rparr>"

definition mem_stamp :: "mem \<Rightarrow> string" where
  "mem_stamp w = replicate (m_next w) CHR ''1''"

definition mem_unreachable :: error where
  "mem_unreachable = OtherError ''unreachable''"

definition mem_get :: "nat \<Rightarrow> kind \<Rightarrow> string \<Rightarrow> string \<Rightarrow> mem \<Rightarrow> (error + object) \<times> mem" where
  "mem_get c kd ns n w =
     (if c \<in> set (m_down w) then Inl mem_unreachable
      else case mem_store c w (kd, ns, n) of None \<Rightarrow> Inl (NotFound n) | Some obj \<Rightarrow> Inr obj, w)"

definition mem_list_of :: "kind \<Rightarrow> object list \<Rightarrow> ObjectList" where
  "mem_list_of kd objs = (case kd of
     ConfigMapKind \<Rightarrow> ConfigMapList objs | SecretKind \<Rightarrow> SecretList objs | OtherKind \<Rightarrow> OtherList)"

text \<open>The field index is the one the controllers register: the sources of a key set.\<close>

definition mem_list :: "KeySet \<Rightarrow> nat \<Rightarrow> kind \<Rightarrow> list_opt \<Rightarrow> mem \<Rightarrow> (error + ObjectList) \<times> mem" where
  "mem_list ks c kd opt w =
     (if c \<in> set (m_down w) \<or> kd = OtherKind then Inl mem_unreachable
      else Inr (mem_list_of kd (filter (\<lambda>obj. objKind obj = kd \<and>
        (case opt of MatchingLabels m \<Rightarrow> selects m obj | MatchingFields f v \<Rightarrow> isSource ks obj))
        (mem_items c w))), w)"

definition mem_create :: "nat \<Rightarrow> object \<Rightarrow> mem \<Rightarrow> (error + unit) \<times> mem" where
  "mem_create c obj w =
     (if c \<in> set (m_down w) then (Inl mem_unreachable, w)
      else if mem_store c w (okey obj) \<noteq> None then (Inl (AlreadyExists (Name obj)), w)
      else (Inr (), mem_put c (okey obj)
        (Some (obj\<lparr>UID := mem_stamp w, ResourceVersion := mem_stamp w, DeletionTimestamp := None\<rparr>)) w))"

definition mem_update :: "nat \<Rightarrow> object \<Rightarrow> mem \<Rightarrow> (error + unit) \<times> mem" where
  "mem_update c obj w =
     (if c \<in> set (m_down w) then (Inl mem_unreachable, w)
      else case mem_store c w (okey obj) of
        None \<Rightarrow> (Inl (NotFound (Name obj)), w)
      | Some old \<Rightarrow>
          if ResourceVersion obj \<noteq> ResourceVersion old then (Inl (OtherError ''conflict''), w)
          else (Inr (), mem_put c (okey obj)
            (persisted (obj\<lparr>UID := UID old, DeletionTimestamp := DeletionTimestamp old\<rparr>) (mem_stamp w)) w))"

definition mem_delete :: "nat \<Rightarrow> object \<Rightarrow> mem \<Rightarrow> (error + unit) \<times> mem" where
  "mem_delete c obj w =
     (if c \<in> set (m_down w) then (Inl mem_unreachable, w)
      else case mem_store c w (okey obj) of
        None \<Rightarrow> (Inl (NotFound (Name obj)), w)
      | Some old \<Rightarrow> (Inr (), mem_put c (okey obj)
          (if Finalizers old = [] then None
           else Some (old\<lparr>DeletionTimestamp := Some ''now'', ResourceVersion := mem_stamp w\<rparr>)) w))"

definition mem_list_namespaces :: "nat \<Rightarrow> nat option \<Rightarrow> mem \<Rightarrow> (error + namespace list) \<times> mem" where
  "mem_list_namespaces c limit w =
     (if c \<in> set (m_down w) then Inl mem_unreachable
      else Inr (case limit of None \<Rightarrow> m_namespaces w c | Some n \<Rightarrow> take n (m_namespaces w c)), w)"

text \<open>The identity of a cluster is the UID of its \<open>kube-system\<close> namespace.\<close>

definition mem_uid :: "nat \<Rightarrow> string" where
  "mem_uid c = ''cluster-'' @ replicate c CHR ''i''"

definition mem_get_namespace :: "nat \<Rightarrow> string \<Rightarrow> mem \<Rightarrow> (error + namespace) \<times> mem" where
  "mem_get_namespace c n w =
     (if c \<in> set (m_down w) then Inl mem_unreachable
      else case find (\<lambda>ns. ns_Name ns = n) (m_namespaces w c) of
        None \<Rightarrow> Inl (NotFound n)
      | Some ns \<Rightarrow> Inr (if n = ''kube-system'' then ns\<lparr>ns_UID := mem_uid c\<rparr> else ns), w)"

text \<open>A selector language of single equalities is enough here: \<open>k=v\<close>, the empty selector, and \<open>!\<close> for a syntax error.\<close>

definition mem_parse :: "string \<Rightarrow> error + (string_map \<Rightarrow> bool)" where
  "mem_parse sel =
     (if sel = [] then Inr (\<lambda>_. True)
      else if CHR ''!'' \<in> set sel then Inl (OtherError ''found: '!', expected: identifier'')
      else let (k, v) = cut_at CHR ''='' sel in Inr (\<lambda>m. fmlookup m k = Some v))"

definition list_finalizers :: finalizer_util where
  "list_finalizers =
     \<lparr>ContainsFinalizer = (\<lambda>obj f. f \<in> set (Finalizers obj)),
      AddFinalizer = (\<lambda>obj f. if f \<in> set (Finalizers obj) then obj
        else obj\<lparr>Finalizers := Finalizers obj @ [f]\<rparr>),
      RemoveFinalizer = (\<lambda>obj f. obj\<lparr>Finalizers := removeAll f (Finalizers obj)\<rparr>)\<rparr>"

definition mem_ext :: "KeySet \<Rightarrow> (nat, mem) ext" where
  "mem_ext ks =
     \<lparr>client_get = mem_get, client_list = mem_list ks, client_create = mem_create,
      client_update = mem_update, client_delete = mem_delete,
      client_list_namespaces = mem_list_namespaces, client_get_namespace = mem_get_namespace,
      labels_Parse = mem_parse, finalizers = list_finalizers,
      range_keys = (\<lambda>w S. sorted_list_of_fset S)\<rparr>"

subsection \<open>It keeps the laws\<close>

interpretation fin: finalizer_laws list_finalizers
  by unfold_locales (simp_all add: list_finalizers_def)

lemma mem_store_key: "mem_store c w k = Some obj \<Longrightarrow> okey obj = k \<and> mem_kept obj"
  by (auto simp: mem_store_def find_Some_iff)

lemma find_append_key: "find P (xs @ ys) = (case find P xs of None \<Rightarrow> find P ys | Some x \<Rightarrow> Some x)"
  by (induction xs) auto

lemma find_filter_other:
  "find (\<lambda>obj. okey obj = k \<and> mem_kept obj) (filter (\<lambda>obj. okey obj \<noteq> j) xs) =
     (if k = j then None else find (\<lambda>obj. okey obj = k \<and> mem_kept obj) xs)"
  by (induction xs) auto

text \<open>What may be put in a slot.\<close>

definition fits :: "okey \<Rightarrow> object option \<Rightarrow> bool" where
  "fits k new \<longleftrightarrow> (case new of None \<Rightarrow> True | Some obj \<Rightarrow> okey obj = k \<and> mem_kept obj)"

lemma fits_simps [simp]:
  "fits k None"
  "fits k (Some obj) \<longleftrightarrow> okey obj = k \<and> mem_kept obj"
  "okey obj = k \<Longrightarrow> fits k (persisted obj v)"
  by (auto simp: fits_def persisted_def mem_kept_def)

lemma mem_put_store [simp]:
  "fits k new \<Longrightarrow> mem_store c' (mem_put c k new w) j = (if c' = c \<and> j = k then new else mem_store c' w j)"
  by (cases new) (auto simp: mem_store_def mem_put_def find_append_key find_filter_other)

lemma mem_store_in: "mem_store c w k = Some obj \<Longrightarrow> obj \<in> set (m_objects w c)"
  unfolding mem_store_def find_Some_iff by auto

lemma mem_items_set: "set (mem_items c w) = {obj. mem_store c w (okey obj) = Some obj}"
  by (auto simp: mem_items_def dest: mem_store_in)

lemma mem_items_distinct: "distinct (map okey (mem_items c w))"
proof -
  have "inj_on okey (set (mem_items c w))"
  proof (rule inj_onI)
    fix x y assume "x \<in> set (mem_items c w)" "y \<in> set (mem_items c w)" "okey x = okey y"
    then have "Some x = Some y" unfolding mem_items_set mem_Collect_eq by metis
    then show "x = y" by simp
  qed
  moreover have "distinct (mem_items c w)" by (simp add: mem_items_def)
  ultimately show ?thesis by (simp add: distinct_map)
qed

lemma listItems_mem_list_of: "kd \<noteq> OtherKind \<Longrightarrow> listItems (mem_list_of kd l) = l \<and> listKind (mem_list_of kd l) = kd"
  by (cases kd) (simp_all add: mem_list_of_def listKind_def)

lemma mem_ext_simps [simp]:
  "client_get (mem_ext ks) = mem_get" "client_list (mem_ext ks) = mem_list ks"
  "client_create (mem_ext ks) = mem_create" "client_update (mem_ext ks) = mem_update"
  "client_delete (mem_ext ks) = mem_delete"
  "client_list_namespaces (mem_ext ks) = mem_list_namespaces"
  "client_get_namespace (mem_ext ks) = mem_get_namespace"
  "labels_Parse (mem_ext ks) = mem_parse" "finalizers (mem_ext ks) = list_finalizers"
  "range_keys (mem_ext ks) w S = sorted_list_of_fset S"
  by (simp_all add: mem_ext_def)

lemma mem_api_server: "api_server (mem_ext ks) mem_store (\<lambda>c w. m_namespaces w c)"
proof (unfold_locales, goal_cases)
  case (1 c w k obj)
  then show ?case by (simp add: mem_store_key)
next
  case (2 c w k obj)
  then show ?case using mem_store_key [of c w k obj] by (auto simp: mem_kept_def)
next
  case (3 c kd ns n w r w' c')
  then show ?case by (simp add: mem_get_def)
next
  case (4 c kd ns n w obj w')
  then show ?case by (auto simp: mem_get_def split: if_splits option.splits)
next
  case (5 c kd ns n w e w')
  then show ?case
    by (auto simp: mem_get_def mem_unreachable_def IsNotFound_def split: if_splits option.splits)
next
  case (6 c kd opt w l w' c')
  then show ?case by (simp add: mem_list_def)
next
  case (7 c kd m w l w')
  then have kd: "kd \<noteq> OtherKind"
    and l: "l = mem_list_of kd (filter (\<lambda>obj. objKind obj = kd \<and> selects m obj) (mem_items c w))"
    by (auto simp: mem_list_def split: if_splits)
  show ?case
    unfolding l using listItems_mem_list_of [OF kd] mem_items_distinct [of c w]
    by (auto simp: mem_items_set distinct_map_filter)
next
  case (8 c obj w r w' c' k)
  then show ?case by (auto simp: mem_create_def mem_kept_def split: if_splits)
next
  case (9 c obj w r w')
  have same: "obj\<lparr>UID := u, ResourceVersion := v, DeletionTimestamp := None\<rparr> =
      obj\<lparr>UID := u, ResourceVersion := v\<rparr>" for u v
    using 9(3) by simp
  from 9 show ?case
    by (auto simp: mem_create_def same mem_kept_def split: if_splits intro: served_ex)
next
  case (10 c obj w e w')
  then show ?case
    by (auto simp: mem_create_def mem_unreachable_def IsAlreadyExists_def split: if_splits)
next
  case (11 c obj w r w' c' k)
  then show ?case
    by (auto simp: mem_update_def split: if_splits option.splits)
next
  case (12 c obj w r w')
  then show ?case
    by (auto simp: mem_update_def split: if_splits option.splits)
next
  case (13 c obj w e w')
  then show ?case
    by (auto simp: mem_update_def mem_unreachable_def IsNotFound_def split: if_splits option.splits)
next
  case (14 c obj w r w' c' k)
  then show ?case
    by (auto simp: mem_delete_def mem_kept_def mem_store_key split: if_splits option.splits)
next
  case (15 c obj w r w')
  have marked: "\<exists>t' v'. x\<lparr>DeletionTimestamp := Some t, ResourceVersion := v\<rparr> =
      x\<lparr>DeletionTimestamp := Some t', ResourceVersion := v'\<rparr>" for x t v
    by blast
  show ?case
  proof (cases "mem_store c w (okey obj)")
    case None
    with 15 show ?thesis by (auto simp: mem_delete_def split: if_splits)
  next
    case (Some old)
    with 15 show ?thesis
      by (intro exI [of _ old]) (auto simp: mem_delete_def mem_kept_def mem_store_key marked split: if_splits)
  qed
next
  case (16 c obj w e w')
  then show ?case
    by (auto simp: mem_delete_def mem_unreachable_def IsNotFound_def split: if_splits option.splits)
next
  case (17 c lim w r w' c')
  then show ?case by (simp add: mem_list_namespaces_def)
next
  case (18 c w nl w')
  then show ?case by (auto simp: mem_list_namespaces_def split: if_splits)
next
  case (19 c n w r w' c')
  then show ?case by (simp add: mem_get_namespace_def)
qed

interpretation mem: platform "mem_ext ks" mem_store "\<lambda>c w. m_namespaces w c" for ks
proof (rule platform.intro)
  show "finalizer_laws (finalizers (mem_ext ks))"
    by (simp add: fin.finalizer_laws_axioms)
  show "platform_axioms (mem_ext ks)"
    by (rule platform_axioms.intro) simp
qed (rule mem_api_server)

interpretation mem: indexed_api_server "mem_ext ks" mem_store "\<lambda>c w. m_namespaces w c" ks for ks
proof (rule indexed_api_server.intro [OF mem_api_server], unfold_locales, goal_cases)
  case (1 c kd w l w')
  then have kd: "kd \<noteq> OtherKind"
    and l: "l = mem_list_of kd (filter (\<lambda>obj. objKind obj = kd \<and> isSource ks obj) (mem_items c w))"
    by (auto simp: mem_list_def split: if_splits)
  show ?case
    unfolding l using listItems_mem_list_of [OF kd] by (auto simp: mem_items_set)
qed

interpretation mem: cluster_identity "mem_ext ks" mem_store "\<lambda>c w. m_namespaces w c" mem_uid for ks
  by (rule cluster_identity.intro [OF mem_api_server], unfold_locales)
    (auto simp: mem_get_namespace_def find_Some_iff split: if_splits option.splits)

text \<open>
  A REST layer for it: a kubeconfig of n + 1 bytes names cluster n, and building a client for a
  known cluster succeeds.
\<close>

definition mem_rest :: "(nat, nat, mem) rest_ext" where
  "mem_rest =
     \<lparr>RESTConfigFromKubeConfig = (\<lambda>raw. if raw = ''bad'' then Inl (OtherError ''bad kubeconfig'') else Inr (length raw - 1)),
      with_Timeout = (\<lambda>t cfg. cfg), client_New = (\<lambda>cfg w. (Inr cfg, w))\<rparr>"

subsection \<open>A small world\<close>

text \<open>
  Cluster 0 is the hub, with a source in namespace \<open>d\<close>; clusters 1 and 2 are spokes. The
  witnesses start from this world or a variation of it.
\<close>

definition demo_keys :: KeySet where
  "demo_keys = NewKeySet ''k.io'' [''old.io'']"

definition demo_ns :: "string \<Rightarrow> namespace" where
  "demo_ns n = \<lparr>ns_Name = n, ns_Labels = fmempty, ns_DeletionTimestamp = None, ns_UID = []\<rparr>"

definition demo_object :: "string \<Rightarrow> string \<Rightarrow> object" where
  "demo_object ns n =
     (zero_object (ConfigMap (fmap_of_list [(''a'', ''1'')]) fmempty))
       \<lparr>Namespace := ns, Name := n, UID := ''u'', ResourceVersion := ''7''\<rparr>"

definition demo_source :: object where
  "demo_source = (demo_object ''d'' ''cm'')
     \<lparr>Annotations := fmap_of_list [(''k.io/sync'', []), (''k.io/target-clusters'', ''s1:x'')],
      Finalizers := [''k.io/finalizer'']\<rparr>"

text \<open>An unrelated object in a target namespace, and a stale copy stamped under the old domain.\<close>

definition demo_foreign :: object where
  "demo_foreign = demo_object ''f'' ''cm''"

definition demo_stale :: object where
  "demo_stale = (demo_object ''g'' ''cm'')
     \<lparr>Labels := fmap_of_list [(''old.io/managed-by'', ''replikate''), (''old.io/origin-namespace'', ''d''),
        (''old.io/origin-name'', ''cm'')]\<rparr>"

definition demo_world :: mem where
  "demo_world =
     \<lparr>m_objects = (\<lambda>c. if c = 0 then [demo_source, demo_foreign, demo_stale] else []),
      m_namespaces = (\<lambda>c. if c = 0
        then [demo_ns ''d'', demo_ns ''e'', demo_ns ''f'', demo_ns ''kube-system''] else [demo_ns ''x'', demo_ns ''kube-system'']),
      m_next = 1, m_down = [2]\<rparr>"

definition demo_syncer :: "nat Syncer" where
  "demo_syncer = \<lparr>s_Client = 0, s_Keys = demo_keys, s_ExcludeNamespaces = NamespaceSet ''kube-system'',
     s_HubClusterUID = mem_uid 0\<rparr>"

definition demo_registry :: "(nat, nat, mem) ClusterRegistry" where
  "demo_registry = reg_store ''s2'' 2 (reg_store ''s1'' 1 (NewClusterRegistry (\<lambda>cfg _. client_New mem_rest cfg)))"

definition demo_state :: "((nat, nat, mem) ClusterRegistry, mem) st" where
  "demo_state = \<lparr>world = demo_world, registry = Some demo_registry, effects = [],
     channels = (\<lambda>_. \<lparr>ch_cap = 64, ch_queue = []\<rparr>)\<rparr>"

abbreviation demo_X :: "(nat, mem) ext" where
  "demo_X \<equiv> mem_ext demo_keys"

abbreviation demo_nslist :: "nat \<Rightarrow> mem \<Rightarrow> namespace list" where
  "demo_nslist \<equiv> \<lambda>c w. m_namespaces w c"

lemma demo_facts [simp]:
  "wf_KeySet demo_keys" "s_Keys demo_syncer = demo_keys" "s_Client demo_syncer = 0"
  "objKind demo_source = ConfigMapKind" "world demo_state = demo_world"
  "registry demo_state = Some demo_registry" "okey demo_source = (ConfigMapKind, ''d'', ''cm'')"
  by (simp_all add: demo_keys_def demo_syncer_def demo_source_def demo_object_def demo_state_def
      objKind_def okey_def zero_object_def)

lemma demo_stored: "mem_store 0 demo_world (ConfigMapKind, ''d'', ''cm'') = Some demo_source"
  by code_simp

lemma demo_not_own_copy: "\<not> copy_of demo_keys demo_source demo_source"
  by code_simp

lemma demo_spokes: "spokes_only demo_syncer demo_state"
  by (simp add: spokes_only_def demo_registry_def reg.lookup_put)
    (simp add: reg_lookup_def NewClusterRegistry_def)

end
