(* ===== verification/Key_Properties.thy ===== *)
theory Key_Properties
  imports Mem_Platform
begin

text \<open>
  Properties of the annotation and label contract: the domains of a key set, what stamping a
  copy does, who owns a copy and how it is found again, and the finalizers of a source.
\<close>

subsection \<open>Domains and keys\<close>

definition key_fields :: "Keys \<Rightarrow> string list" where
  "key_fields k =
     [SyncAnnotation k, TargetClustersAnnotation k, Finalizer k, ManagedByLabel k, OriginNSLabel k,
      OriginNameLabel k, OriginClusterLabel k, CredentialLabel k]"

lemma key_fields_NewKeys: "key_fields (NewKeys d) = map (\<lambda>s. d @ s) key_suffixes"
  by (simp add: key_fields_def NewKeys_def key_suffixes_def)

text \<open>
  The keys built by \<open>NewKeys\<close> never collide: the eight keys of a domain are different from
  each other and from every key of another domain, whatever the domains are (one may be a
  suffix or a prefix of the other).
\<close>

lemma keys_never_collide:
  "inj_on (\<lambda>(d, i). key_fields (NewKeys d) ! i) (UNIV \<times> {..<8})"
proof (rule inj_onI, clarsimp)
  fix d e :: string and i j :: nat
  assume i: "i < 8" and j: "j < 8"
    and eq: "key_fields (NewKeys d) ! i = key_fields (NewKeys e) ! j"
  have len: "length key_suffixes = 8" and dist: "distinct key_suffixes"
    by (simp_all add: key_suffixes_def)
  have "d @ key_suffixes ! i = e @ key_suffixes ! j"
    using eq i j by (simp add: key_fields_NewKeys len)
  then have "d = e" and "key_suffixes ! i = key_suffixes ! j"
    using domain_key_eq [of "key_suffixes ! i" "key_suffixes ! j" d e] i j len by auto
  then show "d = e \<and> i = j"
    using nth_eq_iff_index_eq [OF dist] i j len by simp
qed

text \<open>
  C39: a key set honors exactly the primary domain and the given legacy domains without their
  surrounding blanks, leaving out blank ones and the primary; its keys are well-formed and the
  primary is not among the legacy ones.
\<close>

theorem NewKeySet_domains:
  "map Domain (each (NewKeySet p ds)) = p # filter (\<lambda>d. d \<noteq> [] \<and> d \<noteq> p) (map TrimSpace ds) \<and>
   Primary (NewKeySet p ds) = NewKeys p \<and> wf_KeySet (NewKeySet p ds)"
proof -
  have "map Domain (map NewKeys l) = l" for l by (induction l) simp_all
  moreover have "Legacy (NewKeySet p ds) = map NewKeys (filter (\<lambda>d. d \<noteq> [] \<and> d \<noteq> p) (map TrimSpace ds))"
    "Primary (NewKeySet p ds) = NewKeys p"
    by (simp_all add: NewKeySet_def NewKeySet_legacy_eq)
  ultimately show ?thesis by (simp add: each_def del: map_map)
qed

text \<open>
  A domain given twice in the legacy list is kept twice: the list is not deduplicated.
\<close>

lemma NewKeySet_keeps_duplicates:
  "map Domain (each (NewKeySet ''new.io'' [''old.io'', ''old.io''])) = [''new.io'', ''old.io'', ''old.io'']"
  by code_simp

text \<open>
  C36: without legacy domains, the key set computes what the keys of its one domain compute:
  the same sources, copies, owners and stamps.
\<close>

theorem single_domain_equivalence:
  "isSource (NewKeySet d []) obj = Keys_isSource (NewKeys d) obj \<and>
   isManagedCopy (NewKeySet d []) obj = Keys_isManagedCopy (NewKeys d) obj \<and>
   ownsCopy (NewKeySet d []) obj src oc =
     (Keys_isManagedCopy (NewKeys d) obj \<and> Keys_ownsCopy (NewKeys d) obj src oc) \<and>
   applyCopyMeta (NewKeySet d []) src dst oc = Keys_applyCopyMeta (NewKeys d) src dst oc"
proof -
  have ks: "NewKeySet d [] = \<lparr>Primary = NewKeys d, Legacy = []\<rparr>" by (simp add: NewKeySet_def)
  have keys: "keysFor (NewKeySet d []) obj =
      (if Keys_isManagedCopy (NewKeys d) obj then Some (NewKeys d) else None)"
    by (simp add: ks keysFor_def Let_def Keys_isManagedCopy_def)
  have "applyCopyMeta (NewKeySet d []) src dst oc = Keys_applyCopyMeta (NewKeys d) src dst oc"
    unfolding applyCopyMeta_def Keys_applyCopyMeta_def Let_def
    by (simp add: ks isSyncKey_def disj_commute)
  with keys show ?thesis
    by (simp add: isManagedCopy_def ownsCopy_def) (simp add: ks isSource_def Keys_isSource_def)
qed

subsection \<open>Stamped copies\<close>

text \<open>
  C31: stamping keeps the contract the syncer relies on: the stamped object is a managed copy
  under the primary domain, owned by its source and found by its selectors; it is never a source
  itself; and nothing but its labels and annotations has changed.
\<close>

theorem stamped_copy_contract:
  "let ks = NewKeySet p ds; cp = applyCopyMeta ks src dst oc in
     isManagedCopy ks cp \<and> ownsCopy ks cp src oc \<and> \<not> isSource ks cp \<and> legacyDomainOf ks cp = [] \<and>
     (\<exists>m\<in>set (managedListOpts ks src). selects m cp) \<and>
     cp = dst\<lparr>Labels := Labels cp, Annotations := Annotations cp\<rparr>"
proof -
  have "managed_under (Primary (NewKeySet p ds)) (applyCopyMeta (NewKeySet p ds) src dst oc)"
    using applyCopyMeta_stamped [of "NewKeySet p ds"] by (simp add: stamped_for_def)
  then have "legacyDomainOf (NewKeySet p ds) (applyCopyMeta (NewKeySet p ds) src dst oc) = []"
    by (simp add: legacyDomainOf_def Let_def)
  moreover have "applyCopyMeta (NewKeySet p ds) src dst oc =
      dst\<lparr>Labels := Labels (applyCopyMeta (NewKeySet p ds) src dst oc),
          Annotations := Annotations (applyCopyMeta (NewKeySet p ds) src dst oc)\<rparr>"
    by (subst applyCopyMeta_eq) (simp add: Labels_applyCopyMeta Annotations_applyCopyMeta)
  ultimately show ?thesis
    unfolding Let_def
    by (intro conjI marks.stamp_managed marks.stamp_owned marks.stamp_not_source marks.stamp_selected)
qed

text \<open>
  The labels of a copy are those of the source with the stamps of the primary domain on top
  (the origin cluster only when there is one), and its annotations are those of the source
  without the sync annotations of every domain and without the last-applied annotation.
\<close>

lemma stamped_metadata:
  "let ks = NewKeySet p ds; k = Primary ks; cp = applyCopyMeta ks src dst oc in
     fmlookup (Labels cp) key =
       (if key = ManagedByLabel k then Some ManagedByValue
        else if key = OriginNSLabel k then Some (Namespace src)
        else if key = OriginNameLabel k then Some (Name src)
        else if key = OriginClusterLabel k \<and> oc \<noteq> [] then Some oc
        else fmlookup (Labels src) key) \<and>
     fmlookup (Annotations cp) key =
       (if key = lastAppliedAnnotation \<or> key \<in> SyncAnnotation ` set (each ks) then None
        else fmlookup (Annotations src) key)"
  unfolding Let_def Labels_applyCopyMeta Annotations_applyCopyMeta copyAnnotations_lookup
proof (intro conjI)
  let ?ks = "NewKeySet p ds"
  show "fmlookup (copyLabels ?ks src oc) key =
      (if key = ManagedByLabel (Primary ?ks) then Some ManagedByValue
       else if key = OriginNSLabel (Primary ?ks) then Some (Namespace src)
       else if key = OriginNameLabel (Primary ?ks) then Some (Name src)
       else if key = OriginClusterLabel (Primary ?ks) \<and> oc \<noteq> [] then Some oc
       else fmlookup (Labels src) key)"
    using wf_labels_distinct [OF wf_KeySetD(2) wf_KeySetD(2), OF wf_NewKeySet wf_NewKeySet, of p ds p ds]
    by (simp add: copyLabels_def applyCopyMeta_def Let_def)
  show "(if key = lastAppliedAnnotation \<or> isSyncKey ?ks key then None else fmlookup (Annotations src) key) =
      (if key = lastAppliedAnnotation \<or> key \<in> SyncAnnotation ` set (each ?ks) then None
       else fmlookup (Annotations src) key)"
    by (simp add: isSyncKey_iff image_iff del: each_simps)
qed

text \<open>
  C32: stamping twice is stamping once, and a stamped copy is owned by the sources with the
  namespace and name it was stamped with and by no other; an owner with a cluster identity must
  also match the origin cluster, when the copy has one.
\<close>

theorem stamped_ownership:
  "let ks = NewKeySet p ds; cp = applyCopyMeta ks src dst oc; origin = originCluster_of ks cp in
     applyCopyMeta ks src cp oc = cp \<and>
     ownsCopy ks cp src' oc' =
       (Namespace src' = Namespace src \<and> Name src' = Name src \<and>
        (oc' = [] \<or> origin = [] \<or> origin = oc')) \<and>
     (oc = [] \<or> origin = oc)"
proof -
  let ?ks = "NewKeySet p ds"
  let ?cp = "applyCopyMeta ?ks src dst oc"
  note at = copyLabels_lookup [of ?ks src oc]
  have keys: "keysFor ?ks ?cp = Some (Primary ?ks)"
    by (rule keysFor_primary) (simp add: managed_under_def Labels_applyCopyMeta at)
  have "ownsCopy ?ks ?cp src' oc' =
      (Namespace src' = Namespace src \<and> Name src' = Name src \<and>
       (oc' = [] \<or> originCluster_of ?ks ?cp = [] \<or> originCluster_of ?ks ?cp = oc'))"
    by (auto simp: ownsCopy_def originCluster_of_def keys Keys_ownsCopy_def Let_def
        Labels_applyCopyMeta at map_index_def split: option.splits)
  moreover have "oc = [] \<or> originCluster_of ?ks ?cp = oc"
    by (simp add: originCluster_of_def keys Labels_applyCopyMeta at map_index_def)
  ultimately show ?thesis
    unfolding Let_def using marks.stamp_idem by blast
qed

text \<open>
  A copy mirrors the labels of its source, so one whose source carries the managed-by label of a
  legacy domain is stamped under two domains.
\<close>

lemma copy_under_two_domains:
  "let src = demo_source\<lparr>Labels := fmap_of_list [(''old.io/managed-by'', ''replikate'')]\<rparr>;
       cp = applyCopyMeta demo_keys src src [] in
   list_all (\<lambda>k. managed_under k cp) (each demo_keys)"
  by code_simp

text \<open>
  C33: every copy that \<open>ownsCopy\<close> attributes to a source is found by one of the selectors
  \<open>deleteCopies\<close> lists with, whichever domain it was stamped under; and whatever these
  selectors find is a managed copy.
\<close>

theorem owned_copies_are_found:
  assumes "ownsCopy (NewKeySet p ds) obj src oc" and "Namespace src \<noteq> []" and "Name src \<noteq> []"
  shows "(\<exists>m\<in>set (managedListOpts (NewKeySet p ds) src). selects m obj) \<and> isManagedCopy (NewKeySet p ds) obj"
proof -
  obtain k where k: "keysFor (NewKeySet p ds) obj = Some k"
    and ns: "map_index (Labels obj) (OriginNSLabel k) = Namespace src"
    and nm: "map_index (Labels obj) (OriginNameLabel k) = Name src"
    using ownsCopy_origin [OF assms(1)] by blast
  from keysFor_Some [OF k] have "k \<in> set (each (NewKeySet p ds))" "managed_under k obj" by auto
  moreover have "stamped_for k src obj"
    using ns nm assms(2,3) \<open>managed_under k obj\<close>
    by (auto simp: stamped_for_def map_index_def split: option.splits)
  ultimately show ?thesis
    unfolding selects_managedListOpts [OF wf_NewKeySet] using k by (auto simp: isManagedCopy_def)
qed

theorem owned_copies_are_found_witness:
  "(\<exists>m\<in>set (managedListOpts (NewKeySet ''k.io'' [''old.io'']) demo_source). selects m demo_stale) \<and>
   isManagedCopy (NewKeySet ''k.io'' [''old.io'']) demo_stale"
proof (rule owned_copies_are_found [where oc = "[]"])
  show "ownsCopy (NewKeySet ''k.io'' [''old.io'']) demo_stale demo_source []" by code_simp
  show "Namespace demo_source \<noteq> []" by code_simp
  show "Name demo_source \<noteq> []" by code_simp
qed

subsection \<open>From a copy back to its source\<close>

text \<open>
  Drift correction finds the source of a copy: mapping a stamped copy back gives exactly one
  request, for the source that stamped it (none when that source has no namespace or name).
\<close>

lemma mapCopyToSource_stamped:
  "mapCopyToSource (sy\<lparr>s_Keys := NewKeySet p ds\<rparr>) (applyCopyMeta (NewKeySet p ds) src dst oc) =
     (if Namespace src = [] \<or> Name src = [] then [] else [(Namespace src, Name src)])"
  by (simp add: mapCopyToSource_def marks.stamp_origin)

text \<open>
  C34: a freshly created copy never passes the predicate of the primary watch, so copies do not
  replicate; it passes the predicate of the drift-correction watch.
\<close>

theorem copies_never_trigger:
  assumes "finalizer_laws U"
  shows "\<not> sourcePredicate U (sy\<lparr>s_Keys := NewKeySet p ds\<rparr>) (fresh_copy (NewKeySet p ds) src ns oc) \<and>
    managedCopyPredicate (sy\<lparr>s_Keys := NewKeySet p ds\<rparr>) (fresh_copy (NewKeySet p ds) src ns oc)"
proof -
  let ?ks = "NewKeySet p ds" and ?cp = "fresh_copy (NewKeySet p ds) src ns oc"
  have labels: "Labels ?cp = Labels (applyCopyMeta ?ks src src oc)"
    by (simp add: fresh_copy_def Labels_applyCopyMeta)
  have "\<not> isSource ?ks (applyCopyMeta ?ks src src oc)" by (rule marks.stamp_not_source)
  then have "\<not> isSource ?ks ?cp"
    by (simp add: isSource_def fresh_copy_def Annotations_applyCopyMeta)
  moreover have "\<not> hasFinalizer U ?ks ?cp"
    by (simp add: finalizer_laws.hasFinalizer_iff [OF assms] fresh_copy_def zero_object_def)
  moreover have "isManagedCopy ?ks ?cp" using labels by (rule marks.settled)
  ultimately show ?thesis by (simp add: sourcePredicate_def managedCopyPredicate_def)
qed

theorem copies_never_trigger_witness:
  "\<not> sourcePredicate list_finalizers (demo_syncer\<lparr>s_Keys := NewKeySet ''k.io'' [''old.io'']\<rparr>)
       (fresh_copy (NewKeySet ''k.io'' [''old.io'']) demo_source ''e'' []) \<and>
   managedCopyPredicate (demo_syncer\<lparr>s_Keys := NewKeySet ''k.io'' [''old.io'']\<rparr>)
       (fresh_copy (NewKeySet ''k.io'' [''old.io'']) demo_source ''e'' [])"
  by (rule copies_never_trigger [OF fin.finalizer_laws_axioms])

subsection \<open>Finalizers\<close>

text \<open>
  C35: \<open>reconcileFinalizer\<close> leaves the primary finalizer and no legacy one, keeps every other
  finalizer in its order and the rest of the object, reports a change exactly when it made one,
  and has nothing to do the second time.
\<close>

theorem reconcileFinalizer_settles:
  assumes "finalizer_laws U"
  shows "let ks = NewKeySet p ds; r = reconcileFinalizer U ks obj; obj' = fst r in
    Finalizer (Primary ks) \<in> set (Finalizers obj') \<and>
    set (Finalizers obj') \<inter> Finalizer ` set (Legacy ks) = {} \<and>
    filter (\<lambda>f. f \<notin> Finalizer ` set (each ks)) (Finalizers obj') =
      filter (\<lambda>f. f \<notin> Finalizer ` set (each ks)) (Finalizers obj) \<and>
    obj' = obj\<lparr>Finalizers := Finalizers obj'\<rparr> \<and>
    snd r = (Finalizers obj' \<noteq> Finalizers obj) \<and>
    reconcileFinalizer U ks obj' = (obj', False)"
proof -
  let ?ks = "NewKeySet p ds"
  let ?P = "Finalizer (Primary ?ks)" and ?L = "Finalizer ` set (Legacy ?ks)"
  define fs where "fs = filter (\<lambda>f. f \<notin> ?L) (Finalizers obj) @ (if ?P \<in> set (Finalizers obj) then [] else [?P])"
  note eq = finalizer_laws.reconcileFinalizer_eq [OF assms wf_NewKeySet]
  have r: "fst (reconcileFinalizer U ?ks obj) = obj\<lparr>Finalizers := fs\<rparr>"
    by (simp add: eq fs_def)
  have P: "?P \<notin> ?L"
    using wf_labels_inject(5) wf_KeySetD [OF wf_NewKeySet] by (metis imageE)
  then have fs: "?P \<in> set fs" "set fs \<inter> ?L = {}" by (auto simp: fs_def)
  have change: "snd (reconcileFinalizer U ?ks obj) = (fs \<noteq> Finalizers obj)"
  proof (cases "?P \<in> set (Finalizers obj)")
    case True
    then show ?thesis by (auto simp: eq fs_def filter_id_conv)
  next
    case False
    then have "fs \<noteq> Finalizers obj" using fs(1) by auto
    with False show ?thesis by (simp add: eq)
  qed
  have again: "\<not> snd (reconcileFinalizer U ?ks (obj\<lparr>Finalizers := fs\<rparr>))"
    using fs by (auto simp: eq)
  have "filter (\<lambda>f. f \<notin> Finalizer ` set (each ?ks)) fs =
      filter (\<lambda>f. f \<notin> Finalizer ` set (each ?ks)) (Finalizers obj)"
    by (auto simp: fs_def intro: filter_cong)
  with r fs change finalizer_laws.reconcileFinalizer_same [OF assms wf_NewKeySet again]
  show ?thesis by (simp add: Let_def)
qed

theorem reconcileFinalizer_settles_witness:
  "let ks = NewKeySet ''k.io'' [''old.io'']; r = reconcileFinalizer list_finalizers ks demo_foreign; obj' = fst r in
    Finalizer (Primary ks) \<in> set (Finalizers obj') \<and>
    set (Finalizers obj') \<inter> Finalizer ` set (Legacy ks) = {} \<and>
    filter (\<lambda>f. f \<notin> Finalizer ` set (each ks)) (Finalizers obj') =
      filter (\<lambda>f. f \<notin> Finalizer ` set (each ks)) (Finalizers demo_foreign) \<and>
    obj' = demo_foreign\<lparr>Finalizers := Finalizers obj'\<rparr> \<and>
    snd r = (Finalizers obj' \<noteq> Finalizers demo_foreign) \<and>
    reconcileFinalizer list_finalizers ks obj' = (obj', False)"
  by (rule reconcileFinalizer_settles [OF fin.finalizer_laws_axioms])

text \<open>
  \<open>removeAllFinalizers\<close> leaves no finalizer of any domain, and keeps every other finalizer
  in its order and the rest of the object.
\<close>

lemma removeAllFinalizers_clears:
  assumes "finalizer_laws U"
  shows "let obj' = removeAllFinalizers U ks obj in
    \<not> hasFinalizer U ks obj' \<and>
    obj' = obj\<lparr>Finalizers := filter (\<lambda>f. f \<notin> Finalizer ` set (each ks)) (Finalizers obj)\<rparr>"
  unfolding Let_def finalizer_laws.hasFinalizer_iff [OF assms] finalizer_laws.removeAllFinalizers_eq [OF assms]
  by auto

subsection \<open>Comparing payloads\<close>

text \<open>
  \<open>contentEqual\<close> compares labels, annotations and payload: it panics exactly when metadata
  agrees and a ConfigMap or Secret is compared with another kind, and is false on other kinds.
\<close>

lemma contentEqual_spec:
  "contentEqual a b =
     (if Labels a = Labels b \<and> Annotations a = Annotations b \<and> objKind a \<noteq> OtherKind
      then (if objKind a = objKind b then Some (Content a = Content b) else None)
      else Some False)"
  by (auto simp: contentEqual_def objKind_def byteMapEqual_iff split: content.splits)

end
