(* ===== verification/Copy_Properties.thy ===== *)
theory Copy_Properties
  imports Mem_Platform
begin

text \<open>
  Properties of \<open>upsertCopy\<close> and \<open>deleteCopies\<close>, for every API server that keeps the laws of
  \<open>api_server\<close> (calls may fail at any time, a failed write may have taken effect).
\<close>

lemma wp_runD: "wp m Q s \<Longrightarrow> run_state m s = (a, s') \<Longrightarrow> Q a s'"
  by (simp add: wp_run)

subsection \<open>Upsert\<close>

text \<open>
  C3: an upsert that returns no error is the abstract upsert: it reports the action of
  \<open>spec_upsert\<close> for what the slot held, leaves in the slot what \<open>spec_upsert\<close> wants (a fresh
  copy, the refreshed old object with its identity kept, or the old object untouched), emits
  exactly the specified events and metrics, and changes no other slot of any cluster.
\<close>

theorem upsertCopy_refines_spec:
  assumes "api_server X store nslist" and "wf_KeySet (s_Keys sy)" and "objKind src \<noteq> OtherKind"
    and "run_state (upsertCopy X sy cl src ns oc) s = (Ret (act, None), s')"
  shows "let key = (objKind src, ns, Name src); old = store cl (world s) key;
      (want, a) = spec_upsert (s_Keys sy) src ns oc old
    in act = a \<and> slot_result old want (store cl (world s') key) \<and>
       effects s' = effects s @ spec_upsert_effects (s_Keys sy) src ns oc old \<and>
       (\<forall>c k. (c, k) \<noteq> (cl, key) \<longrightarrow> store c (world s') k = store c (world s) k)"
proof -
  have post: "upsert_post store (s_Keys sy) cl src ns oc s (Ret (act, None)) s'"
    by (rule wp_runD [OF api_server.wp_upsertCopy [OF assms(1-3)] assms(4)])
  show ?thesis
    using upsert_post_okD [OF post] upsert_postD(1) [OF post, unfolded only_slot_def]
    by (simp add: Let_def case_prod_beta)
qed

theorem upsertCopy_refines_spec_witness:
  "let r = run_state (upsertCopy demo_X demo_syncer 0 demo_source ''e'' []) demo_state;
      key = (objKind demo_source, ''e'', Name demo_source); old = mem_store 0 demo_world key;
      (want, a) = spec_upsert demo_keys demo_source ''e'' [] old
    in fst r = Ret (actionCreated, None) \<and> actionCreated = a \<and>
       slot_result old want (mem_store 0 (world (snd r)) key)"
proof -
  let ?r = "run_state (upsertCopy demo_X demo_syncer 0 demo_source ''e'' []) demo_state"
  have created: "fst ?r = Ret (actionCreated, None)" by code_simp
  then have run: "?r = (Ret (actionCreated, None), snd ?r)" by (metis prod.collapse)
  show ?thesis
    using upsertCopy_refines_spec [OF mem_api_server _ _ run] created
    by (simp add: Let_def case_prod_beta)
qed

text \<open>
  C10: whatever the API server answers, an upsert returns (it never panics), an object in the
  slot that is not managed and not adoptable, or that belongs to another source or hub, is left
  as it is, nothing outside the slot changes, and an error is reported with no action and no
  event.
\<close>

theorem upsertCopy_never_overwrites:
  assumes "api_server X store nslist" and "wf_KeySet (s_Keys sy)" and "objKind src \<noteq> OtherKind"
    and "run_state (upsertCopy X sy cl src ns oc) s = (r, s')"
  shows "let key = (objKind src, ns, Name src); old = store cl (world s) key in
    (slot_class (s_Keys sy) src oc old \<in> {Unmanaged, Foreign} \<longrightarrow> store cl (world s') key = old) \<and>
    (\<forall>c k. (c, k) \<noteq> (cl, key) \<longrightarrow> store c (world s') k = store c (world s) k) \<and>
    (\<exists>act err. r = Ret (act, err) \<and> (err \<noteq> None \<longrightarrow> act = actionNone \<and> effects s' = effects s))"
proof -
  have post: "upsert_post store (s_Keys sy) cl src ns oc s r s'"
    by (rule wp_runD [OF api_server.wp_upsertCopy [OF assms(1-3)] assms(4)])
  let ?old = "store cl (world s) (objKind src, ns, Name src)"
  have "slot_result ?old (fst (spec_upsert (s_Keys sy) src ns oc ?old)) new \<Longrightarrow> new = ?old"
    if "slot_class (s_Keys sy) src oc ?old \<in> {Unmanaged, Foreign}" for new
    using that by (auto simp: spec_upsert_def slot_result_def)
  moreover obtain act err where r: "r = Ret (act, err)"
    using upsert_postD(5) [OF post] by (cases r) auto
  moreover have "err \<noteq> None \<longrightarrow> act = actionNone \<and> effects s' = effects s"
    using upsert_post_errD [of store "s_Keys sy" cl src ns oc s act _ s'] post
    unfolding r by (cases err) auto
  ultimately show ?thesis
    using upsert_postD(2) [OF post] upsert_postD(1) [OF post, unfolded only_slot_def]
    unfolding Let_def by blast
qed

theorem upsertCopy_never_overwrites_witness:
  "let s' = snd (run_state (upsertCopy demo_X demo_syncer 0 demo_source ''f'' []) demo_state);
      key = (ConfigMapKind, ''f'', ''cm'') in
    slot_class demo_keys demo_source [] (mem_store 0 demo_world key) = Unmanaged \<and>
    mem_store 0 (world s') key = mem_store 0 demo_world key"
proof -
  have cls: "slot_class demo_keys demo_source [] (mem_store 0 demo_world (ConfigMapKind, ''f'', ''cm'')) = Unmanaged"
    by code_simp
  have nm: "Name demo_source = ''cm''" by code_simp
  obtain r s' where run: "run_state (upsertCopy demo_X demo_syncer 0 demo_source ''f'' []) demo_state = (r, s')"
    by (rule prod.exhaust)
  show ?thesis
    using upsertCopy_never_overwrites [OF mem_api_server _ _ run] cls
    by (simp add: Let_def run nm)
qed

text \<open>After an upsert the slot is one that an upsert leaves alone.\<close>

lemma spec_upsert_settled:
  assumes wf: "wf_KeySet ks"
    and key: "\<And>obj. old = Some obj \<Longrightarrow> objKind obj = objKind src"
    and res: "slot_result old (fst (spec_upsert ks src ns oc old)) new"
  shows "spec_upsert ks src ns oc new = (new, actionNone)"
proof -
  have owned: "spec_upsert ks src ns oc (Some d) = (Some d, actionNone)"
    if "refreshed ks src oc d = d" for d
    using refreshed_managed [OF wf that] that by (simp add: spec_upsert_def slot_class_def)
  show ?thesis
  proof (cases "fst (spec_upsert ks src ns oc old) = old")
    case True
    then have new: "new = old" using res by (simp add: slot_result_def)
    have "slot_class ks src oc old \<noteq> Absent"
      using True by (auto simp: spec_upsert_def slot_class_def split: option.splits if_splits)
    moreover have "slot_class ks src oc old = Adoptable \<Longrightarrow> False"
    proof -
      assume c: "slot_class ks src oc old = Adoptable"
      then obtain obj where obj: "old = Some obj" and "\<not> isManagedCopy ks obj"
        by (auto simp: slot_class_def split: option.splits if_splits)
      moreover have "refreshed ks src oc obj = obj" using True c obj by (simp add: spec_upsert_def)
      ultimately show False using refreshed_managed(1) [OF wf] by blast
    qed
    ultimately show ?thesis
      using True by (cases "slot_class ks src oc old") (auto simp: new spec_upsert_def split: if_splits)
  next
    case False
    then obtain d u v where want: "fst (spec_upsert ks src ns oc old) = Some d"
      and new: "new = Some (d\<lparr>UID := u, ResourceVersion := v\<rparr>)"
      using res by (auto simp: slot_result_def)
    have "\<exists>obj. d = refreshed ks src oc obj"
      using want False
      by (cases old) (auto simp: spec_upsert_def slot_class_def fresh_copy_def split: if_splits)
    then have "refreshed ks src oc (d\<lparr>UID := u, ResourceVersion := v\<rparr>) = d\<lparr>UID := u, ResourceVersion := v\<rparr>"
      by (auto simp: refreshed_id_iff)
    then show ?thesis unfolding new by (rule owned)
  qed
qed

text \<open>
  Upserts settle: when one has returned without error, a second one from the state it left
  reports no action and changes nothing in any cluster.
\<close>

lemma upsertCopy_settles:
  assumes "api_server X store nslist" and "wf_KeySet (s_Keys sy)" and "objKind src \<noteq> OtherKind"
    and "run_state (upsertCopy X sy cl src ns oc) s = (Ret (a, None), s1)"
    and "run_state (upsertCopy X sy cl src ns oc) s1 = (Ret (b, None), s2)"
  shows "b = actionNone \<and> store c (world s2) = store c (world s1)"
proof -
  let ?key = "(objKind src, ns, Name src)"
  have one: "upsert_post store (s_Keys sy) cl src ns oc s (Ret (a, None)) s1"
    by (rule wp_runD [OF api_server.wp_upsertCopy [OF assms(1-3)] assms(4)])
  have two: "upsert_post store (s_Keys sy) cl src ns oc s1 (Ret (b, None)) s2"
    by (rule wp_runD [OF api_server.wp_upsertCopy [OF assms(1-3)] assms(5)])
  have kind: "objKind obj = objKind src" if "store cl (world s) ?key = Some obj" for obj
    using api_server.stored_key [OF assms(1) that] by (simp add: okey_def)
  have settled: "spec_upsert (s_Keys sy) src ns oc (store cl (world s1) ?key) =
      (store cl (world s1) ?key, actionNone)"
    using spec_upsert_settled [OF assms(2) kind upsert_post_okD(1) [OF one]] .
  then have "store cl (world s2) ?key = store cl (world s1) ?key" and b: "b = actionNone"
    using upsert_post_okD [OF two] by (simp_all add: slot_result_def)
  then have "store d (world s2) k = store d (world s1) k" for d k
    using upsert_postD(1) [OF two] unfolding only_slot_def by (cases "(d, k) = (cl, ?key)") auto
  then show ?thesis using b by auto
qed

subsection \<open>Deletion\<close>

text \<open>
  C6: a deletion that returns no error deletes one object per namespace, and counts them: each
  deleted slot held a prunable object (a copy of the source outside the kept namespaces and, with
  a cluster identity, not stamped by another hub), no two of them share a namespace, and every
  namespace that held a prunable object has lost one, unless a copy of the same source that may
  not go, one stamped by another hub, stood in that namespace. Nothing else changes. Without a
  cluster identity no copy is exempt. When a namespace holds several copies, all but one of them
  stay.
\<close>

theorem deleteCopies_deletes_exactly:
  assumes "api_server X store nslist" and "wf_KeySet (s_Keys sy)" and "objKind src \<noteq> OtherKind"
    and "run_state (deleteCopies X sy cl src keep oc) s = (Ret (n, None), s')"
  shows "\<exists>D. card D = n \<and> pruned (prunable (s_Keys sy) src keep oc) D (store cl (world s)) (store cl (world s')) \<and>
    inj_on (\<lambda>(kd, ns, nm). ns) D \<and>
    (\<forall>k old. store cl (world s) k = Some old \<and> prunable (s_Keys sy) src keep oc old \<longrightarrow>
       (\<exists>kd nm. (kd, Namespace old, nm) \<in> D) \<or>
       oc \<noteq> [] \<and> (\<exists>k' old'. store cl (world s) k' = Some old' \<and> copy_of (s_Keys sy) src old' \<and>
          Namespace old' = Namespace old \<and> originCluster_of (s_Keys sy) old' \<notin> {[], oc})) \<and>
    effects s' = effects s \<and> (\<forall>c. c \<noteq> cl \<longrightarrow> store c (world s') = store c (world s))"
proof -
  have post: "delete_post store (s_Keys sy) cl src keep oc s (Ret (n, None)) s'"
    by (rule wp_runD [OF api_server.wp_deleteCopies [OF assms(1-3)] assms(4)])
  then obtain D where D: "card D = n" "pruned (prunable (s_Keys sy) src keep oc) D (store cl (world s)) (store cl (world s'))"
    and inj: "inj_on (\<lambda>k. fst (snd k)) D"
    and complete: "\<And>k old. store cl (world s) k = Some old \<Longrightarrow> prunable (s_Keys sy) src keep oc old \<Longrightarrow>
      Namespace old \<in> (\<lambda>k. fst (snd k)) ` D \<or>
      (\<exists>k' old'. store cl (world s) k' = Some old' \<and> copy_of (s_Keys sy) src old' \<and>
         Namespace old' = Namespace old \<and> \<not> prunable (s_Keys sy) src keep oc old')"
    unfolding delete_post_def by auto
  have "(\<exists>kd nm. (kd, Namespace old, nm) \<in> D) \<or> oc \<noteq> [] \<and> (\<exists>k' old'. store cl (world s) k' = Some old' \<and>
      copy_of (s_Keys sy) src old' \<and> Namespace old' = Namespace old \<and> originCluster_of (s_Keys sy) old' \<notin> {[], oc})"
    if old: "store cl (world s) k = Some old" "prunable (s_Keys sy) src keep oc old" for k old
    using complete [OF old]
  proof
    assume "Namespace old \<in> (\<lambda>k. fst (snd k)) ` D"
    then show ?thesis by auto
  next
    assume "\<exists>k' old'. store cl (world s) k' = Some old' \<and> copy_of (s_Keys sy) src old' \<and>
      Namespace old' = Namespace old \<and> \<not> prunable (s_Keys sy) src keep oc old'"
    with old(2) show ?thesis by (auto simp: prunable_def)
  qed
  moreover have "inj_on (\<lambda>(kd, ns, nm). ns) D" using inj by (simp add: case_prod_unfold)
  ultimately show ?thesis
    using D post unfolding delete_post_def by blast
qed

theorem deleteCopies_deletes_exactly_witness:
  "\<exists>D. card D = 1 \<and> pruned (prunable demo_keys demo_source None []) D (mem_store 0 demo_world)
      (mem_store 0 (world (snd (run_state (deleteCopies demo_X demo_syncer 0 demo_source None []) demo_state)))) \<and>
    (\<exists>kd nm. (kd, ''g'', nm) \<in> D)"
proof -
  have "fst (run_state (deleteCopies demo_X demo_syncer 0 demo_source None []) demo_state) = Ret (1, None)"
    by code_simp
  then have run: "run_state (deleteCopies demo_X demo_syncer 0 demo_source None []) demo_state =
      (Ret (1, None), snd (run_state (deleteCopies demo_X demo_syncer 0 demo_source None []) demo_state))"
    by (metis prod.collapse)
  have stale: "mem_store 0 demo_world (ConfigMapKind, ''g'', ''cm'') = Some demo_stale"
    "prunable demo_keys demo_source None [] demo_stale" "Namespace demo_stale = ''g''" by code_simp+
  from deleteCopies_deletes_exactly [OF mem_api_server _ _ run] obtain D where
    "card D = 1" "pruned (prunable demo_keys demo_source None []) D (mem_store 0 demo_world)
      (mem_store 0 (world (snd (run_state (deleteCopies demo_X demo_syncer 0 demo_source None []) demo_state))))"
    and "\<exists>kd nm. (kd, ''g'', nm) \<in> D" using stale by fastforce
  then show ?thesis by blast
qed

text \<open>
  The comment of \<open>deleteCopies\<close> says that without a keep set all copies go. Two cases where they
  do not: a second copy in one namespace, under another name, and on a spoke a copy of this hub
  behind one that another hub has stamped.
\<close>

definition demo_second :: object where
  "demo_second = demo_stale\<lparr>Name := ''cm2''\<rparr>"

definition demo_other_hub :: object where
  "demo_other_hub = demo_second\<lparr>Labels := fmupd ''old.io/origin-cluster'' ''elsewhere'' (Labels demo_stale)\<rparr>"

lemma prune_spares_second_copy:
  "let s = demo_state\<lparr>world := demo_world\<lparr>m_objects := (\<lambda>c. [demo_stale, demo_second])\<rparr>\<rparr>;
       (r, s') = run_state (deleteCopies demo_X demo_syncer 0 demo_source None []) s in
   copy_of demo_keys demo_source demo_second \<and> r = Ret (1, None) \<and>
   mem_store 0 (world s') (ConfigMapKind, ''g'', ''cm2'') = Some demo_second"
  by code_simp

lemma prune_shadowed_by_other_hub:
  "let s = demo_state\<lparr>world := demo_world\<lparr>m_objects := (\<lambda>c. [demo_other_hub, demo_stale])\<rparr>\<rparr>;
       (r, s') = run_state (deleteCopies demo_X demo_syncer 1 demo_source None (mem_uid 0)) s in
   prunable demo_keys demo_source None (mem_uid 0) demo_stale \<and> r = Ret (0, None) \<and>
   mem_store 1 (world s') (ConfigMapKind, ''g'', ''cm'') = Some demo_stale"
  by code_simp

text \<open>
  Whatever the API server answers, a deletion returns, never creates or alters an object
  other than by deleting it, and never touches an object that is not a copy of the source, is in
  a kept namespace, or (with a cluster identity) carries the stamp of another hub.
\<close>

lemma deleteCopies_safe:
  assumes "api_server X store nslist" and "wf_KeySet (s_Keys sy)" and "objKind src \<noteq> OtherKind"
    and "run_state (deleteCopies X sy cl src keep oc) s = (r, s')"
  shows "r \<noteq> Panic \<and> only_deleted (s_Keys sy) src (store cl (world s) k) (store cl (world s') k) \<and>
    (\<forall>obj. store cl (world s) k = Some obj \<longrightarrow>
       \<not> copy_of (s_Keys sy) src obj \<or> set_index keep (Namespace obj) \<or>
       oc \<noteq> [] \<and> originCluster_of (s_Keys sy) obj \<notin> {[], oc} \<longrightarrow>
       store cl (world s') k = Some obj)"
proof -
  have post: "delete_post store (s_Keys sy) cl src keep oc s r s'"
    by (rule wp_runD [OF api_server.wp_deleteCopies [OF assms(1-3)] assms(4)])
  obtain D where D: "pruned (prunable (s_Keys sy) src keep oc) D (store cl (world s)) (store cl (world s'))"
    using post unfolding delete_post_def by blast
  have "r \<noteq> Panic" using post unfolding delete_post_def by (cases r) auto
  moreover have "only_deleted (s_Keys sy) src (store cl (world s) k) (store cl (world s') k)"
    using prunedD(1,3) [OF D, of k] unfolding only_deleted_def prunable_def by blast
  moreover have "store cl (world s') k = Some obj"
    if "store cl (world s) k = Some obj" "\<not> prunable (s_Keys sy) src keep oc obj" for obj
    using that prunedD(1,3) [OF D, of k] by (cases "k \<in> D") auto
  ultimately show ?thesis unfolding prunable_def by blast
qed

end
