(* ===== verification/Source_Properties.thy ===== *)
theory Source_Properties
  imports Copy_Properties
begin

text \<open>
  Properties of \<open>reconcileSource\<close> over every API server that keeps the laws of \<open>platform\<close>. The
  standing assumptions: the key set is well-formed (\<open>NewKeySet\<close> builds no other), the object is
  a ConfigMap or a Secret, and the registry does not hold the local cluster
  (\<open>spokes_only\<close>, which the credential reconciler keeps true). Where the source object itself
  matters, it is the stored one and is not labeled as a copy of itself.
\<close>

subsection \<open>Safety\<close>

text \<open>
  C2: whatever fails, a reconciliation changes no object that its source may not touch, in any
  cluster: not an unmanaged object that is not adoptable, not a copy of another source, not (on
  a spoke) a copy stamped by another hub.
\<close>

theorem reconcile_leaves_others_alone:
  assumes "platform X store nslist" and "wf_KeySet (s_Keys sy)" and "objKind obj \<noteq> OtherKind"
    and "spokes_only sy s"
    and "run_state (reconcileSource X sy obj) s = (r, s')"
    and "store c (world s) k = Some o'" and "(c, k) \<noteq> (s_Client sy, okey obj)"
    and "\<not> touchable (s_Keys sy) obj (if c = s_Client sy then [] else s_HubClusterUID sy) o'"
  shows "store c (world s') k = Some o'"
proof -
  have "others_frame store sy obj (wanted_local X nslist sy obj (world s)) s s'"
    using wp_runD [OF platform.wp_reconcileSource_others [OF assms(1-4)] assms(5)] by blast
  then show ?thesis using assms(6-8) by (rule others_frame_safe)
qed

theorem reconcile_leaves_others_alone_witness:
  "mem_store 0 (world (snd (run_state (reconcileSource demo_X demo_syncer demo_source) demo_state)))
     (ConfigMapKind, ''f'', ''cm'') = Some demo_foreign"
proof -
  obtain r s' where run: "run_state (reconcileSource demo_X demo_syncer demo_source) demo_state = (r, s')"
    by (rule prod.exhaust)
  have "mem_store 0 demo_world (ConfigMapKind, ''f'', ''cm'') = Some demo_foreign" by code_simp
  moreover have "\<not> touchable demo_keys demo_source [] demo_foreign" by code_simp
  ultimately show ?thesis
    using reconcile_leaves_others_alone [OF mem.platform_axioms _ _ demo_spokes run,
        of 0 "(ConfigMapKind, ''f'', ''cm'')" demo_foreign]
    by (simp add: run)
qed

text \<open>
  C16: nothing is ever written into an excluded namespace, into the source's own namespace or
  into a namespace that is terminating: an object there, other than the source, either stays as
  it is or is a copy of the source that is deleted, and no object appears there.
\<close>

theorem reconcile_respects_exclusions:
  assumes "platform X store nslist" and "wf_KeySet (s_Keys sy)" and "objKind obj \<noteq> OtherKind"
    and "spokes_only sy s"
    and "run_state (reconcileSource X sy obj) s = (r, s')"
    and "set_index (s_ExcludeNamespaces sy) ns \<or> ns = Namespace obj \<or>
      list_all (\<lambda>n. ns_Name n = ns \<longrightarrow> ns_DeletionTimestamp n \<noteq> None) (nslist (s_Client sy) (world s))"
    and "(kd, ns, n) \<noteq> okey obj"
  shows "only_deleted (s_Keys sy) obj (store (s_Client sy) (world s) (kd, ns, n))
    (store (s_Client sy) (world s') (kd, ns, n))"
proof -
  let ?N = "wanted_local X nslist sy obj (world s)" and ?M = "store (s_Client sy) (world s)"
  have "footprint (s_Keys sy) obj [] ?N ?M ((store (s_Client sy) (world s'))(okey obj := ?M (okey obj)))"
    using wp_runD [OF platform.wp_reconcileSource_others [OF assms(1-4)] assms(5)]
    by (simp add: others_frame_def)
  moreover have "ns \<notin> ?N"
    using assms(6)
    by (auto simp: wanted_local_def wanted_namespace_def list_all_iff list_ex_iff split: sum.splits)
  ultimately show ?thesis
    using footprint_outside [of "s_Keys sy" obj "[]" ?N ?M _ "(kd, ns, n)"] assms(7) by fastforce
qed

theorem reconcile_respects_exclusions_witness:
  "only_deleted demo_keys demo_source (mem_store 0 demo_world (ConfigMapKind, ''kube-system'', ''cm''))
     (mem_store 0 (world (snd (run_state (reconcileSource demo_X demo_syncer demo_source) demo_state)))
        (ConfigMapKind, ''kube-system'', ''cm''))"
proof -
  obtain r s' where run: "run_state (reconcileSource demo_X demo_syncer demo_source) demo_state = (r, s')"
    by (rule prod.exhaust)
  have "set_index (s_ExcludeNamespaces demo_syncer) ''kube-system''" by code_simp
  then show ?thesis
    using reconcile_respects_exclusions [OF mem.platform_axioms _ _ demo_spokes run,
        of "''kube-system''" ConfigMapKind "''cm''"]
    by (simp add: run)
qed

text \<open>
  C17: the source itself is never altered but in its version and in finalizers of ours: whatever
  fails, its slot holds the same object up to these afterwards, with every finalizer of others in
  its order. It holds nothing only when the source was being deleted and no finalizer but ours
  was left, so that dropping ours completed its deletion; a source that is not being deleted is
  never removed.
\<close>

theorem reconcile_keeps_the_source:
  assumes "platform X store nslist" and "wf_KeySet (s_Keys sy)" and "objKind obj \<noteq> OtherKind"
    and "store (s_Client sy) (world s) (okey obj) = Some obj" and "\<not> copy_of (s_Keys sy) obj obj"
    and "spokes_only sy s"
    and "run_state (reconcileSource X sy obj) s = (r, s')"
  shows "(\<exists>res err. r = Ret (res, err)) \<and>
    (case store (s_Client sy) (world s') (okey obj) of
       None \<Rightarrow> DeletionTimestamp obj \<noteq> None \<and> set (Finalizers obj) \<subseteq> Finalizer ` set (each (s_Keys sy))
     | Some new \<Rightarrow> (\<exists>f v. new = obj\<lparr>Finalizers := f, ResourceVersion := v\<rparr> \<and>
         filter (\<lambda>x. x \<notin> Finalizer ` set (each (s_Keys sy))) f =
         filter (\<lambda>x. x \<notin> Finalizer ` set (each (s_Keys sy))) (Finalizers obj)))"
proof -
  have "\<exists>res err. r = Ret (res, err)" and slot: "own_slot (s_Keys sy) obj (store (s_Client sy) (world s') (okey obj))"
    using wp_runD [OF platform.wp_reconcileSource_frame [OF assms(1-6)] assms(7)]
    by (simp_all add: source_frame_def)
  moreover have "filter P xs = [] \<longleftrightarrow> (\<forall>x\<in>set xs. \<not> P x)" for P and xs :: "string list"
    by (rule filter_empty_conv)
  ultimately show ?thesis
    by (simp add: own_slot_def foreign_finalizers_def subset_iff del: each_simps split: option.splits)
qed

theorem reconcile_keeps_the_source_witness:
  "let new = mem_store 0 (world (snd (run_state (reconcileSource demo_X demo_syncer demo_source) demo_state)))
      (okey demo_source)
   in \<exists>f v. new = Some (demo_source\<lparr>Finalizers := f, ResourceVersion := v\<rparr>)"
proof -
  obtain r s' where run: "run_state (reconcileSource demo_X demo_syncer demo_source) demo_state = (r, s')"
    by (rule prod.exhaust)
  have live: "DeletionTimestamp demo_source = None" by code_simp
  have self: "mem_store (s_Client demo_syncer) (world demo_state) (okey demo_source) = Some demo_source"
    by (simp add: demo_stored)
  have own: "\<not> copy_of (s_Keys demo_syncer) demo_source demo_source" by (simp add: demo_not_own_copy)
  show ?thesis
    using reconcile_keeps_the_source [OF mem.platform_axioms _ _ self own demo_spokes run] live
    by (auto simp: run Let_def split: option.splits)
qed

subsection \<open>Convergence\<close>



end
