(* ===== verification/Source_Lifecycle.thy ===== *)
theory Source_Lifecycle
  imports Copy_Properties
begin

text \<open>
  The life cycle of a source: its finalizer is stored before any copy is written, it is released
  only after its copies are deleted, and an object that is no source or whose selector does not
  parse is left alone.
\<close>

context platform begin

lemma wp_reconcileSource_pending:
  assumes wf: "wf_KeySet (s_Keys sy)"
    and active: "DeletionTimestamp obj = None" "isSource (s_Keys sy) obj"
    and pending: "reconcileFinalizer (finalizers X) (s_Keys sy) obj = (obj', True)"
    and self: "store (s_Client sy) (world s) (okey obj) = Some obj"
  shows "wp (reconcileSource X sy obj)
    (\<lambda>r s'. effects s' = effects s \<and>
       (\<forall>c k. (c, k) \<noteq> (s_Client sy, okey obj) \<longrightarrow> store c (world s') k = store c (world s) k) \<and>
       (\<exists>err. r = Ret (zero_Result, err) \<and>
          (err = None \<longrightarrow> (\<exists>v. store (s_Client sy) (world s') (okey obj) = Some (obj'\<lparr>ResourceVersion := v\<rparr>))))) s"
proof -
  have new: "obj' = obj\<lparr>Finalizers := Finalizers obj'\<rparr>"
    using pending by (auto simp: reconcileFinalizer_eq [OF wf])
  show ?thesis
    unfolding reconcileSource_def
    using active
    apply (simp add: pending wp_bind)
    apply (rule wp_mono [OF wp_add_finalizer [OF self new active(1) foreign_reconcileFinalizer [OF wf pending]]])
    apply (auto simp: wp_rules IgnoreNotFound_def split: sum.splits)
    done
qed

lemma wp_reconcileSource_release:
  assumes wf: "wf_KeySet (s_Keys sy)" and kind: "objKind obj \<noteq> OtherKind"
    and leaving: "DeletionTimestamp obj \<noteq> None \<or> \<not> isSource (s_Keys sy) obj"
    and fin: "hasFinalizer (finalizers X) (s_Keys sy) obj"
    and self: "store (s_Client sy) (world s) (okey obj) = Some obj" "\<not> copy_of (s_Keys sy) obj obj"
    and spokes: "spokes_only sy s"
  shows "wp (reconcileSource X sy obj)
    (\<lambda>r s'. \<exists>err. r = Ret (zero_Result, err) \<and> cleanup_post X store sy obj s (Ret err) s') s"
proof -
  have "wp (call (cleanupAndRemoveFinalizer X sy obj) (\<lambda>err. State_Monad.return (Ret (zero_Result, err))))
    (\<lambda>r s'. \<exists>err. r = Ret (zero_Result, err) \<and> cleanup_post X store sy obj s (Ret err) s') s"
    unfolding wp_call
    by (rule wp_mono [OF wp_cleanup [OF wf kind fin self spokes]])
      (auto simp: wp_rules split: outcome.splits dest: cleanup_frame(2) [OF _ self(1)])
  then show ?thesis using leaving fin by (auto simp: reconcileSource_def)
qed

end

subsection \<open>Before the first copy\<close>

text \<open>
  C18: the finalizer comes before the copies: while the finalizers of an active source are not yet
  those of the primary domain, a reconciliation does nothing but update them. It emits nothing,
  asks for no retry, changes no other object in any cluster, and when it returns no error the
  API server has stored the new finalizers.
\<close>

theorem finalizer_before_copies:
  assumes "platform X store nslist" and "wf_KeySet (s_Keys sy)"
    and "DeletionTimestamp obj = None" and "isSource (s_Keys sy) obj"
    and "reconcileFinalizer (finalizers X) (s_Keys sy) obj = (obj', True)"
    and "store (s_Client sy) (world s) (okey obj) = Some obj"
    and "run_state (reconcileSource X sy obj) s = (r, s')"
  shows "effects s' = effects s \<and>
    (\<forall>c k. (c, k) \<noteq> (s_Client sy, okey obj) \<longrightarrow> store c (world s') k = store c (world s) k) \<and>
    (\<exists>err. r = Ret (zero_Result, err) \<and>
       (err = None \<longrightarrow> (\<exists>v. store (s_Client sy) (world s') (okey obj) = Some (obj'\<lparr>ResourceVersion := v\<rparr>))))"
  by (rule wp_runD [OF platform.wp_reconcileSource_pending [OF assms(1-6)] assms(7)])

text \<open>The same source before it got its finalizer, in an otherwise equal world.\<close>

definition demo_young :: object where
  "demo_young = demo_source\<lparr>Finalizers := [''old.io/finalizer'', ''other'']\<rparr>"

definition demo_young_world :: mem where
  "demo_young_world = demo_world\<lparr>m_objects := (\<lambda>c. if c = 0 then [demo_young, demo_foreign, demo_stale] else [])\<rparr>"

theorem finalizer_before_copies_witness:
  "let s' = snd (run_state (reconcileSource demo_X demo_syncer demo_young) (demo_state\<lparr>world := demo_young_world\<rparr>)) in
     mem_store 0 (world s') (ConfigMapKind, ''e'', ''cm'') = None \<and>
     map_option Finalizers (mem_store 0 (world s') (ConfigMapKind, ''d'', ''cm'')) = Some [''other'', ''k.io/finalizer'']"
proof -
  let ?s = "demo_state\<lparr>world := demo_young_world\<rparr>"
  let ?r = "run_state (reconcileSource demo_X demo_syncer demo_young) ?s"
  have res: "fst ?r = Ret (zero_Result, None)" by code_simp
  then have run: "?r = (Ret (zero_Result, None), snd ?r)" by (metis prod.collapse)
  have key: "okey demo_young = (ConfigMapKind, ''d'', ''cm'')" by (simp add: demo_young_def)
  have fin: "reconcileFinalizer list_finalizers demo_keys demo_young =
      (demo_young\<lparr>Finalizers := [''other'', ''k.io/finalizer'']\<rparr>, True)" by code_simp
  have src: "DeletionTimestamp demo_young = None" "isSource demo_keys demo_young" by code_simp+
  have stored: "mem_store 0 demo_young_world (ConfigMapKind, ''d'', ''cm'') = Some demo_young" by code_simp
  have none: "mem_store 0 demo_young_world (ConfigMapKind, ''e'', ''cm'') = None" by code_simp
  show ?thesis
    using finalizer_before_copies [OF mem.platform_axioms _ _ _ _ _ run] key fin src stored none
    by (auto simp: Let_def)
qed

subsection \<open>Letting a source go\<close>

text \<open>
  C7: a source is released only after its copies have been pruned: when a source is being deleted
  or is no longer annotated, a reconciliation either leaves it as it is, finalizers included, or
  has deleted from every namespace of the local cluster that held a copy of it a copy, and then
  removed the finalizers of every domain, which ends its deletion when no other is left. A copy
  that is the only one in its namespace is thus gone before the source; of several in one
  namespace the others stay. Objects that are no copies are as before, and returning no error
  means that the source was released.
\<close>

theorem source_outlives_its_copies:
  assumes "platform X store nslist" and "wf_KeySet (s_Keys sy)" and "objKind obj \<noteq> OtherKind"
    and "DeletionTimestamp obj \<noteq> None \<or> \<not> isSource (s_Keys sy) obj"
    and "hasFinalizer (finalizers X) (s_Keys sy) obj"
    and "store (s_Client sy) (world s) (okey obj) = Some obj" and "\<not> copy_of (s_Keys sy) obj obj"
    and "spokes_only sy s"
    and "run_state (reconcileSource X sy obj) s = (r, s')"
  shows "let M = store (s_Client sy) (world s); M' = store (s_Client sy) (world s');
      released = (\<exists>v. M' (okey obj) = persisted (removeAllFinalizers (finalizers X) (s_Keys sy) obj) v)
    in \<exists>err. r = Ret (zero_Result, err) \<and> (err = None \<longrightarrow> released) \<and>
         (M' (okey obj) = Some obj \<or>
          released \<and>
          (\<forall>k old. M k = Some old \<and> copy_of (s_Keys sy) obj old \<longrightarrow>
             deleted_slot old (M' k) \<or>
             (\<exists>k' old'. k' \<noteq> k \<and> M k' = Some old' \<and> copy_of (s_Keys sy) obj old' \<and>
                Namespace old' = Namespace old \<and> deleted_slot old' (M' k'))) \<and>
          (\<forall>k. k \<noteq> okey obj \<and> \<not> (\<exists>old. M k = Some old \<and> copy_of (s_Keys sy) obj old) \<longrightarrow> M' k = M k))"
proof -
  let ?M = "store (s_Client sy) (world s)" and ?M' = "store (s_Client sy) (world s')"
  let ?gone = "\<lambda>v. persisted (removeAllFinalizers (finalizers X) (s_Keys sy) obj) v"
  let ?C = "copy_of (s_Keys sy) obj"
  obtain err M1 where r: "r = Ret (zero_Result, err)" and M1: "M1 (okey obj) = Some obj"
    and cases: "synced (s_Keys sy) obj [] None ?M M1 \<and> (\<exists>v. ?M' = M1(okey obj := ?gone v)) \<or>
      err \<noteq> None \<and> ?M' = M1"
    using wp_runD [OF platform.wp_reconcileSource_release [OF assms(1-8)] assms(9)]
    unfolding cleanup_post_def by blast
  from cases show ?thesis
  proof (elim disjE conjE exE)
    fix v assume sync: "synced (s_Keys sy) obj [] None ?M M1" and M': "?M' = M1(okey obj := ?gone v)"
    have copies: "deleted_slot old (M1 k) \<or>
        (\<exists>k' old'. k' \<noteq> k \<and> ?M k' = Some old' \<and> ?C old' \<and> Namespace old' = Namespace old \<and> deleted_slot old' (M1 k'))"
      if "?M k = Some old" "?C old" for k old
      using synced_None [OF sync, of k] that by (auto simp: prunable_def)
    have rest: "M1 k = ?M k" if "\<not> (\<exists>old. ?M k = Some old \<and> ?C old)" for k
      using synced_None [OF sync, of k] that by (auto simp: prunable_def split: option.splits)
    have off: "?M' k = M1 k" if "k \<noteq> okey obj" for k using that by (simp add: M')
    have other: "k \<noteq> okey obj" if "?M k = Some old" "?C old" for k old
      using that assms(6,7) by auto
    have kept: "\<forall>k old. ?M k = Some old \<and> ?C old \<longrightarrow> deleted_slot old (?M' k) \<or>
        (\<exists>k' old'. k' \<noteq> k \<and> ?M k' = Some old' \<and> ?C old' \<and> Namespace old' = Namespace old \<and> deleted_slot old' (?M' k'))"
    proof (intro allI impI, elim conjE)
      fix k old assume k: "?M k = Some old" "?C old"
      from copies [OF k] show "deleted_slot old (?M' k) \<or>
        (\<exists>k' old'. k' \<noteq> k \<and> ?M k' = Some old' \<and> ?C old' \<and> Namespace old' = Namespace old \<and> deleted_slot old' (?M' k'))"
      proof (elim disjE exE conjE)
        assume "deleted_slot old (M1 k)"
        then show ?thesis by (simp add: off [OF other [OF k]])
      next
        fix k' old' assume "k' \<noteq> k" "?M k' = Some old'" "?C old'" "Namespace old' = Namespace old" "deleted_slot old' (M1 k')"
        then show ?thesis using off [OF other, of k' old'] by auto
      qed
    qed
    have others: "\<forall>k. k \<noteq> okey obj \<and> \<not> (\<exists>old. ?M k = Some old \<and> ?C old) \<longrightarrow> ?M' k = ?M k"
      using off rest by simp
    have rel: "\<exists>v. ?M' (okey obj) = ?gone v" by (rule exI [of _ v]) (simp add: M')
    show ?thesis
      unfolding Let_def r
      by (rule exI [of _ err], intro conjI, rule refl, rule impI, rule rel, rule disjI2, intro conjI)
        (rule rel kept others)+
  next
    assume "err \<noteq> None" "?M' = M1"
    with r M1 show ?thesis by (auto simp: Let_def)
  qed
qed

definition demo_dying :: object where
  "demo_dying = demo_source\<lparr>DeletionTimestamp := Some ''now''\<rparr>"

definition demo_dying_world :: mem where
  "demo_dying_world = demo_world\<lparr>m_objects := (\<lambda>c. if c = 0 then [demo_dying, demo_foreign, demo_stale] else [])\<rparr>"

theorem source_outlives_its_copies_witness:
  "let s' = snd (run_state (reconcileSource demo_X demo_syncer demo_dying) (demo_state\<lparr>world := demo_dying_world\<rparr>)) in
     mem_store 0 demo_dying_world (ConfigMapKind, ''d'', ''cm'') = Some demo_dying \<and>
     (\<exists>v. mem_store 0 (world s') (ConfigMapKind, ''d'', ''cm'') =
        persisted (removeAllFinalizers list_finalizers demo_keys demo_dying) v)"
proof -
  let ?s = "demo_state\<lparr>world := demo_dying_world\<rparr>"
  let ?r = "run_state (reconcileSource demo_X demo_syncer demo_dying) ?s"
  have res: "fst ?r = Ret (zero_Result, None)" by code_simp
  then have run: "?r = (Ret (zero_Result, None), snd ?r)" by (metis prod.collapse)
  have key: "okey demo_dying = (ConfigMapKind, ''d'', ''cm'')" "objKind demo_dying = ConfigMapKind"
    by (simp_all add: demo_dying_def)
  have fin: "hasFinalizer list_finalizers demo_keys demo_dying" by code_simp
  have del: "DeletionTimestamp demo_dying \<noteq> None" by (simp add: demo_dying_def)
  have own: "\<not> copy_of demo_keys demo_dying demo_dying" by code_simp
  have stored: "mem_store 0 demo_dying_world (ConfigMapKind, ''d'', ''cm'') = Some demo_dying" by code_simp
  have spokes: "spokes_only demo_syncer ?s" using demo_spokes by (simp add: spokes_only_def)
  show ?thesis
    using source_outlives_its_copies [OF mem.platform_axioms _ _ _ _ _ _ spokes run] key fin del own stored
    by (auto simp: Let_def)
qed

text \<open>
  Of two copies in one namespace the source leaves one behind, although the comments of
  \<open>cleanupAndRemoveFinalizer\<close> and \<open>deleteCopies\<close> speak of every copy.
\<close>

lemma second_copy_outlives_source:
  "let w = demo_dying_world\<lparr>m_objects := (\<lambda>c. if c = 0 then [demo_dying, demo_stale, demo_second] else [])\<rparr>;
       (r, s') = run_state (reconcileSource demo_X demo_syncer demo_dying) (demo_state\<lparr>world := w\<rparr>) in
     r = Ret (zero_Result, None) \<and> mem_store 0 (world s') (ConfigMapKind, ''d'', ''cm'') = None \<and>
     mem_store 0 (world s') (ConfigMapKind, ''g'', ''cm2'') = Some demo_second"
  by code_simp

subsection \<open>Nothing to do\<close>

text \<open>
  C26: an object that is not annotated as a source and carries no finalizer of ours, and a source
  whose selector does not parse, are left alone: no error, no retry, no change in any cluster;
  the second is reported by one \<open>InvalidSelector\<close> event.
\<close>

theorem nothing_to_reconcile:
  assumes "finalizer_laws (finalizers X)" and "wf_KeySet (s_Keys sy)"
    and "\<not> isSource (s_Keys sy) obj \<and> \<not> hasFinalizer (finalizers X) (s_Keys sy) obj \<and> evs = [] \<or>
      DeletionTimestamp obj = None \<and> isSource (s_Keys sy) obj \<and>
      \<not> snd (reconcileFinalizer (finalizers X) (s_Keys sy) obj) \<and>
      labels_Parse X (selector_value (s_Keys sy) obj) = Inl e \<and>
      evs = [Event (okey obj) Warning ''InvalidSelector'' ''Ignoring invalid sync selector %q: %v''
        [ArgS (selector_value (s_Keys sy) obj), ArgE e]]"
  shows "run_state (reconcileSource X sy obj) s = (Ret (zero_Result, None), s\<lparr>effects := effects s @ evs\<rparr>)"
proof -
  have "wp (reconcileSource X sy obj)
      (\<lambda>r s'. r = Ret (zero_Result, None) \<and> s' = s\<lparr>effects := effects s @ evs\<rparr>) s"
    using assms(3) finalizer_laws.reconcileFinalizer_same [OF assms(1,2), of obj]
    by (auto simp: reconcileSource_def cleanupAndRemoveFinalizer_def wp_rules selector_value_def)
  then show ?thesis by (simp add: wp_def case_prod_beta prod_eq_iff)
qed

theorem nothing_to_reconcile_witness:
  "run_state (reconcileSource demo_X demo_syncer demo_foreign) demo_state = (Ret (zero_Result, None), demo_state)"
proof -
  have "\<not> isSource demo_keys demo_foreign" "\<not> hasFinalizer list_finalizers demo_keys demo_foreign" by code_simp+
  then show ?thesis
    using nothing_to_reconcile [where X = demo_X and sy = demo_syncer and obj = demo_foreign and evs = "[]"
        and s = demo_state]
    by (simp add: fin.finalizer_laws_axioms)
qed

end
