(* ===== verification/Remote_Properties.thy ===== *)
theory Remote_Properties
  imports Source_Lifecycle
begin


subsection \<open>Fan-out\<close>


text \<open>The demo world with both spokes up.\<close>

definition demo_up :: "((nat, nat, mem) ClusterRegistry, mem) st" where
  "demo_up = demo_state\<lparr>world := demo_world\<lparr>m_down := []\<rparr>\<rparr>"


subsection \<open>Removing a source\<close>



subsection \<open>Limits\<close>

text \<open>The copy of the source on the second spoke, and a world in which that spoke has gone down.\<close>

definition demo_remote_copy :: object where
  "demo_remote_copy = fresh_copy demo_keys demo_source ''x'' (mem_uid 0)"

definition demo_orphan_world :: mem where
  "demo_orphan_world = demo_dying_world\<lparr>m_objects := (m_objects demo_dying_world)(2 := [demo_remote_copy])\<rparr>"

text \<open>A source that lists an excluded namespace of a spoke as its target.\<close>

definition demo_excluded_source :: object where
  "demo_excluded_source = demo_source\<lparr>Annotations :=
     fmap_of_list [(''k.io/sync'', []), (''k.io/target-clusters'', ''s1:kube-system'')]\<rparr>"

text \<open>
  The exclusion list guards the local cluster only: with \<open>kube-system\<close> excluded, no copy is
  written there on the hub, and one is written there on a spoke that the target list names.
\<close>

lemma exclusions_are_local:
  "case run_state (reconcileSource demo_X demo_syncer demo_excluded_source)
      (demo_up\<lparr>world := (world demo_up)\<lparr>m_objects := (\<lambda>c. if c = 0 then [demo_excluded_source] else [])\<rparr>\<rparr>) of
     (r, s') \<Rightarrow> r = Ret (zero_Result, None) \<and>
       set_index (s_ExcludeNamespaces demo_syncer) ''kube-system'' \<and>
       mem_store 0 (world s') (ConfigMapKind, ''kube-system'', ''cm'') = None \<and>
       mem_store 0 (world s') (ConfigMapKind, ''e'', ''cm'') \<noteq> None \<and>
       mem_store 1 (world s') (ConfigMapKind, ''kube-system'', ''cm'') \<noteq> None"
  by code_simp

text \<open>
  Two ids for one spoke: the source targets the first, the walk over the second prunes what the
  first has just written, and the run reports no failure.
\<close>

definition demo_twice :: "((nat, nat, mem) ClusterRegistry, mem) st" where
  "demo_twice = demo_up\<lparr>registry := Some (reg_store ''z1'' 1 demo_registry)\<rparr>"

lemma spoke_under_two_ids:
  "case run_state (reconcileRemote demo_X demo_syncer demo_source) demo_twice of
     (r, s') \<Rightarrow> r = Ret False \<and>
       map event_reason (effects s') = [[], ''RemoteReplicated'', []] \<and>
       mem_store 1 (world s') (ConfigMapKind, ''x'', ''cm'') = None"
  by code_simp

text \<open>A source that never had a target list: its removal walks the spokes all the same.\<close>

definition demo_plain :: object where
  "demo_plain = demo_dying\<lparr>Annotations := fmap_of_list [(''k.io/sync'', [])]\<rparr>"

lemma plain_source_contacts_spokes:
  "targetClustersValue demo_keys (Annotations demo_plain) = None \<and>
   list_ex remote_error (effects (snd (run_state (reconcileSource demo_X demo_syncer demo_plain)
     (demo_state\<lparr>world := demo_world\<lparr>m_objects := (\<lambda>c. if c = 0 then [demo_plain] else [])\<rparr>\<rparr>))))"
  by code_simp

end
