(* ===== verification/Webhook.thy ===== *)
theory Webhook
  imports Source_Reconcile
begin

text \<open>
  The admission webhook, \<open>internal/controller/webhook.go\<close>. Decoding the JSON of the request
  (its annotations) is a parameter.
\<close>

definition SelectorWebhookPath :: string where
  "SelectorWebhookPath = ''/validate-sync-selector''"

datatype response =
    Allowed string
  | Denied string "fmt_arg list"
  | Errored nat error

definition StatusBadRequest :: nat where
  "StatusBadRequest = 400"

definition SelectorValidator_Handle ::
  "('c, 'w) ext \<Rightarrow> (string \<Rightarrow> error + string_map) \<Rightarrow> KeySet \<Rightarrow> string \<Rightarrow> response" where
  "SelectorValidator_Handle X unmarshal ks raw =
     (case unmarshal raw of
        Inl err \<Rightarrow> Errored StatusBadRequest err
      | Inr ann \<Rightarrow>
          (case syncValue ks ann of
             None \<Rightarrow> Allowed ''not a Replikate source''
           | Some (key, val) \<Rightarrow>
               (case labels_Parse X val of
                  Inl err \<Rightarrow> Denied ''invalid %s selector %q: %v'' [ArgS key, ArgS val, ArgE err]
                | Inr _ \<Rightarrow> Allowed ''valid sync selector'')))"

lemma syncValue_in_None:
  "syncValue_in kl ann = None \<longleftrightarrow> (\<forall>k\<in>set kl. fmlookup ann (SyncAnnotation k) = None)"
  by (induction kl ann rule: syncValue_in.induct) (auto split: option.splits)

lemma syncValue_source: "syncValue ks (Annotations obj) \<noteq> None \<longleftrightarrow> isSource ks obj"
  by (simp add: syncValue_def syncValue_in_None isSource_iff del: each_simps not_None_eq)

text \<open>The webhook lets a source through exactly when the controller can parse its selector.\<close>

lemma Handle_allowed:
  assumes "unmarshal raw = Inr (Annotations obj)"
  shows "(\<exists>m. SelectorValidator_Handle X unmarshal ks raw = Allowed m) \<longleftrightarrow>
     \<not> isSource ks obj \<or> (\<exists>sel. labels_Parse X (selector_value ks obj) = Inr sel)"
proof (cases "syncValue ks (Annotations obj)")
  case None
  then have "\<not> isSource ks obj" using syncValue_source by blast
  with None assms show ?thesis by (simp add: SelectorValidator_Handle_def)
next
  case (Some kv)
  then have "isSource ks obj" using syncValue_source [of ks obj] by simp
  with Some assms show ?thesis
    by (auto simp: SelectorValidator_Handle_def selector_value_def split: prod.splits sum.splits)
qed

end
