(* ===== verification/Domain_Counter.thy ===== *)
theory Domain_Counter
  imports Platform
begin

text \<open>
  The gauge of managed copies per domain, \<open>internal/controller/domain_counter.go\<close>:
  \<open>count\<close> and the loop of \<open>Start\<close>, whose \<open>select\<close> receives a list of signals (a tick or the
  cancellation); when the list ends before the cancellation the loop is still waiting.
\<close>

text \<open>\<open>DefaultDomainCountInterval\<close> in seconds.\<close>

definition DefaultDomainCountInterval :: int where
  "DefaultDomainCountInterval = 60"

record 'c DomainCounter =
  d_Client :: 'c
  d_Keys :: KeySet
  d_Interval :: int

definition NeedLeaderElection :: "'c DomainCounter \<Rightarrow> bool" where
  "NeedLeaderElection d = True"

definition count_kind ::
  "('c, 'w) ext \<Rightarrow> 'c DomainCounter \<Rightarrow> Keys \<Rightarrow> kind \<Rightarrow> string \<Rightarrow> ('r, 'w, unit) go" where
  "count_kind X d k kd label = do {
     r \<leftarrow> List X (d_Client d) kd (MatchingLabels (fmap_of_list [(ManagedByLabel k, ManagedByValue)]));
     case r of
       Inl _ \<Rightarrow> State_Monad.return ()
     | Inr l \<Rightarrow> emit (GaugeSet copiesByDomain [Domain k, label] (length (listItems l)))
   }"

fun count_domains :: "('c, 'w) ext \<Rightarrow> 'c DomainCounter \<Rightarrow> Keys list \<Rightarrow> ('r, 'w, unit) go" where
  "count_domains X d [] = State_Monad.return ()"
| "count_domains X d (k # kl) = do {
     count_kind X d k ConfigMapKind ''configmap'';
     count_kind X d k SecretKind ''secret'';
     count_domains X d kl
   }"

definition count_copies :: "('c, 'w) ext \<Rightarrow> 'c DomainCounter \<Rightarrow> ('r, 'w, unit) go" where
  "count_copies X d = count_domains X d (each (d_Keys d))"

datatype signal = Done | Tick

fun Start_loop :: "('c, 'w) ext \<Rightarrow> 'c DomainCounter \<Rightarrow> signal list \<Rightarrow> ('r, 'w, error option option) go" where
  "Start_loop X d [] = State_Monad.return None"
| "Start_loop X d (Done # sigs) = State_Monad.return (Some None)"
| "Start_loop X d (Tick # sigs) = do { count_copies X d; Start_loop X d sigs }"

definition tick_interval :: "'c DomainCounter \<Rightarrow> int" where
  "tick_interval d = (if d_Interval d \<le> 0 then DefaultDomainCountInterval else d_Interval d)"

definition Start :: "('c, 'w) ext \<Rightarrow> 'c DomainCounter \<Rightarrow> signal list \<Rightarrow> ('r, 'w, error option option) go" where
  "Start X d sigs = do { count_copies X d; Start_loop X d sigs }"

subsection \<open>What the gauge shows\<close>

definition stamped_objects ::
  "('c \<Rightarrow> 'w \<Rightarrow> okey \<Rightarrow> object option) \<Rightarrow> 'c \<Rightarrow> 'w \<Rightarrow> kind \<Rightarrow> Keys \<Rightarrow> okey set" where
  "stamped_objects store c w kd k =
     {key. \<exists>obj. store c w key = Some obj \<and> objKind obj = kd \<and> managed_under k obj}"

definition gauge_of ::
  "('c \<Rightarrow> 'w \<Rightarrow> okey \<Rightarrow> object option) \<Rightarrow> 'c \<Rightarrow> 'w \<Rightarrow> Keys \<Rightarrow> kind \<Rightarrow> string \<Rightarrow> effect" where
  "gauge_of store c w k kd label =
     GaugeSet copiesByDomain [Domain k, label] (card (stamped_objects store c w kd k))"

definition all_gauges ::
  "('c \<Rightarrow> 'w \<Rightarrow> okey \<Rightarrow> object option) \<Rightarrow> 'c \<Rightarrow> 'w \<Rightarrow> Keys list \<Rightarrow> effect list" where
  "all_gauges store c w kl = concat (map (\<lambda>k.
     [gauge_of store c w k ConfigMapKind ''configmap'', gauge_of store c w k SecretKind ''secret'']) kl)"

text \<open>From world \<open>w\<close> on, lists by label do not fail.\<close>

definition lists_succeed :: "('c, 'w) ext \<Rightarrow> 'c \<Rightarrow> 'w \<Rightarrow> bool" where
  "lists_succeed X c w \<longleftrightarrow>
     (\<exists>W. w \<in> W \<and> (\<forall>w\<in>W. \<forall>kd m. kd \<noteq> OtherKind \<longrightarrow>
        \<not> isl (fst (client_list X c kd (MatchingLabels m) w)) \<and>
        snd (client_list X c kd (MatchingLabels m) w) \<in> W))"

lemma lists_succeedD:
  assumes "lists_succeed X c w" and "client_list X c kd (MatchingLabels m) w = (r, w')" and "kd \<noteq> OtherKind"
  shows "\<not> isl r" and "lists_succeed X c w'"
proof -
  obtain W where W: "w \<in> W" "\<forall>w\<in>W. \<forall>kd m. kd \<noteq> OtherKind \<longrightarrow>
      \<not> isl (fst (client_list X c kd (MatchingLabels m) w)) \<and> snd (client_list X c kd (MatchingLabels m) w) \<in> W"
    using assms(1) unfolding lists_succeed_def by blast
  then have "\<not> isl (fst (r, w')) \<and> snd (r, w') \<in> W" using assms(2,3) by metis
  with W(2) show "\<not> isl r" "lists_succeed X c w'" unfolding lists_succeed_def by auto
qed

lemma selects_managed_by:
  "selects (fmap_of_list [(ManagedByLabel k, ManagedByValue)]) obj \<longleftrightarrow> managed_under k obj"
  "selects (fmupd (ManagedByLabel k) ManagedByValue fmempty) obj \<longleftrightarrow> managed_under k obj"
  by (simp_all add: selects_def managed_under_def)

text \<open>
  One count emits at most one gauge per domain and kind, in order, each showing the number of
  copies stamped under that domain; and all of them when no list fails.
\<close>

definition count_post ::
  "('c, 'w) ext \<Rightarrow> ('c \<Rightarrow> 'w \<Rightarrow> okey \<Rightarrow> object option) \<Rightarrow> 'c DomainCounter \<Rightarrow> Keys list \<Rightarrow> ('r, 'w) st \<Rightarrow> ('r, 'w) st \<Rightarrow> bool" where
  "count_post X store d kl s s' \<longleftrightarrow>
     (\<forall>c. store c (world s') = store c (world s)) \<and> registry s' = registry s \<and> channels s' = channels s \<and>
     (\<exists>new. effects s' = effects s @ new \<and> subseq new (all_gauges store (d_Client d) (world s) kl) \<and>
        (lists_succeed X (d_Client d) (world s) \<longrightarrow>
           new = all_gauges store (d_Client d) (world s) kl \<and> lists_succeed X (d_Client d) (world s')))"

context api_server begin

lemma wp_count_kind:
  assumes kd: "kd \<noteq> OtherKind"
  shows "wp (count_kind X d k kd label)
    (\<lambda>_ s'. (\<forall>c. store c (world s') = store c (world s)) \<and> registry s' = registry s \<and> channels s' = channels s \<and>
       (\<exists>new. effects s' = effects s @ new \<and>
          (new = [gauge_of store (d_Client d) (world s) k kd label] \<and>
             (lists_succeed X (d_Client d) (world s) \<longrightarrow> lists_succeed X (d_Client d) (world s')) \<or>
           new = [] \<and> \<not> lists_succeed X (d_Client d) (world s)))) s"
proof -
  let ?m = "fmap_of_list [(ManagedByLabel k, ManagedByValue)]"
  obtain r w' where r: "client_list X (d_Client d) kd (MatchingLabels ?m) (world s) = (r, w')"
    by (rule prod.exhaust)
  note same = list_store [OF r]
  show ?thesis
  proof (cases r)
    case (Inl e)
    then have "\<not> lists_succeed X (d_Client d) (world s)"
      using lists_succeedD(1) [OF _ r kd] by auto
    with same r Inl show ?thesis by (simp add: count_kind_def List_def wp_rules wp_api)
  next
    case (Inr l)
    note l = list_ok [OF r [unfolded Inr]]
    let ?S = "stamped_objects store (d_Client d) (world s) kd k"
    have "okey ` set (listItems l) = ?S"
    proof (intro set_eqI iffI)
      fix key assume "key \<in> okey ` set (listItems l)"
      then obtain obj where "key = okey obj" "obj \<in> set (listItems l)" by blast
      then show "key \<in> ?S"
        using l by (auto simp: selects_managed_by stamped_objects_def)
    next
      fix key assume "key \<in> ?S"
      then obtain obj where "store (d_Client d) (world s) key = Some obj" "objKind obj = kd" "managed_under k obj"
        by (auto simp: stamped_objects_def)
      moreover from this(1) have "okey obj = key" by (rule stored_key)
      ultimately show "key \<in> okey ` set (listItems l)"
        using l by (auto simp: selects_managed_by image_iff)
    qed
    moreover have "card (okey ` set (listItems l)) = length (listItems l)"
      using l by (metis distinct_card length_map set_map)
    ultimately have "GaugeSet copiesByDomain [Domain k, label] (length (listItems l)) =
        gauge_of store (d_Client d) (world s) k kd label"
      by (simp add: gauge_of_def)
    with same r Inr lists_succeedD(2) [OF _ r kd] show ?thesis
      by (simp add: count_kind_def List_def wp_rules wp_api)
  qed
qed

lemma wp_count_domains: "wp (count_domains X d kl) (\<lambda>_. count_post X store d kl s) s"
proof (induction kl arbitrary: s)
  case Nil
  then show ?case by (simp add: wp_rules count_post_def all_gauges_def)
next
  case (Cons k kl)
  let ?cl = "d_Client d"
  have gauge: "gauge_of store ?cl w k' kd label = gauge_of store ?cl (world s) k' kd label"
    if "\<forall>c. store c w = store c (world s)" for w k' kd label
    using that by (simp add: gauge_of_def stamped_objects_def)
  have gauges: "all_gauges store ?cl w kl = all_gauges store ?cl (world s) kl"
    if "\<forall>c. store c w = store c (world s)" for w
    using gauge [OF that] by (simp only: all_gauges_def)
  show ?case
    unfolding count_domains.simps wp_bind
  proof (rule wp_mono [OF wp_count_kind], simp, rule wp_mono [OF wp_count_kind], simp,
      rule wp_mono [OF Cons.IH], goal_cases)
    case (1 _ s1 _ s2 _ s3)
    let ?ok = "\<lambda>s. lists_succeed X ?cl (world s)"
    obtain new1 where new1: "effects s1 = effects s @ new1"
        "new1 = [gauge_of store ?cl (world s) k ConfigMapKind ''configmap''] \<and> (?ok s \<longrightarrow> ?ok s1) \<or> new1 = [] \<and> \<not> ?ok s"
      using 1(1) by blast
    have same1: "\<forall>c. store c (world s1) = store c (world s)" using 1(1) by blast
    obtain new2 where new2: "effects s2 = effects s1 @ new2"
        "new2 = [gauge_of store ?cl (world s) k SecretKind ''secret''] \<and> (?ok s1 \<longrightarrow> ?ok s2) \<or> new2 = [] \<and> \<not> ?ok s1"
      using 1(2) unfolding gauge [OF same1] by blast
    have same2: "\<forall>c. store c (world s2) = store c (world s)" using 1(2) same1 by simp
    obtain new3 where new3: "effects s3 = effects s2 @ new3"
        "subseq new3 (all_gauges store ?cl (world s) kl)"
        "?ok s2 \<longrightarrow> new3 = all_gauges store ?cl (world s) kl \<and> ?ok s3"
      using 1(3) unfolding count_post_def gauges [OF same2] by blast
    have full: "all_gauges store ?cl (world s) (k # kl) =
        gauge_of store ?cl (world s) k ConfigMapKind ''configmap'' #
        gauge_of store ?cl (world s) k SecretKind ''secret'' # all_gauges store ?cl (world s) kl"
      by (simp add: all_gauges_def)
    have "subseq (new1 @ new2 @ new3) (all_gauges store ?cl (world s) (k # kl))"
    proof -
      have "subseq new1 [gauge_of store ?cl (world s) k ConfigMapKind ''configmap'']"
        "subseq new2 [gauge_of store ?cl (world s) k SecretKind ''secret'']"
        using new1(2) new2(2) by auto
      from list_emb_append_mono [OF this(1) list_emb_append_mono [OF this(2) new3(2)]]
      show ?thesis by (simp add: full)
    qed
    moreover have "?ok s \<longrightarrow> new1 @ new2 @ new3 = all_gauges store ?cl (world s) (k # kl) \<and> ?ok s3"
      unfolding full using new1(2) new2(2) new3(3) by auto
    moreover have "effects s3 = effects s @ new1 @ new2 @ new3" using new1(1) new2(1) new3(1) by simp
    ultimately show ?case using 1 unfolding count_post_def by auto
  qed
qed

lemma wp_count_copies: "wp (count_copies X d) (\<lambda>_. count_post X store d (each (d_Keys d)) s) s"
  unfolding count_copies_def by (rule wp_count_domains)

text \<open>The loop ends exactly at the cancellation and publishes once per tick before it.\<close>

lemma wp_Start_loop:
  "wp (Start_loop X d sigs)
    (\<lambda>r s'. r = (if Done \<in> set sigs then Some None else None) \<and>
       (\<forall>c. store c (world s') = store c (world s)) \<and>
       (lists_succeed X (d_Client d) (world s) \<longrightarrow>
          effects s' = effects s @ concat (replicate (length (takeWhile (\<lambda>g. g = Tick) sigs))
            (all_gauges store (d_Client d) (world s) (each (d_Keys d)))))) s"
proof (induction sigs arbitrary: s)
  case Nil
  then show ?case by (simp add: wp_rules)
next
  case (Cons g sigs)
  show ?case
  proof (cases g)
    case Done
    then show ?thesis by (simp add: wp_rules)
  next
    case Tick
    show ?thesis
      unfolding Tick Start_loop.simps wp_bind
    proof (rule wp_mono [OF wp_count_copies], rule wp_mono [OF Cons.IH], goal_cases)
      case (1 u s1 r s2)
      let ?G = "\<lambda>w. all_gauges store (d_Client d) w (each (d_Keys d))"
      have same: "store c (world s1) = store c (world s)" for c using 1(1) by (simp add: count_post_def)
      then have "?G (world s1) = ?G (world s)" by (simp add: all_gauges_def gauge_of_def stamped_objects_def)
      moreover have "lists_succeed X (d_Client d) (world s) \<longrightarrow>
          effects s1 = effects s @ ?G (world s) \<and> lists_succeed X (d_Client d) (world s1)"
        using 1(1) unfolding count_post_def by blast
      ultimately show ?case using 1(2) same by auto
    qed
  qed
qed

end

end
