(* ===== verification/Manager.thy ===== *)
theory Manager
  imports Watches Credentials Webhook Domain_Counter
begin

text \<open>
  The program's wiring, \<open>cmd/main.go\<close>: from the command-line flags to the components that run,
  with the error exits. Flag parsing, logging and the manager itself are external: the flags
  are a record, and what can fail in the manager is the record \<open>mgr_ext\<close>. The hub's identity
  is read up to five times.
\<close>

record flags =
  metricsAddr :: string
  probeAddr :: string
  enableLeaderElection :: bool
  annotationDomain :: string
  previousDomain :: string
  excludeNamespaces :: string
  enableWebhook :: bool
  enableCrossCluster :: bool
  credentialNamespace :: string

definition default_flags :: "string \<Rightarrow> flags" where
  "default_flags podNamespace =
     \<lparr>metricsAddr = '':8080'',
      probeAddr = '':8081'',
      enableLeaderElection = False,
      annotationDomain = DefaultDomain,
      previousDomain = DefaultPreviousDomain,
      excludeNamespaces = join_with CHR '','' DefaultExcludedNamespaces,
      enableWebhook = False,
      enableCrossCluster = False,
      credentialNamespace = podNamespace\<rparr>"

record manager_options =
  MetricsBindAddress :: string
  HealthProbeBindAddress :: string
  LeaderElection :: bool
  LeaderElectionID :: string

text \<open>
  \<open>setup_error\<close> tells for each of the calls that register a component with the manager whether it
  fails, \<open>mgr_Start\<close> how the manager, which runs until the process is signalled, ends.
\<close>

record ('cfg, 'c) mgr_ext =
  NewManager :: "manager_options \<Rightarrow> error + 'cfg"
  mgr_GetClient :: 'c
  setup_error :: "string \<Rightarrow> error option"
  mgr_Start :: "error option"

text \<open>What \<open>main\<close> has started, or the exit code it left with.\<close>

record 'c program =
  p_Syncer :: "'c Syncer"
  p_cmReady :: "nat option"
  p_secReady :: "nat option"
  p_Webhook :: "KeySet option"
  p_Credentials :: "'c ClusterCredentialReconciler option"
  p_Counter :: "'c DomainCounter"

datatype 'c main_result =
    Exit nat
  | Running "'c program"

text \<open>The retry loop around \<open>ClusterUIDFromConfig\<close>: a success leaves it, the result of a failed last attempt is empty.\<close>

fun readHubUID ::
  "('c, 'w) ext \<Rightarrow> ('cfg, 'c, 'w) rest_ext \<Rightarrow> 'cfg \<Rightarrow> nat \<Rightarrow> ('r, 'w, string) go" where
  "readHubUID X R cfg 0 = State_Monad.return []"
| "readHubUID X R cfg (Suc attempts) = do {
     u \<leftarrow> ClusterUIDFromConfig X R cfg;
     case u of
       Inr uid \<Rightarrow> State_Monad.return uid
     | Inl _ \<Rightarrow> readHubUID X R cfg attempts
   }"

definition buildRegistry :: "('cfg, 'c, 'w) rest_ext \<Rightarrow> ('cfg, 'c, 'w) ClusterRegistry" where
  "buildRegistry R = NewClusterRegistry (\<lambda>cfg _. client_New R cfg)"

text \<open>The channels of the source controllers are the numbers 0 (ConfigMaps) and 1 (Secrets).\<close>

definition make_channels :: "(nat \<Rightarrow> chan) \<Rightarrow> nat \<Rightarrow> chan" where
  "make_channels C = C(0 := \<lparr>ch_cap = 64, ch_queue = []\<rparr>, 1 := \<lparr>ch_cap = 64, ch_queue = []\<rparr>)"

definition start_components ::
  "('cfg, 'c) mgr_ext \<Rightarrow> flags \<Rightarrow> string \<Rightarrow> 'c main_result" where
  "start_components G fl hubUID =
     (let keys = NewKeySet (annotationDomain fl) [previousDomain fl];
          syncer = \<lparr>s_Client = mgr_GetClient G, s_Keys = keys,
            s_ExcludeNamespaces = NamespaceSet (excludeNamespaces fl), s_HubClusterUID = hubUID\<rparr>;
          cmReady = (if enableCrossCluster fl then Some 0 else None);
          secReady = (if enableCrossCluster fl then Some 1 else None)
      in if setup_error G ''ConfigMap'' \<noteq> None then Exit 1
         else if setup_error G ''Secret'' \<noteq> None then Exit 1
         else if enableCrossCluster fl \<and> setup_error G ''ClusterCredential'' \<noteq> None then Exit 1
         else if setup_error G ''domain-copy counter'' \<noteq> None then Exit 1
         else if setup_error G ''healthz'' \<noteq> None then Exit 1
         else if setup_error G ''readyz'' \<noteq> None then Exit 1
         else Running
           \<lparr>p_Syncer = syncer, p_cmReady = cmReady, p_secReady = secReady,
            p_Webhook = (if enableWebhook fl then Some keys else None),
            p_Credentials =
              (if enableCrossCluster fl then Some
                 \<lparr>cr_Client = mgr_GetClient G, cr_Namespace = credentialNamespace fl, cr_Keys = keys,
                  cr_HubClusterUID = hubUID, cr_Notify = [0, 1]\<rparr>
               else None),
            p_Counter = \<lparr>d_Client = mgr_GetClient G, d_Keys = keys, d_Interval = 0\<rparr>\<rparr>)"

definition manager_options_of :: "flags \<Rightarrow> manager_options" where
  "manager_options_of fl =
     \<lparr>MetricsBindAddress = metricsAddr fl,
      HealthProbeBindAddress = probeAddr fl,
      LeaderElection = enableLeaderElection fl,
      LeaderElectionID = ''replikate.brainchurts.com''\<rparr>"

definition main ::
  "('c, 'w) ext \<Rightarrow> ('cfg, 'c, 'w) rest_ext \<Rightarrow> ('cfg, 'c) mgr_ext \<Rightarrow> flags \<Rightarrow>
     ('cfg, 'c, 'w, 'c main_result) rgo" where
  "main X R G fl =
     (case NewManager G (manager_options_of fl) of
        Inl _ \<Rightarrow> State_Monad.return (Exit 1)
      | Inr cfg \<Rightarrow>
          if enableCrossCluster fl then
            (if credentialNamespace fl = [] then State_Monad.return (Exit 1)
             else do {
               State_Monad.update (\<lambda>s. s\<lparr>registry := Some (buildRegistry R)\<rparr>);
               hubUID \<leftarrow> readHubUID X R cfg 5;
               State_Monad.update (\<lambda>s. s\<lparr>channels := make_channels (channels s)\<rparr>);
               State_Monad.return (start_components G fl hubUID)
             })
          else do {
            State_Monad.update (\<lambda>s. s\<lparr>registry := None\<rparr>);
            State_Monad.return (start_components G fl [])
          })"

text \<open>The exit code of the process, once the components that were started have stopped.\<close>

definition main_exit :: "('cfg, 'c) mgr_ext \<Rightarrow> 'c main_result \<Rightarrow> nat" where
  "main_exit G r = (case r of Exit n \<Rightarrow> n | Running _ \<Rightarrow> if mgr_Start G \<noteq> None then 1 else 0)"

subsection \<open>What a start establishes\<close>

lemma start_components_Running:
  assumes "start_components G fl hub = Running p"
  shows "s_Keys (p_Syncer p) = NewKeySet (annotationDomain fl) [previousDomain fl]"
    and "s_Client (p_Syncer p) = mgr_GetClient G" and "s_HubClusterUID (p_Syncer p) = hub"
    and "s_ExcludeNamespaces (p_Syncer p) = NamespaceSet (excludeNamespaces fl)"
    and "p_cmReady p = (if enableCrossCluster fl then Some 0 else None)"
    and "p_secReady p = (if enableCrossCluster fl then Some 1 else None)"
    and "p_Webhook p = (if enableWebhook fl then Some (s_Keys (p_Syncer p)) else None)"
    and "p_Counter p = \<lparr>d_Client = mgr_GetClient G, d_Keys = s_Keys (p_Syncer p), d_Interval = 0\<rparr>"
    and "p_Credentials p = (if enableCrossCluster fl then Some
           \<lparr>cr_Client = mgr_GetClient G, cr_Namespace = credentialNamespace fl, cr_Keys = s_Keys (p_Syncer p),
            cr_HubClusterUID = hub, cr_Notify = [0, 1]\<rparr> else None)"
    and "setup_error G ''ConfigMap'' = None" and "setup_error G ''Secret'' = None"
  using assms by (auto simp: start_components_def Let_def split: if_splits)

lemma wp_readHubUID_frame:
  "wp (readHubUID X R cfg n) (\<lambda>_ s'. registry s' = registry s \<and> channels s' = channels s \<and> effects s' = effects s) s"
proof (induction n arbitrary: s)
  case (Suc n)
  have "registry t = registry s \<and> channels t = channels s \<and> effects t = effects s \<Longrightarrow>
      wp (readHubUID X R cfg n) (\<lambda>_ s'. registry s' = registry s \<and> channels s' = channels s \<and> effects s' = effects s) t" for t
    using Suc [of t] by (auto elim: wp_mono)
  then show ?case
    by (auto simp: ClusterUIDFromConfig_def clusterUID_def GetNamespace_def wp_rules wp_api split: sum.splits prod.splits)
qed (simp add: wp_rules)

text \<open>
  A start leaves the registry empty, or absent when cross-cluster support is off, and the
  channels of the source controllers empty.
\<close>

definition started ::
  "('cfg, 'c, 'w) rest_ext \<Rightarrow> ('cfg, 'c) mgr_ext \<Rightarrow> flags \<Rightarrow> string \<Rightarrow> 'c program \<Rightarrow>
     (('cfg, 'c, 'w) ClusterRegistry, 'w) st \<Rightarrow> bool" where
  "started R G fl hub p s \<longleftrightarrow>
     start_components G fl hub = Running p \<and>
     (if enableCrossCluster fl
      then credentialNamespace fl \<noteq> [] \<and> registry s = Some (buildRegistry R) \<and>
        (\<forall>ch\<in>{0, 1}. channels s ch = \<lparr>ch_cap = 64, ch_queue = []\<rparr>)
      else hub = [] \<and> registry s = None)"

lemma wp_main:
  "wp (main X R G fl) (\<lambda>r s'. \<forall>p. r = Running p \<longrightarrow> (\<exists>hub. started R G fl hub p s') \<and> effects s' = effects s) s"
proof (cases "NewManager G (manager_options_of fl)")
  case (Inr cfg)
  show ?thesis
  proof (cases "enableCrossCluster fl \<and> credentialNamespace fl \<noteq> []")
    case True
    show ?thesis
      unfolding main_def Inr sum.case if_P [OF conjunct1 [OF True]] if_not_P [OF conjunct2 [OF True]] wp_bind wp_update
      by (rule wp_mono [OF wp_readHubUID_frame]) (use True in \<open>auto simp: wp_rules started_def make_channels_def\<close>)
  qed (use Inr in \<open>auto simp: main_def wp_rules started_def\<close>)
qed (simp add: main_def wp_rules)

end
