(* ===== verification/Effect_Log.thy ===== *)
theory Effect_Log
  imports Webhook Watches
begin

text \<open>
  What can be followed through the code by its syntax alone: a relation between the states before
  and after a run. \<open>run_relation\<close> gives its rules for the program constructs once; it is
  interpreted here on what a component may emit, in \<open>Liveness\<close> on the clusters staying up and in
  \<open>Interference\<close> on the writes that are made. Here: every event of a reconciliation is attached
  to its source and has one of the documented reasons.
\<close>

subsection \<open>Relations kept by every run\<close>

locale run_relation =
  fixes R :: "('r, 'w) st \<Rightarrow> ('r, 'w) st \<Rightarrow> bool"
  assumes refl: "R s s"
    and trans: "R s t \<Longrightarrow> R t u \<Longrightarrow> R s u"
begin

definition follows :: "('r, 'w, 'a) go \<Rightarrow> bool" where
  "follows m \<longleftrightarrow> (\<forall>s. wp m (\<lambda>_ s'. R s s') s)"

lemma followsI: "(\<And>s. wp m (\<lambda>_ s'. R s s') s) \<Longrightarrow> follows m"
  by (simp add: follows_def)

lemma followsD: "follows m \<Longrightarrow> wp m (\<lambda>_ s'. R s s') s"
  by (simp add: follows_def)

lemma follows_return: "follows (State_Monad.return a)"
  by (simp add: follows_def wp_rules refl)

lemma follows_get: "follows State_Monad.get"
  by (simp add: follows_def wp_rules refl)

lemma follows_range_over: "follows (range_over X S)"
  by (simp add: follows_def wp_rules refl)

lemma follows_bind:
  fixes m :: "('r, 'w, 'a) go" and f :: "'a \<Rightarrow> ('r, 'w, 'b) go"
  assumes "follows m" and "\<And>a. follows (f a)"
  shows "follows (State_Monad.bind m f)"
proof (rule followsI, unfold wp_bind)
  fix s :: "('r, 'w) st"
  show "wp m (\<lambda>a. wp (f a) (\<lambda>_ s'. R s s')) s"
  proof (rule wp_mono [OF followsD [OF assms(1)]])
    fix a and t :: "('r, 'w) st"
    assume "R s t"
    then show "wp (f a) (\<lambda>_ s'. R s s') t"
      by (intro wp_mono [OF followsD [OF assms(2)]]) (rule trans)
  qed
qed

lemma follows_option:
  "follows a \<Longrightarrow> (\<And>y. x = Some y \<Longrightarrow> follows (f y)) \<Longrightarrow> follows (case x of None \<Rightarrow> a | Some y \<Rightarrow> f y)"
  by (cases x) simp_all

lemma follows_sum:
  "(\<And>e. x = Inl e \<Longrightarrow> follows (f e)) \<Longrightarrow> (\<And>y. follows (g y)) \<Longrightarrow> follows (case x of Inl e \<Rightarrow> f e | Inr y \<Rightarrow> g y)"
  by (cases x) simp_all

lemma follows_outcome:
  "follows a \<Longrightarrow> (\<And>y. follows (f y)) \<Longrightarrow> follows (case x of Panic \<Rightarrow> a | Ret y \<Rightarrow> f y)"
  by (cases x) simp_all

lemma follows_flow:
  "(\<And>a. follows (f a)) \<Longrightarrow> (\<And>r. follows (g r)) \<Longrightarrow> follows (case x of Next a \<Rightarrow> f a | Return r \<Rightarrow> g r)"
  by (cases x) simp_all

lemma follows_prod: "(\<And>a b. follows (f a b)) \<Longrightarrow> follows (case x of (a, b) \<Rightarrow> f a b)"
  by (cases x) simp

lemma follows_bool: "follows a \<Longrightarrow> follows b \<Longrightarrow> follows (case x of True \<Rightarrow> a | False \<Rightarrow> b)"
  by (cases x) simp_all

lemma follows_if: "(c \<Longrightarrow> follows a) \<Longrightarrow> (\<not> c \<Longrightarrow> follows b) \<Longrightarrow> follows (if c then a else b)"
  by simp

lemma follows_Let: "(\<And>a. a = x \<Longrightarrow> follows (f a)) \<Longrightarrow> follows (let a = x in f a)"
  by simp

lemmas follows_constructs = follows_return follows_get follows_range_over follows_bind follows_option
  follows_sum follows_outcome follows_flow follows_prod follows_bool follows_if follows_Let

lemma follows_call: "follows m \<Longrightarrow> (\<And>a. follows (f a)) \<Longrightarrow> follows (call m f)"
  unfolding call_def by (intro follows_constructs)

lemma follows_step_call: "follows m \<Longrightarrow> (\<And>a. follows (f a)) \<Longrightarrow> follows (step_call m f)"
  unfolding step_call_def by (intro follows_constructs)

lemma follows_for_range:
  "(\<And>x a. x \<in> set xs \<Longrightarrow> follows (body x a)) \<Longrightarrow> follows (for_range xs body a)"
  by (induction xs arbitrary: a) (auto intro!: follows_constructs split: flow.splits)

lemmas follows_rules = follows_constructs follows_call follows_step_call follows_for_range

end

text \<open>A relation of states that hold the registry of clusters: its lookups change nothing.\<close>

locale registry_relation = run_relation R
  for R :: "(('rc, 'c, 'w) ClusterRegistry, 'w) st \<Rightarrow> (('rc, 'c, 'w) ClusterRegistry, 'w) st \<Rightarrow> bool"
begin

lemma follows_registry: "follows (ClientFor cid)" "follows (IDs X)"
  unfolding ClientFor_def IDs_def by (intro follows_constructs)+

end

subsection \<open>What a program may emit\<close>

definition adds :: "(effect \<Rightarrow> bool) \<Rightarrow> ('r, 'w) st \<Rightarrow> ('r, 'w) st \<Rightarrow> bool" where
  "adds P s s' \<longleftrightarrow> (\<exists>new. effects s' = effects s @ new \<and> list_all P new)"

interpretation added: run_relation "adds P" for P
proof
  fix s :: "('r, 'w) st"
  show "adds P s s" by (simp add: adds_def)
next
  fix s t u :: "('r, 'w) st"
  assume "adds P s t" and "adds P t u"
  then obtain old new where "effects t = effects s @ old" "effects u = effects t @ new"
    and "list_all P old" "list_all P new" unfolding adds_def by blast
  then show "adds P s u" unfolding adds_def by (intro exI [of _ "old @ new"]) simp
qed

interpretation added_registry: registry_relation "adds P" for P ..

abbreviation emits :: "(effect \<Rightarrow> bool) \<Rightarrow> ('r, 'w, 'a) go \<Rightarrow> bool" where
  "emits P \<equiv> added.follows P"

named_theorems emits_rules \<open>introduction rules for the effects a program may emit\<close>

lemmas [emits_rules] = added.follows_rules added_registry.follows_registry

lemma emits_api [emits_rules]: "emits P (api f)"
  by (rule added.followsI) (simp add: wp_api adds_def split: prod.splits)

lemma emits_emit: "P e \<Longrightarrow> emits P (emit e)"
  by (rule added.followsI) (simp add: wp_rules adds_def)

lemma emits_Eventf: "P (Event (okey obj) ty reason fmt args) \<Longrightarrow> emits P (Eventf obj ty reason fmt args)"
  by (rule added.followsI) (simp add: wp_rules adds_def)

lemma emits_calls [emits_rules]:
  "emits P (Get X c kd ns n)" "emits P (List X c kd opt)" "emits P (Create X c obj)"
  "emits P (Update X c obj)" "emits P (Delete X c obj)" "emits P (ListNamespaces X c l)"
  unfolding Get_def List_def Create_def Update_def Delete_def ListNamespaces_def by (rule emits_api)+

lemma emits_mono: "emits P m \<Longrightarrow> (\<And>e. P e \<Longrightarrow> Q e) \<Longrightarrow> emits Q m"
  by (rule added.followsI, drule added.followsD, erule wp_mono) (auto simp: adds_def list_all_iff)

subsection \<open>Metrics\<close>

text \<open>
  The metric vectors of \<open>metrics.go\<close>: their label names, and which values the help texts
  document for a label; for kinds also \<open>unknown\<close>, which they do not mention and which \<open>kindOf\<close>
  falls back to for an object that is neither a ConfigMap nor a Secret. A vector panics when it is given another number of label values than it
  was declared with, and the registry when two collectors have the same name.
\<close>

fun metric_name :: "metric \<Rightarrow> string" where
  "metric_name reconcileTotal = ''replikate_reconcile_total''"
| "metric_name copyOperationsTotal = ''replikate_copy_operations_total''"
| "metric_name clusterUp = ''replikate_cluster_up''"
| "metric_name remoteCopyOperationsTotal = ''replikate_remote_copy_operations_total''"
| "metric_name copiesMigratedTotal = ''replikate_copies_migrated_total''"
| "metric_name copiesByDomain = ''replikate_copies_by_domain''"

fun metric_labels :: "metric \<Rightarrow> string list" where
  "metric_labels reconcileTotal = [''kind'', ''result'']"
| "metric_labels copyOperationsTotal = [''kind'', ''operation'']"
| "metric_labels clusterUp = [''cluster'']"
| "metric_labels remoteCopyOperationsTotal = [''cluster'', ''operation'']"
| "metric_labels copiesMigratedTotal = [''from_domain'']"
| "metric_labels copiesByDomain = [''domain'', ''kind'']"

definition is_gauge :: "metric \<Rightarrow> bool" where
  "is_gauge m \<longleftrightarrow> m \<in> {clusterUp, copiesByDomain}"

definition MustRegister_args :: "metric list" where
  "MustRegister_args = [reconcileTotal, copyOperationsTotal, clusterUp, remoteCopyOperationsTotal,
     copiesMigratedTotal, copiesByDomain]"

definition documented_value :: "string \<Rightarrow> string \<Rightarrow> bool" where
  "documented_value label v \<longleftrightarrow>
     (label = ''kind'' \<longrightarrow> v \<in> {''configmap'', ''secret'', ''unknown''}) \<and>
     (label = ''operation'' \<longrightarrow> v \<in> {''created'', ''updated'', ''adopted'', ''deleted''}) \<and>
     (label = ''result'' \<longrightarrow> v \<in> {''success'', ''error''})"

definition well_labeled :: "metric \<Rightarrow> string list \<Rightarrow> bool" where
  "well_labeled m ls \<longleftrightarrow> m \<in> set MustRegister_args \<and> list_all2 documented_value (metric_labels m) ls"

text \<open>An update the metrics library accepts.\<close>

fun accepted :: "effect \<Rightarrow> bool" where
  "accepted (Event k ty reason fmt args) \<longleftrightarrow> True"
| "accepted (CounterAdd m ls n) \<longleftrightarrow> \<not> is_gauge m \<and> well_labeled m ls"
| "accepted (GaugeSet m ls n) \<longleftrightarrow> is_gauge m \<and> well_labeled m ls"
| "accepted (GaugeDelete m ls) \<longleftrightarrow> is_gauge m \<and> well_labeled m ls"

lemma well_labeled_simps [simp]:
  "well_labeled reconcileTotal [k, r] \<longleftrightarrow> documented_value ''kind'' k \<and> documented_value ''result'' r"
  "well_labeled copyOperationsTotal [k, o'] \<longleftrightarrow> documented_value ''kind'' k \<and> documented_value ''operation'' o'"
  "well_labeled clusterUp [c]"
  "well_labeled remoteCopyOperationsTotal [c, o'] \<longleftrightarrow> documented_value ''operation'' o'"
  "well_labeled copiesMigratedTotal [d]"
  "well_labeled copiesByDomain [d, k] \<longleftrightarrow> documented_value ''kind'' k"
  by (auto simp: well_labeled_def MustRegister_args_def documented_value_def)

lemma documented_simps [simp]:
  "documented_value ''kind'' (kindOf obj)" "documented_value ''kind'' ''configmap''" "documented_value ''kind'' ''secret''"
  "documented_value ''operation'' ''deleted''"
  "documented_value ''operation'' (operationFor act) \<longleftrightarrow> act \<noteq> actionNone"
  "documented_value ''result'' ''success''" "documented_value ''result'' ''error''"
  by (auto simp: documented_value_def kindOf_def operationFor_def split: content.splits action.splits)

subsection \<open>The effects of a reconciliation\<close>

definition source_reasons :: "string list" where
  "source_reasons = [''Skipped'', ''Conflict'', ''Adopted'', ''Replicated'', ''UnknownCluster'', ''RemoteError'',
     ''RemoteReplicated'']"

text \<open>\<open>about obj bad e\<close>: an effect of a reconciliation of \<open>obj\<close>; \<open>bad\<close> tells whether its selector may be invalid.\<close>

fun about :: "object \<Rightarrow> bool \<Rightarrow> effect \<Rightarrow> bool" where
  "about obj bad (Event k ty reason fmt args) \<longleftrightarrow>
     k = okey obj \<and> (reason \<in> set source_reasons \<or> bad \<and> reason = ''InvalidSelector'')"
| "about obj bad (CounterAdd m ls n) \<longleftrightarrow>
     m \<in> {copyOperationsTotal, remoteCopyOperationsTotal, copiesMigratedTotal} \<and> well_labeled m ls"
| "about obj bad _ \<longleftrightarrow> False"

lemma emits_about_event [emits_rules]:
  "reason \<in> set source_reasons \<Longrightarrow> emits (about obj bad) (Eventf obj ty reason fmt args)"
  by (rule emits_Eventf) simp

lemma emits_about_counter [emits_rules]:
  "m \<in> {copyOperationsTotal, remoteCopyOperationsTotal, copiesMigratedTotal} \<Longrightarrow> well_labeled m ls \<Longrightarrow>
     emits (about obj bad) (emit (CounterAdd m ls n))"
  by (rule emits_emit) simp

lemma emits_upsertExisting [emits_rules]: "emits (about src bad) (upsertExisting X sy cl src ns oc existing)"
  unfolding upsertExisting_def by (intro emits_rules) (simp_all add: source_reasons_def)

lemma emits_upsertCopy [emits_rules]: "emits (about src bad) (upsertCopy X sy cl src ns oc)"
  unfolding upsertCopy_def by (intro emits_rules)

lemma emits_deleteCopies_item [emits_rules]: "emits P (deleteCopies_item X sy cl keep oc c a)"
  unfolding deleteCopies_item_def by (intro emits_rules)

lemma emits_deleteCopies [emits_rules]: "emits P (deleteCopies X sy cl src keep oc)"
  unfolding deleteCopies_def by (intro emits_rules)

lemma emits_countDeleted [emits_rules]: "emits (about src bad) (countDeleted src n)"
  unfolding countDeleted_def by (intro emits_rules) simp_all

lemma emits_warnUnknown [emits_rules]: "emits (about src bad) (warnUnknown src cid u)"
  unfolding warnUnknown_def by (intro emits_rules) (simp_all add: source_reasons_def)

lemma emits_reconcileRemote_dest [emits_rules]: "emits (about src bad) (reconcileRemote_dest X sy src cid cl ns a)"
  unfolding reconcileRemote_dest_def by (intro emits_rules) (simp_all add: source_reasons_def)

lemma emits_reconcileRemote_cluster [emits_rules]:
  "emits (about src bad) (reconcileRemote_cluster X sy src T cid failed)"
  unfolding reconcileRemote_cluster_def by (intro emits_rules) (simp_all add: source_reasons_def)

lemma emits_reconcileRemote [emits_rules]: "emits (about src bad) (reconcileRemote X sy src)"
  unfolding reconcileRemote_def by (intro emits_rules)

lemma emits_deleteRemoteCopies_cluster [emits_rules]:
  "emits (about src bad) (deleteRemoteCopies_cluster X sy src cid u)"
  unfolding deleteRemoteCopies_cluster_def by (intro emits_rules) (simp_all add: source_reasons_def)

lemma emits_deleteRemoteCopies [emits_rules]: "emits (about src bad) (deleteRemoteCopies X sy src)"
  unfolding deleteRemoteCopies_def by (intro emits_rules)

lemma emits_cleanup [emits_rules]: "emits (about obj bad) (cleanupAndRemoveFinalizer X sy obj)"
  unfolding cleanupAndRemoveFinalizer_def dropFinalizers_def by (intro emits_rules)

lemma emits_upsertTarget [emits_rules]: "emits (about obj bad) (upsertTarget X sy obj ns n)"
  unfolding upsertTarget_def by (intro emits_rules) simp_all

lemma emits_replicateLocal [emits_rules]: "emits (about obj bad) (replicateLocal X sy obj T)"
  unfolding replicateLocal_def by (intro emits_rules) (simp_all add: source_reasons_def)

lemma emits_replicateRemote [emits_rules]: "emits (about obj bad) (replicateRemote X sy obj)"
  unfolding replicateRemote_def by (intro emits_rules)

lemma emits_reconcileSource:
  assumes U: "finalizer_laws (finalizers X)" and wf: "wf_KeySet (s_Keys sy)"
    and bad: "isSource (s_Keys sy) obj \<Longrightarrow> isl (labels_Parse X (selector_value (s_Keys sy) obj)) \<Longrightarrow> bad"
  shows "emits (about obj bad) (reconcileSource X sy obj)"
proof (cases "isSource (s_Keys sy) obj \<and> DeletionTimestamp obj = None")
  case False
  then show ?thesis
    unfolding reconcileSource_def by (auto intro!: emits_rules)
next
  case True
  show ?thesis
  proof (cases "snd (reconcileFinalizer (finalizers X) (s_Keys sy) obj)")
    case True
    then show ?thesis
      unfolding reconcileSource_def by (auto intro!: emits_rules simp: case_prod_beta)
  next
    case False
    then have same: "reconcileFinalizer (finalizers X) (s_Keys sy) obj = (obj, False)"
      using finalizer_laws.reconcileFinalizer_same [OF U wf] by blast
    show ?thesis
    proof (cases "labels_Parse X (selector_value (s_Keys sy) obj)")
      case (Inl e)
      with bad True have "about obj bad (Event (okey obj) Warning ''InvalidSelector'' fmt args)" for fmt args
        by simp
      with same True Inl show ?thesis
        by (auto simp: reconcileSource_def selector_value_def intro!: added.follows_bind added.follows_return emits_Eventf)
    next
      case (Inr sel)
      with same True show ?thesis
        unfolding reconcileSource_def selector_value_def [symmetric] by (auto intro!: emits_rules)
    qed
  qed
qed

end
