(* ===== verification/Bystanders.thy ===== *)
theory Bystanders
  imports Effect_Log
begin

text \<open>
  Objects that are none of the program's business survive every reconciliation, whatever the
  registry holds: nothing here needs that the hub is not among its own spokes.
\<close>

definition spares ::
  "('c \<Rightarrow> 'w \<Rightarrow> okey \<Rightarrow> object option) \<Rightarrow> finalizer_util \<Rightarrow> KeySet \<Rightarrow>
     (('cfg, 'c, 'w) ClusterRegistry, 'w) st \<Rightarrow> (('cfg, 'c, 'w) ClusterRegistry, 'w) st \<Rightarrow> bool" where
  "spares store U ks s s' \<longleftrightarrow>
     registry s' = registry s \<and> channels s' = channels s \<and>
     (\<forall>c k obj. store c (world s) k = Some obj \<and> bystander U ks obj \<longrightarrow> store c (world s') k = Some obj)"

interpretation spared: run_relation "spares store U ks" for store U ks
  by unfold_locales (auto simp: spares_def)

interpretation spared_registry: registry_relation "spares store U ks" for store U ks ..

abbreviation harmless ::
  "('c \<Rightarrow> 'w \<Rightarrow> okey \<Rightarrow> object option) \<Rightarrow> finalizer_util \<Rightarrow> KeySet \<Rightarrow> (('cfg, 'c, 'w) ClusterRegistry, 'w, 'a) go \<Rightarrow> bool" where
  "harmless \<equiv> spared.follows"

lemma spares_emit: "harmless store U ks (emit e)" "harmless store U ks (Eventf obj ty reason fmt args)"
  by (rule spared.followsI; simp add: spares_def wp_rules)+

lemma spares_countDeleted: "harmless store U ks (countDeleted obj n)"
  unfolding countDeleted_def by (intro spared.follows_rules spares_emit)

lemma spares_only_slot:
  assumes "only_slot store cl key (world s) (world s')" and "registry s' = registry s" "channels s' = channels s"
    and "\<And>obj. store cl (world s) key = Some obj \<Longrightarrow> bystander U ks obj \<Longrightarrow> store cl (world s') key = Some obj"
  shows "spares store U ks s s'"
  unfolding spares_def
proof (intro conjI allI impI, rule assms(2), rule assms(3), elim conjE)
  fix c k obj
  assume "store c (world s) k = Some obj" "bystander U ks obj"
  then show "store c (world s') k = Some obj"
    using assms(1,4) by (cases "(c, k) = (cl, key)") (auto simp: only_slot_def)
qed

lemma bystander_unmanaged: "bystander U ks obj \<Longrightarrow> slot_class ks src oc (Some obj) = Unmanaged"
  by (simp add: bystander_def slot_class_def)

lemma bystander_not_copy: "bystander U ks obj \<Longrightarrow> \<not> prunable ks src keep oc obj"
  by (auto simp: bystander_def isManagedCopy_iff prunable_def copy_of_def stamped_for_def list_ex_iff simp del: each_simps)

context api_server begin

lemma spares_calls:
  "harmless store U ks (Get X c kd ns n)" "harmless store U ks (List X c kd opt)"
  "harmless store U ks (ListNamespaces X c lim)"
  using get_store list_store list_namespaces_store
  by (auto intro!: spared.followsI simp: Get_def List_def ListNamespaces_def wp_api spares_def split: prod.splits)

lemma spares_upsertCopy:
  assumes "wf_KeySet (s_Keys sy)" and "objKind src \<noteq> OtherKind"
  shows "harmless store U (s_Keys sy) (upsertCopy X sy cl src ns oc)"
proof (rule spared.followsI, rule wp_mono [OF wp_upsertCopy [OF assms]])
  fix s :: "(('cfg, 'c, 'w) ClusterRegistry, 'w) st" and r s'
  assume post: "upsert_post store (s_Keys sy) cl src ns oc s r s'"
  show "spares store U (s_Keys sy) s s'"
  proof (rule spares_only_slot [OF upsert_postD(1,3,4) [OF post]])
    fix obj
    assume "store cl (world s) (objKind src, ns, Name src) = Some obj" and "bystander U (s_Keys sy) obj"
    with upsert_postD(2) [OF post] bystander_unmanaged [of U "s_Keys sy" obj src oc]
    show "store cl (world s') (objKind src, ns, Name src) = Some obj"
      by (auto simp: spec_upsert_def slot_result_def)
  qed
qed

lemma spares_deleteCopies:
  assumes "wf_KeySet (s_Keys sy)" and "objKind src \<noteq> OtherKind"
  shows "harmless store U (s_Keys sy) (deleteCopies X sy cl src keep oc)"
proof (rule spared.followsI, rule wp_mono [OF wp_deleteCopies [OF assms]])
  fix s :: "(('cfg, 'c, 'w) ClusterRegistry, 'w) st" and r s'
  assume post: "delete_post store (s_Keys sy) cl src keep oc s r s'"
  then obtain D where D: "pruned (prunable (s_Keys sy) src keep oc) D (store cl (world s)) (store cl (world s'))"
    unfolding delete_post_def by blast
  have "store c (world s') k = Some obj"
    if at: "store c (world s) k = Some obj" "bystander U (s_Keys sy) obj" for c k obj
  proof (cases "c = cl")
    case True
    have "k \<notin> D" using prunedD(3) [OF D, of k] at bystander_not_copy [OF at(2)] True by auto
    with prunedD(1) [OF D] at(1) True show ?thesis by simp
  qed (use at post in \<open>simp add: delete_post_def\<close>)
  with post show "spares store U (s_Keys sy) s s'" by (simp add: spares_def delete_post_def)
qed

lemmas spares_rules = spared.follows_rules spared_registry.follows_registry spares_emit spares_countDeleted
  spares_calls spares_upsertCopy spares_deleteCopies

lemma spares_remote:
  assumes "wf_KeySet (s_Keys sy)" and "objKind src \<noteq> OtherKind"
  shows "harmless store U (s_Keys sy) (replicateRemote X sy src)"
    and "harmless store U (s_Keys sy) (deleteRemoteCopies X sy src)"
  unfolding replicateRemote_def reconcileRemote_def reconcileRemote_cluster_def reconcileRemote_dest_def
    warnUnknown_def deleteRemoteCopies_def deleteRemoteCopies_cluster_def
  by (intro spares_rules assms)+

lemma spares_replicateLocal:
  assumes "wf_KeySet (s_Keys sy)" and "objKind src \<noteq> OtherKind"
  shows "harmless store U (s_Keys sy) (replicateLocal X sy src T)"
  unfolding replicateLocal_def upsertTarget_def by (intro spares_rules assms)

end

text \<open>
  Updates of the source itself are seen from the start of the run, where its slot held the
  source, which is no bystander.
\<close>

definition sparing ::
  "('c \<Rightarrow> 'w \<Rightarrow> okey \<Rightarrow> object option) \<Rightarrow> finalizer_util \<Rightarrow> KeySet \<Rightarrow> (('cfg, 'c, 'w) ClusterRegistry, 'w) st \<Rightarrow>
     (('cfg, 'c, 'w) ClusterRegistry, 'w) st \<Rightarrow> (('cfg, 'c, 'w) ClusterRegistry, 'w) st \<Rightarrow> bool" where
  "sparing store U ks s0 s s' \<longleftrightarrow> (spares store U ks s0 s \<longrightarrow> spares store U ks s0 s')"

interpretation since: run_relation "sparing store U ks s0" for store U ks s0
  by unfold_locales (auto simp: sparing_def)

interpretation since_registry: registry_relation "sparing store U ks s0" for store U ks s0 ..

lemma since_harmless: "harmless store U ks m \<Longrightarrow> since.follows store U ks s0 m"
  by (rule since.followsI, erule wp_mono [OF spared.followsD])
    (auto simp: sparing_def intro: spared.trans)

context platform begin

lemma since_Update:
  assumes "okey new = okey obj" and "\<not> bystander U ks obj" and "store cl (world s0) (okey obj) = Some obj"
  shows "since.follows store U ks s0 (Update X cl new :: (('cfg, 'c, 'w) ClusterRegistry, 'w, error + unit) go)"
proof (rule since.followsI)
  fix t :: "(('cfg, 'c, 'w) ClusterRegistry, 'w) st"
  obtain r w' where r: "client_update X cl new (world t) = (r, w')" by (rule prod.exhaust)
  have "spares store U ks s0 (t\<lparr>world := w'\<rparr>)" if spared: "spares store U ks s0 t"
    unfolding spares_def
  proof (intro conjI allI impI)
    fix c k old assume old: "store c (world s0) k = Some old \<and> bystander U ks old"
    then have "(c, k) \<noteq> (cl, okey new)" using assms by auto
    from update_frame [OF r this] old spared show "store c (world (t\<lparr>world := w'\<rparr>)) k = Some old"
      by (simp add: spares_def)
  qed (use spared in \<open>simp_all add: spares_def\<close>)
  then show "wp (Update X cl new) (\<lambda>_ s'. sparing store U ks s0 t s') t"
    using r by (simp add: Update_def wp_api sparing_def)
qed

lemmas since_rules = since.follows_rules since_registry.follows_registry

lemma since_cleanup:
  assumes wf: "wf_KeySet (s_Keys sy)" and kind: "objKind obj \<noteq> OtherKind"
    and self: "store (s_Client sy) (world s0) (okey obj) = Some obj"
  shows "since.follows store (finalizers X) (s_Keys sy) s0 (cleanupAndRemoveFinalizer X sy obj)"
proof (cases "hasFinalizer (finalizers X) (s_Keys sy) obj")
  case True
  then have "\<not> bystander (finalizers X) (s_Keys sy) obj" by (simp add: bystander_def)
  note update = since_Update [OF _ this self]
  have drop: "since.follows store (finalizers X) (s_Keys sy) s0 (dropFinalizers X sy obj)"
    unfolding dropFinalizers_def
    by (intro since_rules update) (simp add: removeAllFinalizers_eq)
  show ?thesis
    unfolding cleanupAndRemoveFinalizer_def
    by (intro since_rules drop since_harmless [OF spares_countDeleted]
        since_harmless [OF spares_deleteCopies [OF wf kind]] since_harmless [OF spares_remote(2) [OF wf kind]])
qed (simp add: cleanupAndRemoveFinalizer_def since.follows_return)

lemma since_reconcileSource:
  assumes wf: "wf_KeySet (s_Keys sy)" and kind: "objKind obj \<noteq> OtherKind"
    and self: "store (s_Client sy) (world s0) (okey obj) = Some obj"
  shows "since.follows store (finalizers X) (s_Keys sy) s0 (reconcileSource X sy obj)"
proof (cases "DeletionTimestamp obj \<noteq> None \<or> \<not> isSource (s_Keys sy) obj")
  case True
  then show ?thesis
    unfolding reconcileSource_def by (auto intro!: since_rules since_cleanup [OF assms])
next
  case False
  then have "\<not> bystander (finalizers X) (s_Keys sy) obj" by (simp add: bystander_def)
  note update = since_Update [OF _ this self]
  obtain obj' b where rf: "reconcileFinalizer (finalizers X) (s_Keys sy) obj = (obj', b)" by (rule prod.exhaust)
  then have "okey obj' = okey obj" by (auto simp: reconcileFinalizer_eq [OF wf])
  note update = update [OF this]
  have obj': "objKind obj' \<noteq> OtherKind" using rf kind by (auto simp: reconcileFinalizer_eq [OF wf])
  show ?thesis
    unfolding reconcileSource_def rf Let_def prod.case
    by (intro since_rules update since_cleanup [OF assms] since_harmless [OF spares_emit(2)]
        since_harmless [OF spares_calls(3)] since_harmless [OF spares_replicateLocal [OF wf obj']]
        since_harmless [OF spares_remote(1) [OF wf obj']])
qed

end

context kind_controller begin

text \<open>A reconcile spares every bystander, without assumptions on the objects or the registry.\<close>

lemma wp_Rec_spares:
  assumes P: "platform X store nslist" and wf: "wf_KeySet (s_Keys sy)"
  shows "wp (Rec X sy ns n) (\<lambda>_ s'. spares store (finalizers X) (s_Keys sy) s s') s"
  unfolding Rec_eq wp_bind
proof (rule api_server.wp_Get [OF platform.axioms(1) [OF P]], goal_cases)
  case (1 w' src)
  have key: "okey src = (K, ns, n)"
    using api_server.stored_key [OF platform.axioms(1) [OF P] 1(2)] .
  then have kind: "objKind src \<noteq> OtherKind" using replicable by (simp add: okey_def)
  have self: "store (s_Client sy) (world s) (okey src) = Some src" using 1(2) by (simp add: key)
  have start: "spares store (finalizers X) (s_Keys sy) s (s\<lparr>world := w'\<rparr>)" using 1(1) by (simp add: spares_def)
  show ?case
    unfolding sum.case wp_call
    by (rule wp_mono [OF since.followsD [OF platform.since_reconcileSource [OF P wf kind self]]])
      (use start in \<open>auto simp: sparing_def spares_def wp_rules observeReconcile_def split: outcome.splits\<close>)
next
  case (2 w' e)
  then show ?case by (simp add: wp_rules spares_def)
qed

end

end
