(* ===== verification/System.thy ===== *)
theory System
  imports Manager Bystanders
begin

text \<open>
  The running program as a transition system: each step is one run of a component, in any order,
  or a change of the clusters from outside. The run of a step is atomic here; what may happen
  between the calls of one run is the subject of \<open>Interference\<close>.
\<close>

datatype label =
    ReconcileConfigMap string string
  | ReconcileSecret string string
  | ReconcileCredential string
  | ConfigMapWatch watch_event
  | SecretWatch watch_event
  | ConfigMapSignal
  | SecretSignal
  | CountCopies
  | Outside

definition receive :: "nat \<Rightarrow> object list \<Rightarrow> ('r, 'w) st \<Rightarrow> ('r, 'w) st" where
  "receive ch q s = s\<lparr>channels := (channels s)(ch := (channels s ch)\<lparr>ch_queue := q\<rparr>)\<rparr>"

text \<open>\<open>E\<close> bounds what may happen to the clusters from outside.\<close>

inductive step ::
  "('c, 'w) ext \<Rightarrow> ('cfg, 'c, 'w) rest_ext \<Rightarrow> 'c program \<Rightarrow> ('w \<Rightarrow> 'w \<Rightarrow> bool) \<Rightarrow>
     (('cfg, 'c, 'w) ClusterRegistry, 'w) st \<Rightarrow> label \<Rightarrow> (('cfg, 'c, 'w) ClusterRegistry, 'w) st \<Rightarrow> bool"
  for X R p E where
  reconcile_configmap:
    "run_state (ConfigMapReconciler_Reconcile X (p_Syncer p) ns n) s = (r, s') \<Longrightarrow>
     step X R p E s (ReconcileConfigMap ns n) s'"
| reconcile_secret:
    "run_state (SecretReconciler_Reconcile X (p_Syncer p) ns n) s = (r, s') \<Longrightarrow>
     step X R p E s (ReconcileSecret ns n) s'"
| reconcile_credential:
    "p_Credentials p = Some cr \<Longrightarrow>
     run_state (ClusterCredentialReconciler_Reconcile X R cr (cr_Namespace cr) n) s = (r, s') \<Longrightarrow>
     step X R p E s (ReconcileCredential n) s'"
| configmap_watch:
    "run_state (ConfigMapReconciler_SetupWithManager X (p_Syncer p) None ev) s = (reqs, s') \<Longrightarrow>
     step X R p E s (ConfigMapWatch ev) s'"
| secret_watch:
    "run_state (SecretReconciler_SetupWithManager X (p_Syncer p) None ev) s = (reqs, s') \<Longrightarrow>
     step X R p E s (SecretWatch ev) s'"
| configmap_signal:
    "p_cmReady p = Some ch \<Longrightarrow> ch_queue (channels s ch) = cred # q \<Longrightarrow>
     run_state (ConfigMapReconciler_SetupWithManager X (p_Syncer p) (Some ch) (ClusterReadyEvent cred))
       (receive ch q s) = (reqs, s') \<Longrightarrow>
     step X R p E s ConfigMapSignal s'"
| secret_signal:
    "p_secReady p = Some ch \<Longrightarrow> ch_queue (channels s ch) = cred # q \<Longrightarrow>
     run_state (SecretReconciler_SetupWithManager X (p_Syncer p) (Some ch) (ClusterReadyEvent cred))
       (receive ch q s) = (reqs, s') \<Longrightarrow>
     step X R p E s SecretSignal s'"
| count:
    "run_state (count_copies X (p_Counter p)) s = (u, s') \<Longrightarrow> step X R p E s CountCopies s'"
| outside:
    "E (world s) w' \<Longrightarrow> step X R p E s Outside (s\<lparr>world := w'\<rparr>)"

inductive_cases step_elims [elim!]:
  "step X R p E s (ReconcileConfigMap ns n) s'"
  "step X R p E s (ReconcileSecret ns n) s'"
  "step X R p E s (ReconcileCredential n) s'"
  "step X R p E s (ConfigMapWatch ev) s'"
  "step X R p E s (SecretWatch ev) s'"
  "step X R p E s ConfigMapSignal s'"
  "step X R p E s SecretSignal s'"
  "step X R p E s CountCopies s'"
  "step X R p E s Outside s'"

inductive steps ::
  "('c, 'w) ext \<Rightarrow> ('cfg, 'c, 'w) rest_ext \<Rightarrow> 'c program \<Rightarrow> ('w \<Rightarrow> 'w \<Rightarrow> bool) \<Rightarrow>
     (('cfg, 'c, 'w) ClusterRegistry, 'w) st \<Rightarrow> label list \<Rightarrow> (('cfg, 'c, 'w) ClusterRegistry, 'w) st \<Rightarrow> bool"
  for X R p E where
  nil: "steps X R p E s [] s"
| snoc: "steps X R p E s tr t \<Longrightarrow> step X R p E t l u \<Longrightarrow> steps X R p E s (tr @ [l]) u"

inductive_simps steps_Nil [simp]: "steps X R p E s [] t"

subsection \<open>Steps that only read\<close>

context api_server begin

lemma wp_watch_reads:
  "wp (ConfigMapReconciler_SetupWithManager X sy ready ev)
     (\<lambda>_ s'. (\<forall>c. store c (world s') = store c (world s)) \<and> registry s' = registry s \<and> channels s' = channels s) s"
  "wp (SecretReconciler_SetupWithManager X sy ready ev)
     (\<lambda>_ s'. (\<forall>c. store c (world s') = store c (world s)) \<and> registry s' = registry s \<and> channels s' = channels s) s"
proof -
  have list: "wp (List X c kd opt) (\<lambda>_ s'. (\<forall>c. store c (world s') = store c (world s)) \<and>
      registry s' = registry s \<and> channels s' = channels s) s" for c kd opt
    using list_store by (auto simp: List_def wp_api split: prod.splits)
  note defs = ConfigMapReconciler_SetupWithManager_def SecretReconciler_SetupWithManager_def
    sourceRequests_def mapCredentialToSources_def
  show "wp (ConfigMapReconciler_SetupWithManager X sy ready ev)
     (\<lambda>_ s'. (\<forall>c. store c (world s') = store c (world s)) \<and> registry s' = registry s \<and> channels s' = channels s) s"
    by (cases ev) (auto simp: defs wp_rules split: sum.splits intro!: wp_mono [OF list])
  show "wp (SecretReconciler_SetupWithManager X sy ready ev)
     (\<lambda>_ s'. (\<forall>c. store c (world s') = store c (world s)) \<and> registry s' = registry s \<and> channels s' = channels s) s"
    by (cases ev) (auto simp: defs wp_rules split: sum.splits intro!: wp_mono [OF list])
qed

end

subsection \<open>A deployment\<close>

text \<open>
  What the program relies on in its deployment: building a client changes no cluster, and the
  manager's own client and one built from the manager's configuration talk to the same cluster.
\<close>

locale deployment = platform X store nslist + cluster_identity X store nslist cuid
  for X :: "('c, 'w) ext" and store nslist and cuid :: "'c \<Rightarrow> string" +
  fixes R :: "('cfg, 'c, 'w) rest_ext" and G :: "('cfg, 'c) mgr_ext" and fl :: flags
  assumes client_New_store: "store c (snd (client_New R cfg w)) = store c w"
    and same_cluster: "NewManager G (manager_options_of fl) = Inr cfg \<Longrightarrow>
      client_New R cfg w = (Inr c, w') \<Longrightarrow> cuid c = cuid (mgr_GetClient G)"
begin

lemma wp_readHubUID:
  assumes "NewManager G (manager_options_of fl) = Inr cfg"
  shows "wp (readHubUID X R cfg n)
    (\<lambda>u s'. (u = [] \<or> u = cuid (mgr_GetClient G)) \<and> (\<forall>c. store c (world s') = store c (world s)) \<and>
       registry s' = registry s \<and> channels s' = channels s \<and> effects s' = effects s) s"
proof (induction n arbitrary: s)
  case (Suc n)
  let ?same = "\<lambda>t. (\<forall>c. store c (world t) = store c (world s)) \<and>
    registry t = registry s \<and> channels t = channels s \<and> effects t = effects s"
  have again: "?same t \<Longrightarrow> wp (readHubUID X R cfg n)
      (\<lambda>u s'. (u = [] \<or> u = cuid (mgr_GetClient G)) \<and> ?same s') t" for t
    using Suc [of t] by (auto elim: wp_mono)
  obtain b w1 where b: "client_New R cfg (world s) = (b, w1)" by (rule prod.exhaust)
  have w1: "store c w1 = store c (world s)" for c using client_New_store [of c cfg "world s"] b by simp
  show ?case
  proof (cases b)
    case (Inl e)
    with b w1 again show ?thesis by (simp add: ClusterUIDFromConfig_def wp_rules wp_api)
  next
    case (Inr c)
    have c: "cuid c = cuid (mgr_GetClient G)" using same_cluster [OF assms] b Inr by blast
    have "wp (clusterUID X c) (\<lambda>u. wp (case u of Inl _ \<Rightarrow> readHubUID X R cfg n | Inr uid \<Rightarrow> State_Monad.return uid)
        (\<lambda>u s'. (u = [] \<or> u = cuid (mgr_GetClient G)) \<and> ?same s')) (s\<lparr>world := w1\<rparr>)"
      by (rule wp_clusterUID) (simp_all add: w1 again wp_rules c)
    with b Inr show ?thesis by (simp add: ClusterUIDFromConfig_def wp_rules wp_api)
  qed
qed (simp add: wp_rules)

text \<open>
  \<open>inv\<close> is the invariant of every running program: the registry is there exactly when the
  credential reconciler is, and builds its clients without touching a cluster; the channels keep
  their capacity. When the identity of the hub could be read the guard against the hub as a spoke
  is on (\<open>guarded\<close>), and \<open>hub_free\<close> is kept as well: no registered spoke is the hub.
\<close>

definition ready_channel :: "'c program \<Rightarrow> nat \<Rightarrow> bool" where
  "ready_channel p ch \<longleftrightarrow> p_cmReady p = Some ch \<or> p_secReady p = Some ch"

definition inv :: "'c program \<Rightarrow> (('cfg, 'c, 'w) ClusterRegistry, 'w) st \<Rightarrow> bool" where
  "inv p s \<longleftrightarrow>
     (case registry s of
        None \<Rightarrow> p_Credentials p = None
      | Some rg \<Rightarrow> p_Credentials p \<noteq> None \<and> builds_only store rg) \<and>
     (\<forall>ch. ready_channel p ch \<longrightarrow> ch_cap (channels s ch) = 64 \<and> length (ch_queue (channels s ch)) \<le> 64)"

definition guarded :: "'c program \<Rightarrow> bool" where
  "guarded p \<longleftrightarrow>
     (p_Credentials p = None \<or> s_HubClusterUID (p_Syncer p) \<noteq> [] \<and>
        cuid (s_Client (p_Syncer p)) = s_HubClusterUID (p_Syncer p)) \<and>
     (\<forall>cr. p_Credentials p = Some cr \<longrightarrow> cr_HubClusterUID cr = s_HubClusterUID (p_Syncer p))"

definition hub_free :: "'c program \<Rightarrow> (('cfg, 'c, 'w) ClusterRegistry, 'w) st \<Rightarrow> bool" where
  "hub_free p s \<longleftrightarrow> (\<forall>rg. registry s = Some rg \<longrightarrow>
     reg.all_registered (\<lambda>_ c. cuid c \<noteq> s_HubClusterUID (p_Syncer p)) rg)"

lemma inv_frame: "inv p s \<Longrightarrow> registry s' = registry s \<Longrightarrow> channels s' = channels s \<Longrightarrow> inv p s'"
  by (simp add: inv_def)

lemma inv_spokes_only: "guarded p \<Longrightarrow> inv p s \<Longrightarrow> hub_free p s \<Longrightarrow> spokes_only (p_Syncer p) s"
  by (auto simp: inv_def guarded_def hub_free_def spokes_only_def reg.all_registered_def split: option.splits)

lemma inv_receive:
  "inv p s \<Longrightarrow> ch_queue (channels s ch) = x # q \<Longrightarrow> inv p (receive ch q s)"
  by (auto simp: inv_def receive_def)

lemma inv_credential:
  assumes inv: "inv p s" and cr: "p_Credentials p = Some cr"
    and rg: "registry s = Some rg" and post: "credential_post store cuid cr ns cid rg s r s' v"
  shows "inv p s'" and "guarded p \<Longrightarrow> hub_free p s \<Longrightarrow> hub_free p s'"
proof -
  have reg: "registry s' = Some (apply_verdict cid v rg)" using post by (simp add: credential_post_def)
  have builds: "builds_only store (apply_verdict cid v rg)"
    using inv rg by (simp add: inv_def)
  have "ch_cap (channels s' ch) = 64 \<and> length (ch_queue (channels s' ch)) \<le> 64" if "ready_channel p ch" for ch
  proof -
    have C: "ch_cap (channels s ch) = 64" "length (ch_queue (channels s ch)) \<le> 64"
      using inv that by (simp_all add: inv_def)
    show ?thesis
    proof (cases "\<exists>c. v = Registered c")
      case True
      then obtain secret where "channels s' = sent secret (cr_Notify cr) (channels s)"
        using post by (auto simp: credential_post_def)
      then show ?thesis using C sent_bounded_at [of "channels s" ch secret] by (simp add: sent_cap)
    next
      case False
      then show ?thesis using post C by (simp add: credential_post_def)
    qed
  qed
  with cr builds show "inv p s'" by (simp add: inv_def reg)
  assume g: "guarded p" and free: "hub_free p s"
  have hub: "cr_HubClusterUID cr = s_HubClusterUID (p_Syncer p)" "s_HubClusterUID (p_Syncer p) \<noteq> []"
    using g cr by (auto simp: guarded_def)
  have "reg.all_registered (\<lambda>_ c. cuid c \<noteq> s_HubClusterUID (p_Syncer p)) rg"
    using free rg by (simp add: hub_free_def)
  then have "reg.all_registered (\<lambda>_ c. cuid c \<noteq> s_HubClusterUID (p_Syncer p)) (apply_verdict cid v rg)"
    using post hub by (cases v) (auto simp: apply_verdict_def credential_post_def intro: reg.all_put reg.all_drop)
  then show "hub_free p s'" by (simp add: hub_free_def reg)
qed

text \<open>
  Every step keeps the invariant, and every bystander that the outside leaves alone, whether the
  guard is on or not.
\<close>

abbreviation keys_ok :: "'c program \<Rightarrow> bool" where
  "keys_ok p \<equiv> wf_KeySet (s_Keys (p_Syncer p))"

abbreviation spared_by :: "'c program \<Rightarrow> (('cfg, 'c, 'w) ClusterRegistry, 'w) st \<Rightarrow> (('cfg, 'c, 'w) ClusterRegistry, 'w) st \<Rightarrow> bool" where
  "spared_by p s s' \<equiv> \<forall>c k obj. store c (world s) k = Some obj \<and>
     bystander (finalizers X) (s_Keys (p_Syncer p)) obj \<longrightarrow> store c (world s') k = Some obj"

lemma step_inv:
  assumes st: "step X R p E s l s'" and wf: "keys_ok p" and inv: "inv p s"
  shows "inv p s' \<and> (guarded p \<and> hub_free p s \<longrightarrow> hub_free p s') \<and> (l \<noteq> Outside \<longrightarrow> spared_by p s s')"
proof -
  note rec = configmap.wp_Rec_spares [OF platform_axioms wf] and sec = secret.wp_Rec_spares [OF platform_axioms wf]
  have same: "inv p t' \<and> (guarded p \<and> hub_free p t \<longrightarrow> hub_free p t') \<and> spared_by p t t'"
    if "inv p t" "registry t' = registry t" "channels t' = channels t" "spared_by p t t'" for t t'
    using that inv_frame [OF that(1-3)] by (simp add: hub_free_def)
  have taken: "hub_free p (receive ch q s) = hub_free p s" "world (receive ch q s) = world s" for ch q
    by (simp_all add: hub_free_def receive_def)
  show ?thesis
    using st
  proof (cases rule: step.cases)
    case (reconcile_configmap ns n r)
    have "spares store (finalizers X) (s_Keys (p_Syncer p)) s s'"
      using rec [of ns n s] reconcile_configmap(2) by (simp add: wp_def)
    then show ?thesis using same [OF inv, of s'] by (simp add: spares_def)
  next
    case (reconcile_secret ns n r)
    have "spares store (finalizers X) (s_Keys (p_Syncer p)) s s'"
      using sec [of ns n s] reconcile_secret(2) by (simp add: wp_def)
    then show ?thesis using same [OF inv, of s'] by (simp add: spares_def)
  next
    case (reconcile_credential cr n r)
    then obtain rg where rg: "registry s = Some rg" "builds_only store rg"
      using inv by (auto simp: inv_def split: option.splits)
    obtain v where v: "credential_post store cuid cr (cr_Namespace cr) n rg s r s' v"
      using wp_Reconcile [OF rg, of R cr "cr_Namespace cr" n] unfolding wp_run [OF reconcile_credential(3)] by blast
    have "\<forall>c. store c (world s') = store c (world s)" using v by (simp add: credential_post_def)
    then show ?thesis
      using inv_credential [OF inv reconcile_credential(2) rg(1) v] by simp
  next
    case (configmap_watch ev reqs)
    then show ?thesis
      using same [OF inv, of s'] wp_watch_reads(1) [of "p_Syncer p" None ev s] by (simp add: wp_def)
  next
    case (secret_watch ev reqs)
    then show ?thesis
      using same [OF inv, of s'] wp_watch_reads(2) [of "p_Syncer p" None ev s] by (simp add: wp_def)
  next
    case (configmap_signal ch cred q reqs)
    then show ?thesis
      using same [OF inv_receive [OF inv configmap_signal(3)], of s']
        wp_watch_reads(1) [of "p_Syncer p" "Some ch" "ClusterReadyEvent cred" "receive ch q s"]
      by (simp add: wp_def taken)
  next
    case (secret_signal ch cred q reqs)
    then show ?thesis
      using same [OF inv_receive [OF inv secret_signal(3)], of s']
        wp_watch_reads(2) [of "p_Syncer p" "Some ch" "ClusterReadyEvent cred" "receive ch q s"]
      by (simp add: wp_def taken)
  next
    case (count u)
    then show ?thesis
      using same [OF inv, of s'] wp_count_copies [of "p_Counter p" s] by (simp add: wp_def count_post_def)
  next
    case (outside w')
    then show ?thesis using inv_frame [OF inv] by (simp add: hub_free_def)
  qed
qed

lemma steps_inv:
  assumes "steps X R p E s tr t" and "keys_ok p" and "inv p s"
  shows "inv p t \<and> (guarded p \<and> hub_free p s \<longrightarrow> hub_free p t)"
  using assms by (induction rule: steps.induct) (auto dest: step_inv)

lemma steps_spare:
  assumes "steps X R p E s tr t" and "keys_ok p" and "inv p s"
    and "\<And>w w'. E w w' \<Longrightarrow> store c w' k = store c w k"
    and "store c (world s) k = Some obj" and "bystander (finalizers X) (s_Keys (p_Syncer p)) obj"
  shows "store c (world t) k = Some obj"
  using assms
proof (induction rule: steps.induct)
  case (snoc s tr t l u)
  then have t: "store c (world t) k = Some obj" by blast
  have "inv p t" using steps_inv [OF snoc(1,4,5)] by blast
  from step_inv [OF snoc(2,4) this] have spared: "l \<noteq> Outside \<Longrightarrow> spared_by p t u" by blast
  show ?case
  proof (cases "l = Outside")
    case True
    then show ?thesis using snoc(2,6) t by auto
  next
    case False
    with spared t snoc(8) show ?thesis by blast
  qed
qed

text \<open>The invariant holds when the program starts.\<close>

lemma start_inv:
  assumes run: "run_state (main X R G fl) s = (Running p, s0)"
  shows "keys_ok p \<and> inv p s0 \<and>
    ((enableCrossCluster fl \<longrightarrow> s_HubClusterUID (p_Syncer p) \<noteq> []) \<longrightarrow> guarded p \<and> hub_free p s0 \<and>
      (enableCrossCluster fl \<longrightarrow> s_HubClusterUID (p_Syncer p) = cuid (mgr_GetClient G)))"
proof -
  obtain hub where st: "started R G fl hub p s0"
    using wp_main [of X R G fl s] unfolding wp_run [OF run] by blast
  then have sc: "start_components G fl hub = Running p" by (simp add: started_def)
  note facts = start_components_Running [OF sc]
  have none: "reg.all_registered P (buildRegistry R)" for P
    by (simp add: reg.all_registered_def reg_lookup_def buildRegistry_def NewClusterRegistry_def)
  have builds: "builds_only store (buildRegistry R)"
    by (simp add: builds_only_def buildRegistry_def NewClusterRegistry_def client_New_store)
  have id: "s_HubClusterUID (p_Syncer p) = cuid (mgr_GetClient G)"
    if cross: "enableCrossCluster fl" and guard: "s_HubClusterUID (p_Syncer p) \<noteq> []"
  proof -
    have "wp (main X R G fl) (\<lambda>r _. \<forall>p. r = Running p \<longrightarrow>
        s_HubClusterUID (p_Syncer p) = [] \<or> s_HubClusterUID (p_Syncer p) = cuid (mgr_GetClient G)) s"
    proof (cases "NewManager G (manager_options_of fl)")
      case (Inr cfg)
      show ?thesis
      proof (cases "credentialNamespace fl = []")
        case False
        show ?thesis
          unfolding main_def Inr sum.case if_P [OF cross] if_not_P [OF False] wp_bind wp_update
          by (rule wp_mono [OF wp_readHubUID [OF Inr]]) (auto simp: wp_rules start_components_Running(3))
      qed (use Inr cross in \<open>simp add: main_def wp_rules\<close>)
    qed (simp add: main_def wp_rules)
    then show ?thesis using guard unfolding wp_run [OF run] by auto
  qed
  have "keys_ok p \<and> inv p s0"
    using st facts builds
    by (cases "enableCrossCluster fl") (auto simp: started_def inv_def ready_channel_def)
  moreover have "guarded p \<and> hub_free p s0"
    if "enableCrossCluster fl \<longrightarrow> s_HubClusterUID (p_Syncer p) \<noteq> []"
    using st facts none id that
    by (cases "enableCrossCluster fl") (auto simp: started_def guarded_def hub_free_def)
  ultimately show ?thesis using id by blast
qed

end

end
