(* ===== verification/Registry_Properties.thy ===== *)
theory Registry_Properties
  imports Copy_Properties
begin

text \<open>
  Properties of the cluster registry, as a table with a history, and of the reconciler of
  cluster credentials.
\<close>

subsection \<open>The registry after any history\<close>

text \<open>
  The writes a registry sees, in the order its lock grants them, and the reference: the client
  registered last under an id and not removed since. Reachability marks do not count.
\<close>

datatype 'c registry_op = OpStore string 'c | OpSetUp string bool | OpRemove string

fun run_ops :: "'c registry_op list \<Rightarrow> ('cfg, 'c, 'w, unit outcome) rgo" where
  "run_ops [] = State_Monad.return (Ret ())"
| "run_ops (OpStore cid c # ops) = call (Store cid c) (\<lambda>_. run_ops ops)"
| "run_ops (OpSetUp cid up # ops) = call (SetUp cid up) (\<lambda>_. run_ops ops)"
| "run_ops (OpRemove cid # ops) = call (Remove cid) (\<lambda>_. run_ops ops)"

fun latest :: "'c registry_op list \<Rightarrow> string \<Rightarrow> 'c option \<Rightarrow> 'c option" where
  "latest [] cid c = c"
| "latest (OpStore j c' # ops) cid c = latest ops cid (if cid = j then Some c' else c)"
| "latest (OpSetUp j up # ops) cid c = latest ops cid c"
| "latest (OpRemove j # ops) cid c = latest ops cid (if cid = j then None else c)"

lemma wp_run_ops:
  "registry s = Some rg \<Longrightarrow>
     wp (run_ops ops) (\<lambda>r s'. r = Ret () \<and> world s' = world s \<and>
       (\<exists>rg'. registry s' = Some rg' \<and> (\<forall>cid. reg_lookup rg' cid = latest ops cid (reg_lookup rg cid)))) s"
proof (induction ops arbitrary: s rg rule: run_ops.induct)
  case 1
  then show ?case by (simp add: wp_rules)
next
  case (2 cid c ops)
  show ?case
    using 2(1) [of "s\<lparr>registry := Some (reg_store cid c rg)\<rparr>"] 2(2)
    by (simp add: wp_rules reg.lookup_put)
next
  case (3 cid up ops)
  show ?case
    using 3(1) [of "s\<lparr>registry := Some (reg_set_up cid up rg), effects := e\<rparr>" for e] 3(2)
    by (simp add: wp_rules reg.lookup_mark)
next
  case (4 cid ops)
  show ?case
    using 4(1) [of "s\<lparr>registry := Some (reg_remove cid rg), effects := e\<rparr>" for e] 4(2)
    by (simp add: wp_rules reg.lookup_drop)
qed

text \<open>
  C23: after any history of \<open>Store\<close>, \<open>SetUp\<close> and \<open>Remove\<close> on a new registry, \<open>ClientFor\<close> answers
  with the client stored last under the id and not removed since, and \<open>IDs\<close> lists exactly the
  ids that have one, sorted and without duplicates, in whatever order the map is ranged over;
  neither changes anything.
\<close>

theorem registry_is_a_table:
  assumes "platform X store nslist" and "registry s = Some (NewClusterRegistry build)"
    and "run_state (run_ops ops) s = (r, s')"
  shows "r = Ret () \<and> run_state (ClientFor cid) s' = (Ret (latest ops cid None), s') \<and>
    (\<exists>ids. run_state (IDs X) s' = (Ret ids, s') \<and> sorted ids \<and> distinct ids \<and>
       set ids = {cid. latest ops cid None \<noteq> None})"
proof -
  have "reg_lookup (NewClusterRegistry build) cid = None" for cid
    by (simp add: reg_lookup_def NewClusterRegistry_def)
  then obtain rg' where r: "r = Ret ()" and rg': "registry s' = Some rg'"
    and at: "\<And>cid. reg_lookup rg' cid = latest ops cid None"
    using wp_runD [OF wp_run_ops [OF assms(2)] assms(3)] by auto
  let ?ids = "sorted_list_of_fset (reg_keys rg')"
  have "set ?ids = {cid. latest ops cid None \<noteq> None}"
    using reg.ids_lookup [of _ rg'] by (auto simp: at)
  moreover have "sorted ?ids" by (simp add: sorted_list_of_fset.rep_eq)
  moreover have "wp (IDs X) (\<lambda>r t. r = Ret ?ids \<and> t = s') s'"
    by (simp add: platform.wp_IDs [OF assms(1)] rg')
  moreover have "wp (ClientFor cid) (\<lambda>r t. r = Ret (latest ops cid None) \<and> t = s') s'"
    by (simp add: wp_rules rg' at)
  ultimately show ?thesis
    using r by (auto simp: wp_def prod_eq_iff)
qed

theorem registry_is_a_table_witness:
  "let ops = [OpStore ''b'' 1, OpStore ''a'' (2 :: nat), OpSetUp ''a'' True, OpStore ''b'' 3, OpStore ''c'' 4, OpRemove ''c''];
      s = demo_state\<lparr>registry := Some (NewClusterRegistry (\<lambda>cfg _. client_New mem_rest cfg))\<rparr>;
      s' = snd (run_state (run_ops ops) s) in
    fst (run_state (ClientFor ''b'') s') = Ret (Some 3) \<and>
    (\<exists>ids. run_state (IDs demo_X) s' = (Ret ids, s') \<and> set ids = {cid. latest ops cid None \<noteq> None})"
proof -
  let ?ops = "[OpStore ''b'' 1, OpStore ''a'' (2 :: nat), OpSetUp ''a'' True, OpStore ''b'' 3, OpStore ''c'' 4, OpRemove ''c'']"
  let ?s = "demo_state\<lparr>registry := Some (NewClusterRegistry (\<lambda>cfg _. client_New mem_rest cfg))\<rparr>"
  have run: "run_state (run_ops ?ops) ?s = (fst (run_state (run_ops ?ops) ?s), snd (run_state (run_ops ?ops) ?s))"
    by simp
  have "registry ?s = Some (NewClusterRegistry (\<lambda>cfg _. client_New mem_rest cfg))" by simp
  note table = registry_is_a_table [OF mem.platform_axioms this run]
  have "latest ?ops ''b'' None = Some 3" by simp
  then show ?thesis
    unfolding Let_def using table [of "''b''" demo_keys] by (metis fst_conv)
qed

subsection \<open>Credentials\<close>

text \<open>
  The decision on a credential as a pure function of the answers of the API servers: read the
  Secret, build a client, reach the cluster, and (when the hub's identity is known) compare
  identities, in this order.
\<close>

definition vet_identity :: "('c, 'w) ext \<Rightarrow> 'c ClusterCredentialReconciler \<Rightarrow> 'c \<Rightarrow> 'w \<Rightarrow> 'c verdict" where
  "vet_identity X cr c w =
     (if cr_HubClusterUID cr = [] then Registered c
      else case fst (client_get_namespace X c ''kube-system'' w) of
        Inl _ \<Rightarrow> Unverified
      | Inr n \<Rightarrow> if ns_UID n = cr_HubClusterUID cr then SelfCluster else Registered c)"

definition vet_client :: "('c, 'w) ext \<Rightarrow> 'c ClusterCredentialReconciler \<Rightarrow> (error + 'c) \<times> 'w \<Rightarrow> 'c verdict" where
  "vet_client X cr b = (case b of
     (Inl _, w) \<Rightarrow> Invalid
   | (Inr c, w) \<Rightarrow> (case client_list_namespaces X c (Some 1) w of
       (Inl _, w) \<Rightarrow> Unreachable
     | (Inr _, w) \<Rightarrow> vet_identity X cr c w))"

definition vet ::
  "('c, 'w) ext \<Rightarrow> ('cfg, 'c, 'w) rest_ext \<Rightarrow> 'c ClusterCredentialReconciler \<Rightarrow> ('cfg, 'c, 'w) ClusterRegistry \<Rightarrow>
     string \<Rightarrow> string \<Rightarrow> 'w \<Rightarrow> 'c verdict" where
  "vet X R cr rg ns cid w = (case client_get X (cr_Client cr) SecretKind ns cid w of
     (Inl e, w) \<Rightarrow> if IsNotFound e then Gone else Unread
   | (Inr secret, w) \<Rightarrow> (case restConfigFromCredential R secret of
       Inl _ \<Rightarrow> Invalid
     | Inr cfg \<Rightarrow> vet_client X cr (newClient rg cfg cid w)))"

definition vetted ::
  "string \<Rightarrow> ('cfg, 'c, 'w) ClusterRegistry \<Rightarrow> (('cfg, 'c, 'w) ClusterRegistry, 'w) st \<Rightarrow>
     (('cfg, 'c, 'w) ClusterRegistry, 'w) st \<Rightarrow> 'c verdict \<Rightarrow> bool" where
  "vetted cid rg s s' v \<longleftrightarrow>
     registry s' = Some (apply_verdict cid v rg) \<and>
     (\<exists>evs. effects s' = effects s @ verdict_gauge cid v @ evs \<and> map event_reason evs = verdict_reasons v)"

lemmas verdict_defs = apply_verdict_def verdict_gauge_def verdict_reasons_def

lemma wp_registerCluster_vetted:
  assumes "registry t = Some rg" and "effects t = effects s"
  shows "wp (registerCluster cr cid secret c) (\<lambda>_ s'. vetted cid rg s s' (Registered c)) t"
  using assms by (simp add: registerCluster_def wp_rules vetted_def verdict_defs)

lemma wp_Reconcile_vetted:
  assumes rg: "registry s = Some rg"
  shows "wp (ClusterCredentialReconciler_Reconcile X R cr ns cid)
    (\<lambda>_ s'. vetted cid rg s s' (vet X R cr rg ns cid (world s))) s"
proof -
  note defs = vetted_def verdict_defs wp_rules wp_api rg
  obtain r w1 where get: "client_get X (cr_Client cr) SecretKind ns cid (world s) = (r, w1)"
    by (rule prod.exhaust)
  show ?thesis
  proof (cases r)
    case (Inl e)
    with get show ?thesis
      by (simp add: ClusterCredentialReconciler_Reconcile_def Get_def vet_def defs)
  next
    case (Inr secret)
    note get = get [unfolded Inr]
    show ?thesis
    proof (cases "restConfigFromCredential R secret")
      case (Inl e)
      with get show ?thesis
        by (simp add: ClusterCredentialReconciler_Reconcile_def Get_def vet_def BuildClient_def defs)
    next
      case (Inr cfg)
      obtain b w2 where build: "newClient rg cfg cid w1 = (b, w2)" by (rule prod.exhaust)
      show ?thesis
      proof (cases b)
        case (Inl e)
        with get build Inr show ?thesis
          by (simp add: ClusterCredentialReconciler_Reconcile_def Get_def vet_def vet_client_def
              BuildClient_def defs)
      next
        case (Inr c)
        obtain l w3 where list: "client_list_namespaces X c (Some 1) w2 = (l, w3)" by (rule prod.exhaust)
        obtain u w4 where uid: "client_get_namespace X c ''kube-system'' w3 = (u, w4)" by (rule prod.exhaust)
        note calls = get build [unfolded Inr] list uid \<open>restConfigFromCredential R secret = Inr cfg\<close>
        have register: "wp (registerCluster cr cid secret c)
            (\<lambda>_ s'. vetted cid rg s s' (Registered c)) (s\<lparr>world := w\<rparr>)" for w
          by (rule wp_registerCluster_vetted) (simp_all add: rg)
        show ?thesis
        proof (cases l)
          case (Inl e)
          with calls show ?thesis
            by (simp add: ClusterCredentialReconciler_Reconcile_def Get_def vet_def vet_client_def
                BuildClient_def connectivityCheck_def ListNamespaces_def defs)
        next
          case (Inr ignored)
          with calls show ?thesis
            using register
            by (cases u) (simp_all add: ClusterCredentialReconciler_Reconcile_def Get_def vet_def vet_client_def
                vet_identity_def BuildClient_def connectivityCheck_def ListNamespaces_def clusterUID_def
                GetNamespace_def wp_rules wp_api rg, simp_all add: vetted_def verdict_defs)
        qed
      qed
    qed
  qed
qed

lemma vetted_unique:
  assumes "vetted cid rg s s' v" and "vetted cid rg s s' v'"
  shows "v = v'"
proof -
  obtain e e' where e: "verdict_gauge cid v @ e = verdict_gauge cid v' @ e'"
    "map event_reason e = verdict_reasons v" "map event_reason e' = verdict_reasons v'"
    using assms unfolding vetted_def by (metis same_append_eq)
  have "reg_lookup (apply_verdict cid v rg) cid = reg_lookup (apply_verdict cid v' rg) cid"
    using assms unfolding vetted_def by simp
  with e show ?thesis
    by (cases v; cases v') (simp_all add: verdict_defs reg.lookup_put reg.lookup_mark)
qed

text \<open>
  C8: every reconcile of a credential returns and acts on the verdict that \<open>vet\<close> reaches from the
  answers of the API servers. A credential that cannot be read is the only error and changes
  nothing. A missing one, a malformed one, one whose cluster cannot be identified and one that
  resolves to the hub are removed from the registry together with their gauge; an unreachable
  one keeps its entry, marked down; otherwise the client is registered and marked up, and the
  source controllers are signalled with the Secret on every channel that is not full. Events,
  gauges and the retry in two minutes follow the verdict, no cluster is changed, and with a
  known hub identity no client of the hub's own cluster is ever registered.
\<close>

theorem credential_reconcile_outcome:
  assumes "cluster_identity X store nslist cuid" and "registry s = Some rg" and "builds_only store rg"
    and "run_state (ClusterCredentialReconciler_Reconcile X R cr ns cid) s = (r, s')"
  shows "credential_post store cuid cr ns cid rg s r s' (vet X R cr rg ns cid (world s))"
proof -
  obtain v where v: "credential_post store cuid cr ns cid rg s r s' v"
    using wp_runD [OF cluster_identity.wp_Reconcile [OF assms(1-3)] assms(4)] by blast
  then have "vetted cid rg s s' v" by (auto simp: credential_post_def vetted_def)
  then have "v = vet X R cr rg ns cid (world s)"
    using wp_runD [OF wp_Reconcile_vetted [OF assms(2)] assms(4)] by (rule vetted_unique)
  with v show ?thesis by simp
qed

definition demo_credential :: "string \<Rightarrow> string \<Rightarrow> object" where
  "demo_credential cid kubeconfig =
     (zero_object (Secret (fmap_of_list [(credentialKubeconfigKey, kubeconfig)]) ''Opaque''))
       \<lparr>Namespace := ''ops'', Name := cid, UID := ''c'', ResourceVersion := ''1'',
        Labels := fmap_of_list [(''k.io/cluster-credential'', ''true'')]\<rparr>"

text \<open>
  Four credentials: a reachable spoke (cluster 1), one that is down (cluster 2), the hub itself
  (cluster 0, reached by another kubeconfig) and a malformed one.
\<close>

definition demo_cred_world :: mem where
  "demo_cred_world = demo_world\<lparr>m_objects := (\<lambda>c. if c = 0
     then [demo_credential ''s1'' ''11'', demo_credential ''s2'' ''222'', demo_credential ''hub'' ''0'',
       demo_credential ''bad'' ''bad''] else [])\<rparr>"

definition demo_cred :: "nat ClusterCredentialReconciler" where
  "demo_cred = \<lparr>cr_Client = 0, cr_Namespace = ''ops'', cr_Keys = demo_keys, cr_HubClusterUID = mem_uid 0,
     cr_Notify = [0, 1]\<rparr>"

definition demo_cred_state :: "((nat, nat, mem) ClusterRegistry, mem) st" where
  "demo_cred_state = demo_state\<lparr>world := demo_cred_world,
     registry := Some (NewClusterRegistry (\<lambda>cfg _. client_New mem_rest cfg))\<rparr>"

theorem credential_reconcile_outcome_witness:
  "let rg = NewClusterRegistry (\<lambda>cfg _. client_New mem_rest cfg);
      reconcile = (\<lambda>cid. run_state (ClusterCredentialReconciler_Reconcile demo_X mem_rest demo_cred ''ops'' cid) demo_cred_state)
    in (\<forall>cid. credential_post mem_store mem_uid demo_cred ''ops'' cid rg demo_cred_state
          (fst (reconcile cid)) (snd (reconcile cid)) (vet demo_X mem_rest demo_cred rg ''ops'' cid demo_cred_world)) \<and>
       map (\<lambda>cid. vet demo_X mem_rest demo_cred rg ''ops'' cid demo_cred_world) [''s1'', ''s2'', ''hub'', ''bad'', ''none''] =
         [Registered 1, Unreachable, SelfCluster, Invalid, Gone]"
proof -
  let ?rg = "NewClusterRegistry (\<lambda>cfg _. client_New mem_rest cfg)"
  let ?m = "ClusterCredentialReconciler_Reconcile demo_X mem_rest demo_cred ''ops''"
  have run: "run_state (?m cid) demo_cred_state =
      (fst (run_state (?m cid) demo_cred_state), snd (run_state (?m cid) demo_cred_state))" for cid
    by simp
  have rg: "registry demo_cred_state = Some ?rg" "world demo_cred_state = demo_cred_world"
    by (simp_all add: demo_cred_state_def)
  have builds: "builds_only mem_store ?rg"
    by (simp add: builds_only_def NewClusterRegistry_def mem_rest_def)
  have "map (\<lambda>cid. vet demo_X mem_rest demo_cred ?rg ''ops'' cid demo_cred_world) [''s1'', ''s2'', ''hub'', ''bad'', ''none''] =
      [Registered 1, Unreachable, SelfCluster, Invalid, Gone]" by code_simp
  with credential_reconcile_outcome [OF mem.cluster_identity_axioms rg(1) builds run]
  show ?thesis unfolding Let_def rg(2) by blast
qed

end
