(* ===== verification/Manager_Properties.thy ===== *)
theory Manager_Properties
  imports Manager Registry_Properties
begin

text \<open>
  Properties of the start of the program: which components run with which settings, when it
  gives up, and how the hub's identity is read.
\<close>

subsection \<open>Reading the hub's identity\<close>

text \<open>The results of a number of consecutive attempts, and the state they leave.\<close>

fun attempts ::
  "('c, 'w) ext \<Rightarrow> ('cfg, 'c, 'w) rest_ext \<Rightarrow> 'cfg \<Rightarrow> nat \<Rightarrow> ('r, 'w) st \<Rightarrow> (error + string) list \<times> ('r, 'w) st" where
  "attempts X R cfg 0 s = ([], s)"
| "attempts X R cfg (Suc n) s =
     (case run_state (ClusterUIDFromConfig X R cfg) s of
        (u, t) \<Rightarrow> (case attempts X R cfg n t of (us, t') \<Rightarrow> (u # us, t')))"

text \<open>
  C29: the identity of the hub is the result of the first attempt that succeeds, and empty when
  none does; the attempts stop there, so the state is the one after that many attempts.
\<close>

theorem readHubUID_retries:
  "let us = fst (attempts X R cfg n s); k = min n (Suc (length (takeWhile isl us))) in
     run_state (readHubUID X R cfg n) s =
       (case find (\<lambda>u. \<not> isl u) us of None \<Rightarrow> [] | Some u \<Rightarrow> projr u, snd (attempts X R cfg k s))"
proof (induction n arbitrary: s)
  case 0
  show ?case by simp
next
  case (Suc n)
  obtain u t where u: "run_state (ClusterUIDFromConfig X R cfg) s = (u, t)" by (rule prod.exhaust)
  obtain us t' where us: "attempts X R cfg n t = (us, t')" by (rule prod.exhaust)
  show ?case
  proof (cases u)
    case (Inl e)
    with Suc [of t] u us show ?thesis
      by (simp add: Let_def split: prod.splits)
  next
    case (Inr uid)
    with u us show ?thesis by (simp add: Let_def)
  qed
qed

subsection \<open>Wiring\<close>

text \<open>
  C28: when the program starts, all components share one key set, built from the two domain
  flags; the syncer excludes the namespaces of its flag; the webhook is served when enabled; and
  cross-cluster support is all or nothing: enabled, there is an empty registry, a credential
  reconciler for a given namespace with the same hub identity as the syncer, and an empty channel
  of capacity 64 to each source controller, on which it signals; disabled, there is none of
  these.
\<close>

theorem main_wires_components:
  assumes "run_state (main X R G fl) s = (Running p, s')"
  shows "let keys = NewKeySet (annotationDomain fl) [previousDomain fl]; cross = enableCrossCluster fl in
    s_Keys (p_Syncer p) = keys \<and> d_Keys (p_Counter p) = keys \<and>
    p_Webhook p = (if enableWebhook fl then Some keys else None) \<and>
    s_ExcludeNamespaces (p_Syncer p) = NamespaceSet (excludeNamespaces fl) \<and>
    s_Client (p_Syncer p) = mgr_GetClient G \<and> effects s' = effects s \<and>
    (case p_Credentials p of
       None \<Rightarrow> \<not> cross \<and> registry s' = None \<and> p_cmReady p = None \<and> p_secReady p = None \<and>
         s_HubClusterUID (p_Syncer p) = []
     | Some cr \<Rightarrow> cross \<and> cr_Keys cr = keys \<and> cr_Client cr = mgr_GetClient G \<and>
         cr_Namespace cr = credentialNamespace fl \<and> cr_Namespace cr \<noteq> [] \<and>
         cr_HubClusterUID cr = s_HubClusterUID (p_Syncer p) \<and>
         (\<exists>rg. registry s' = Some rg \<and> (\<forall>cid. reg_lookup rg cid = None)) \<and>
         map Some (cr_Notify cr) = [p_cmReady p, p_secReady p] \<and>
         list_all (\<lambda>ch. channels s' ch = \<lparr>ch_cap = 64, ch_queue = []\<rparr>) (cr_Notify cr))"
proof -
  obtain hub where st: "started R G fl hub p s'" and eff: "effects s' = effects s"
    using wp_runD [OF wp_main assms] by blast
  have none: "reg_lookup (buildRegistry R) cid = None" for cid
    by (simp add: buildRegistry_def NewClusterRegistry_def reg_lookup_def)
  note facts = start_components_Running [of G fl hub p]
  from st have run: "start_components G fl hub = Running p" by (simp add: started_def)
  show ?thesis
    using st eff none facts [OF run] by (cases "enableCrossCluster fl") (auto simp: started_def Let_def)
qed

text \<open>A manager over the in-memory platform, with cross-cluster support on.\<close>

definition demo_mgr :: "(nat, nat) mgr_ext" where
  "demo_mgr = \<lparr>NewManager = (\<lambda>_. Inr 0), mgr_GetClient = 0, setup_error = (\<lambda>_. None), mgr_Start = None\<rparr>"

definition demo_flags :: flags where
  "demo_flags = (default_flags ''ops'')\<lparr>annotationDomain := ''k.io'', previousDomain := ''old.io'',
     enableCrossCluster := True\<rparr>"

text \<open>The demo world with a source, an unrelated object and the credentials.\<close>

definition demo_start :: "((nat, nat, mem) ClusterRegistry, mem) st" where
  "demo_start = demo_state\<lparr>world := demo_cred_world\<lparr>m_objects := (\<lambda>c. if c = 0
     then [demo_source, demo_foreign] @ m_objects demo_cred_world 0 else [])\<rparr>\<rparr>"

definition demo_program :: "nat program" where
  "demo_program = (case fst (run_state (main demo_X mem_rest demo_mgr demo_flags) demo_start) of Running p \<Rightarrow> p)"

definition demo_started :: "((nat, nat, mem) ClusterRegistry, mem) st" where
  "demo_started = snd (run_state (main demo_X mem_rest demo_mgr demo_flags) demo_start)"

lemma demo_main: "run_state (main demo_X mem_rest demo_mgr demo_flags) demo_start = (Running demo_program, demo_started)"
proof -
  have "case fst (run_state (main demo_X mem_rest demo_mgr demo_flags) demo_start) of
      Running p \<Rightarrow> True | Exit n \<Rightarrow> False" by code_simp
  then show ?thesis
    by (simp add: demo_program_def demo_started_def prod_eq_iff split: main_result.splits)
qed

theorem main_wires_components_witness:
  "s_Keys (p_Syncer demo_program) = NewKeySet ''k.io'' [''old.io''] \<and>
   s_ExcludeNamespaces (p_Syncer demo_program) = NamespaceSet ''kube-system,kube-public,kube-node-lease''"
proof -
  have fl: "annotationDomain demo_flags = ''k.io''" "previousDomain demo_flags = ''old.io''"
    "excludeNamespaces demo_flags = ''kube-system,kube-public,kube-node-lease''" by code_simp+
  show ?thesis
    using main_wires_components [OF demo_main] unfolding fl Let_def by simp
qed

subsection \<open>Exit\<close>

definition registered_components :: "flags \<Rightarrow> string list" where
  "registered_components fl =
     [''ConfigMap'', ''Secret''] @ (if enableCrossCluster fl then [''ClusterCredential''] else []) @
     [''domain-copy counter'', ''healthz'', ''readyz'']"

text \<open>
  C30: the program starts exactly when the manager is created, a credential namespace is given if
  cross-cluster support is on, and every component registers; it exits with code 1 when it does
  not start or when the manager fails later, and with 0 otherwise.
\<close>

theorem main_exit_code:
  "let r = fst (run_state (main X R G fl) s);
       starts = (\<not> isl (NewManager G (manager_options_of fl)) \<and>
         \<not> (enableCrossCluster fl \<and> credentialNamespace fl = []) \<and>
         list_all (\<lambda>c. setup_error G c = None) (registered_components fl))
   in (\<exists>p. r = Running p) = starts \<and>
      main_exit G r = (if starts \<and> mgr_Start G = None then 0 else 1)"
proof -
  let ?ok = "list_all (\<lambda>c. setup_error G c = None) (registered_components fl)"
  have comps: "if ?ok then \<exists>p. start_components G fl hub = Running p else start_components G fl hub = Exit 1" for hub
    by (auto simp: start_components_def registered_components_def Let_def)
  have "wp (main X R G fl) (\<lambda>r _. case NewManager G (manager_options_of fl) of
      Inl _ \<Rightarrow> r = Exit 1
    | Inr _ \<Rightarrow> if enableCrossCluster fl \<and> credentialNamespace fl = [] then r = Exit 1
        else \<exists>hub. r = start_components G fl hub) s"
  proof (cases "NewManager G (manager_options_of fl)")
    case (Inr cfg)
    show ?thesis
    proof (cases "enableCrossCluster fl \<and> credentialNamespace fl \<noteq> []")
      case True
      show ?thesis
        unfolding main_def Inr sum.case if_P [OF conjunct1 [OF True]] if_not_P [OF conjunct2 [OF True]] wp_bind wp_update
        by (rule wp_mono [OF wp_readHubUID_frame]) (use True in \<open>auto simp: wp_rules\<close>)
    qed (use Inr in \<open>auto simp: main_def wp_rules\<close>)
  qed (simp add: main_def wp_rules)
  then have "if \<not> isl (NewManager G (manager_options_of fl)) \<and>
      \<not> (enableCrossCluster fl \<and> credentialNamespace fl = []) \<and> ?ok
    then \<exists>p. fst (run_state (main X R G fl) s) = Running p
    else fst (run_state (main X R G fl) s) = Exit 1"
    using comps by (cases ?ok) (auto simp: wp_def split: sum.splits if_splits)
  then show ?thesis by (auto simp: Let_def main_exit_def split: if_splits)
qed

end
