(* ===== verification/System_Properties.thy ===== *)
theory System_Properties
  imports System Manager_Properties
begin

text \<open>
  Properties of the running program over every sequence of steps: runs of the components in any
  order, interleaved with changes of the clusters from outside.
\<close>

interpretation demo: deployment "mem_ext ks" mem_store "\<lambda>c w. m_namespaces w c" mem_uid mem_rest demo_mgr fl for ks fl
proof (unfold_locales, goal_cases)
  case (1 c cfg w)
  show ?case by (simp add: mem_rest_def)
next
  case (2 cfg w c w')
  then show ?case by (simp add: mem_rest_def demo_mgr_def)
qed

text \<open>
  A run of the demo program: the credential of the first spoke is reconciled, the ConfigMap
  controller takes its signal and reconciles the source, and the gauge is refreshed.
\<close>

definition demo_trace :: "label list" where
  "demo_trace = [ReconcileCredential ''s1'', ConfigMapSignal, ReconcileConfigMap ''d'' ''cm'', CountCopies]"

definition demo_s1 :: "((nat, nat, mem) ClusterRegistry, mem) st" where
  "demo_s1 = snd (run_state (ClusterCredentialReconciler_Reconcile demo_X mem_rest demo_cred ''ops'' ''s1'') demo_started)"

definition demo_s2 :: "((nat, nat, mem) ClusterRegistry, mem) st" where
  "demo_s2 = snd (run_state (ConfigMapReconciler_SetupWithManager demo_X (p_Syncer demo_program) (Some 0)
     (ClusterReadyEvent (demo_credential ''s1'' ''11''))) (receive 0 [] demo_s1))"

definition demo_s3 :: "((nat, nat, mem) ClusterRegistry, mem) st" where
  "demo_s3 = snd (run_state (ConfigMapReconciler_Reconcile demo_X (p_Syncer demo_program) ''d'' ''cm'') demo_s2)"

definition demo_s4 :: "((nat, nat, mem) ClusterRegistry, mem) st" where
  "demo_s4 = snd (run_state (count_copies demo_X (p_Counter demo_program)) demo_s3)"

lemma demo_program_facts:
  "p_Credentials demo_program = Some demo_cred" "p_cmReady demo_program = Some 0"
  "s_HubClusterUID (p_Syncer demo_program) = mem_uid 0" "s_Client (p_Syncer demo_program) = 0"
  "s_Keys (p_Syncer demo_program) = demo_keys"
  by code_simp+

lemma demo_steps: "steps demo_X mem_rest demo_program E demo_started demo_trace demo_s4"
proof -
  have q: "ch_queue (channels demo_s1 0) = [demo_credential ''s1'' ''11'']" by code_simp
  have 1: "step demo_X mem_rest demo_program E demo_started (ReconcileCredential ''s1'') demo_s1"
    by (rule step.reconcile_credential [OF demo_program_facts(1)])
      (simp add: demo_s1_def prod_eq_iff demo_cred_def)
  have 2: "step demo_X mem_rest demo_program E demo_s1 ConfigMapSignal demo_s2"
    by (rule step.configmap_signal [OF demo_program_facts(2) q]) (simp add: demo_s2_def prod_eq_iff)
  have 3: "step demo_X mem_rest demo_program E demo_s2 (ReconcileConfigMap ''d'' ''cm'') demo_s3"
    by (rule step.reconcile_configmap) (simp add: demo_s3_def prod_eq_iff)
  have 4: "step demo_X mem_rest demo_program E demo_s3 CountCopies demo_s4"
    by (rule step.count) (simp add: demo_s4_def prod_eq_iff)
  from steps.snoc [OF steps.snoc [OF steps.snoc [OF steps.snoc [OF steps.nil 1] 2] 3] 4]
  show ?thesis by (simp add: demo_trace_def)
qed

text \<open>
  C4: once the hub's identity has been read, the program never registers the hub as a spoke of
  itself: after any number of steps, in any order and whatever happens to the clusters from
  outside, every registered client belongs to another cluster than the hub, so the fan-out never
  takes the local copies for remote ones.
\<close>

theorem hub_never_registered:
  assumes "deployment X store nslist cuid R G fl"
    and "run_state (main X R G fl) s = (Running p, s0)" and "s_HubClusterUID (p_Syncer p) \<noteq> []"
    and "steps X R p E s0 tr t"
    and "registry t = Some rg" and "reg_lookup rg cid = Some c"
  shows "cuid c \<noteq> cuid (mgr_GetClient G) \<and> s_HubClusterUID (p_Syncer p) = cuid (mgr_GetClient G) \<and>
    spokes_only (p_Syncer p) t"
proof -
  note start = deployment.start_inv [OF assms(1,2)]
  then have ok: "wf_KeySet (s_Keys (p_Syncer p))" "deployment.inv store p s0"
    and g: "deployment.guarded cuid p" "deployment.hub_free cuid p s0" using assms(3) by blast+
  have inv: "deployment.inv store p t" and free: "deployment.hub_free cuid p t"
    using deployment.steps_inv [OF assms(1,4) ok] g by blast+
  note inv_def = deployment.inv_def [OF assms(1)]
  have "enableCrossCluster fl"
  proof (rule ccontr)
    assume off: "\<not> enableCrossCluster fl"
    obtain hub where st: "started R G fl hub p s0" using wp_runD [OF wp_main assms(2)] by blast
    then have "start_components G fl hub = Running p" by (simp add: started_def)
    from start_components_Running(9) [OF this] off have "p_Credentials p = None" by simp
    with inv assms(5) show False by (simp add: inv_def)
  qed
  with start assms(3) have hub: "s_HubClusterUID (p_Syncer p) = cuid (mgr_GetClient G)" by blast
  have "cuid c \<noteq> s_HubClusterUID (p_Syncer p)"
    using free assms(5,6) by (auto simp: deployment.hub_free_def [OF assms(1)] reg.all_registered_def)
  with hub deployment.inv_spokes_only [OF assms(1) g(1) inv free] show ?thesis by simp
qed

theorem hub_never_registered_witness:
  "s_HubClusterUID (p_Syncer demo_program) = mem_uid 0 \<and> map_option (\<lambda>rg. reg_lookup rg ''s1'') (registry demo_s4) = Some (Some 1) \<and>
   mem_uid 1 \<noteq> mem_uid (mgr_GetClient demo_mgr)"
proof -
  have at: "map_option (\<lambda>rg. reg_lookup rg ''s1'') (registry demo_s4) = Some (Some 1)" by code_simp
  then obtain rg where rg: "registry demo_s4 = Some rg" "reg_lookup rg ''s1'' = Some 1" by auto
  have "s_HubClusterUID (p_Syncer demo_program) \<noteq> []" by (simp add: demo_program_facts mem_uid_def)
  from hub_never_registered [OF demo.deployment_axioms demo_main this demo_steps rg] at
  show ?thesis by (simp add: demo_program_facts)
qed



text \<open>
  C5: the program never touches what is not its business: an object that is no managed copy, not
  adoptable, no source and without our finalizers, in any cluster, stays exactly as it is through
  any number of steps of the program, whatever fails, as long as nothing outside the program
  changes it. This holds also when the identity of the hub could not be read and the hub may be
  registered as a spoke of itself.
\<close>

theorem bystanders_survive:
  assumes "deployment X store nslist cuid R G fl"
    and "run_state (main X R G fl) s = (Running p, s0)"
    and "steps X R p E s0 tr t"
    and "\<And>w w'. E w w' \<Longrightarrow> store c w' k = store c w k"
    and "store c (world s0) k = Some obj" and "bystander (finalizers X) (s_Keys (p_Syncer p)) obj"
  shows "store c (world t) k = Some obj"
proof -
  note start = deployment.start_inv [OF assms(1,2)]
  then have ok: "wf_KeySet (s_Keys (p_Syncer p))" "deployment.inv store p s0" by blast+
  show ?thesis by (rule deployment.steps_spare [OF assms(1,3) ok assms(4-6)])
qed

theorem bystanders_survive_witness:
  "mem_store 0 (world demo_s4) (ConfigMapKind, ''f'', ''cm'') = Some demo_foreign"
proof -
  have here: "mem_store 0 (world demo_started) (ConfigMapKind, ''f'', ''cm'') = Some demo_foreign" by code_simp
  have idle: "bystander (finalizers demo_X) (s_Keys (p_Syncer demo_program)) demo_foreign" by code_simp
  show ?thesis
    by (rule bystanders_survive [OF demo.deployment_axioms demo_main demo_steps [where E = "\<lambda>w w'. w' = w"] _ here idle])
      simp
qed

end
