(* ===== verification/Watch_Properties.thy ===== *)
theory Watch_Properties
  imports Effect_Log Copy_Properties Domain_Counter
begin

text \<open>
  Properties of what surrounds the reconciliation: its events, the admission webhook, the watches
  that trigger it and the gauge of copies per domain.
\<close>

subsection \<open>Events\<close>

text \<open>
  C27: whatever happens in a reconciliation, it only adds to the log, every event it emits is
  attached to its source and has one of the documented reasons, an \<open>InvalidSelector\<close> event comes
  only when the selector does not parse, and no gauge is set.
\<close>

theorem reconcile_events:
  assumes "finalizer_laws (finalizers X)" and "wf_KeySet (s_Keys sy)"
    and "run_state (reconcileSource X sy obj) s = (r, s')"
  shows "\<exists>new. effects s' = effects s @ new \<and>
    list_all (about obj (isl (labels_Parse X (selector_value (s_Keys sy) obj)))) new"
  using wp_runD [OF added.followsD [OF emits_reconcileSource [OF assms(1,2)]] assms(3)] by (simp add: adds_def)

theorem reconcile_events_witness:
  "let s' = snd (run_state (reconcileSource demo_X demo_syncer demo_source) demo_state) in
     \<exists>new. effects s' = new \<and> list_all (about demo_source False) new \<and> new \<noteq> []"
proof -
  let ?r = "run_state (reconcileSource demo_X demo_syncer demo_source) demo_state"
  have run: "?r = (fst ?r, snd ?r)" by simp
  have "selector_value demo_keys demo_source = []" by code_simp
  then have ok: "\<not> isl (mem_parse (selector_value demo_keys demo_source))" by (simp add: mem_parse_def)
  have "effects (snd ?r) \<noteq> []" by code_simp
  moreover have "effects demo_state = []" by (simp add: demo_state_def)
  ultimately show ?thesis
    using reconcile_events [OF _ _ run] ok by (simp add: fin.finalizer_laws_axioms Let_def)
qed

subsection \<open>Metrics\<close>

lemma accepted_on_registry: "emits accepted (on_registry f)"
  by (rule added.followsI) (simp add: wp_rules adds_def split: option.splits)

lemma accepted_registry [emits_rules]:
  "emits accepted (Store cid c)" "emits accepted (SetUp cid b)" "emits accepted (Remove cid)"
  unfolding Store_def SetUp_def Remove_def
  by (intro emits_rules accepted_on_registry emits_emit; simp add: is_gauge_def)+

lemma accepted_notifyAll [emits_rules]: "emits accepted (notifyAll chs obj)"
  by (rule added.followsI) (simp add: wp_rules adds_def)

lemma accepted_Eventf [emits_rules]: "emits accepted (Eventf obj ty reason fmt args)"
  by (rule emits_Eventf) simp

lemma accepted_GetNamespace [emits_rules]: "emits accepted (GetNamespace X c n)"
  unfolding GetNamespace_def by (rule emits_api)

lemma accepted_credential:
  "emits accepted (ClusterCredentialReconciler_Reconcile X R cr ns n)"
  unfolding ClusterCredentialReconciler_Reconcile_def registerCluster_def BuildClient_def connectivityCheck_def
    clusterUID_def Let_def
  by (intro emits_rules)

lemma accepted_count: "emits accepted (count_copies X d)"
proof -
  have "emits accepted (count_domains X d kl)" for kl
    by (induction kl) (auto simp: count_kind_def is_gauge_def intro!: emits_rules emits_emit)
  then show ?thesis by (simp add: count_copies_def)
qed

lemma accepted_Start: "emits accepted (Start X d sigs)"
proof -
  have "emits accepted (Start_loop X d sigs)" by (induction X d sigs rule: Start_loop.induct) (auto intro!: emits_rules accepted_count)
  then show ?thesis unfolding Start_def by (intro emits_rules accepted_count)
qed

lemma accepted_reconcileSource:
  assumes "finalizer_laws (finalizers X)" and "wf_KeySet (s_Keys sy)"
  shows "emits accepted (reconcileSource X sy obj)"
proof (rule emits_mono [OF emits_reconcileSource [OF assms, where bad = True]])
  fix e assume "about obj True e"
  then show "accepted e" by (cases e) (auto simp: is_gauge_def)
qed simp

lemma accepted_observe [emits_rules]:
  "knd \<in> {''configmap'', ''secret''} \<Longrightarrow> emits accepted (observeReconcile knd err)"
  unfolding observeReconcile_def Let_def by (rule emits_emit) (auto simp: is_gauge_def)

text \<open>
  C22: no metric update can panic: the collectors have different names, and every update that a
  reconciliation of a source or of a credential or the domain counter makes is of the right sort,
  with as many label values as the vector was declared with, each among the documented ones.
\<close>

theorem metric_updates_accepted:
  assumes "finalizer_laws (finalizers X)" and "wf_KeySet (s_Keys sy)"
  shows "distinct (map metric_name MustRegister_args) \<and>
    emits accepted (ConfigMapReconciler_Reconcile X sy ns n) \<and>
    emits accepted (SecretReconciler_Reconcile X sy ns n) \<and>
    emits accepted (ClusterCredentialReconciler_Reconcile X R cr ns n) \<and>
    emits accepted (Start X d sigs)"
proof (intro conjI accepted_credential accepted_Start)
  show "distinct (map metric_name MustRegister_args)" by (simp add: MustRegister_args_def)
  note source = accepted_reconcileSource [OF assms]
  show "emits accepted (ConfigMapReconciler_Reconcile X sy ns n)"
    "emits accepted (SecretReconciler_Reconcile X sy ns n)"
    unfolding ConfigMapReconciler_Reconcile_def SecretReconciler_Reconcile_def
    by (intro emits_rules source; simp)+
qed

theorem metric_updates_accepted_witness:
  "let s' = snd (run_state (ConfigMapReconciler_Reconcile demo_X demo_syncer ''d'' ''cm'') demo_state) in
     CounterAdd reconcileTotal [''configmap'', ''success''] 1 \<in> set (effects s') \<and> list_all accepted (effects s')"
proof -
  let ?m = "ConfigMapReconciler_Reconcile demo_X demo_syncer ''d'' ''cm''"
  have run: "run_state ?m demo_state = (fst (run_state ?m demo_state), snd (run_state ?m demo_state))" by simp
  have laws: "finalizer_laws (finalizers demo_X)" and wf: "wf_KeySet (s_Keys demo_syncer)"
    by (simp_all add: fin.finalizer_laws_axioms)
  have "emits accepted ?m"
    by (rule metric_updates_accepted [OF laws wf, THEN conjunct2, THEN conjunct1])
  from wp_runD [OF added.followsD [OF this] run]
  have "list_all accepted (effects (snd (run_state ?m demo_state)))"
    by (auto simp: adds_def demo_state_def)
  moreover have "CounterAdd reconcileTotal [''configmap'', ''success''] 1 \<in> set (effects (snd (run_state ?m demo_state)))"
    by code_simp
  ultimately show ?thesis by (simp add: Let_def)
qed

subsection \<open>The webhook\<close>

lemma list_all_image: "list_all Q l \<Longrightarrow> (\<And>e. Q e \<Longrightarrow> f e \<noteq> x) \<Longrightarrow> x \<notin> f ` set l"
  by (auto simp: list_all_iff)

text \<open>
  C20: the webhook and the controller agree: an object is admitted exactly when it is not a source
  or its selector parses (a request that does not decode is an error with status 400), and the
  reconciliation of an admitted object never emits \<open>InvalidSelector\<close>.
\<close>

theorem webhook_guards_controller:
  assumes "finalizer_laws (finalizers X)" and "wf_KeySet (s_Keys sy)"
    and "unmarshal raw = Inr (Annotations obj)"
    and "run_state (reconcileSource X sy obj) s = (r, s')"
  shows "((\<exists>m. SelectorValidator_Handle X unmarshal (s_Keys sy) raw = Allowed m) =
      (isSource (s_Keys sy) obj \<longrightarrow> \<not> isl (labels_Parse X (selector_value (s_Keys sy) obj)))) \<and>
    ((\<exists>m. SelectorValidator_Handle X unmarshal (s_Keys sy) raw = Allowed m) \<longrightarrow>
      (\<exists>new. effects s' = effects s @ new \<and> ''InvalidSelector'' \<notin> event_reason ` set new))"
proof -
  have allowed: "(\<exists>m. SelectorValidator_Handle X unmarshal (s_Keys sy) raw = Allowed m) =
      (isSource (s_Keys sy) obj \<longrightarrow> \<not> isl (labels_Parse X (selector_value (s_Keys sy) obj)))"
    unfolding Handle_allowed [where unmarshal = unmarshal and raw = raw and obj = obj, OF assms(3)]
    by (cases "labels_Parse X (selector_value (s_Keys sy) obj)") auto
  have "\<exists>new. effects s' = effects s @ new \<and> ''InvalidSelector'' \<notin> event_reason ` set new"
    if "isSource (s_Keys sy) obj \<longrightarrow> \<not> isl (labels_Parse X (selector_value (s_Keys sy) obj))"
  proof -
    have "emits (about obj False) (reconcileSource X sy obj)"
      using that by (intro emits_reconcileSource [OF assms(1,2)]) auto
    then obtain new where new: "effects s' = effects s @ new" "list_all (about obj False) new"
      using wp_runD [OF added.followsD assms(4)] unfolding adds_def by blast
    have "event_reason e \<noteq> ''InvalidSelector''" if "about obj False e" for e
      using that by (cases e) (auto simp: source_reasons_def)
    with new(2) have "''InvalidSelector'' \<notin> event_reason ` set new" by (rule list_all_image)
    with new(1) show ?thesis by blast
  qed
  with allowed show ?thesis by simp
qed

theorem webhook_guards_controller_witness:
  "SelectorValidator_Handle demo_X (\<lambda>_. Inr (Annotations demo_source)) demo_keys ''{}'' = Allowed ''valid sync selector'' \<and>
   SelectorValidator_Handle demo_X (\<lambda>_. Inr (fmap_of_list [(''k.io/sync'', ''!'')])) demo_keys ''{}'' =
     Denied ''invalid %s selector %q: %v'' [ArgS ''k.io/sync'', ArgS ''!'',
       ArgE (OtherError ''found: '!', expected: identifier'')] \<and>
   ''InvalidSelector'' \<notin> event_reason ` set (effects (snd (run_state (reconcileSource demo_X demo_syncer demo_source) demo_state)))"
proof -
  let ?r = "run_state (reconcileSource demo_X demo_syncer demo_source) demo_state"
  have run: "?r = (fst ?r, snd ?r)" by simp
  have sync: "syncValue demo_keys (Annotations demo_source) = Some (''k.io/sync'', [])"
    "syncValue demo_keys (fmupd ''k.io/sync'' ''!'' fmempty) = Some (''k.io/sync'', ''!'')" by code_simp+
  have handle: "SelectorValidator_Handle demo_X (\<lambda>_. Inr (Annotations demo_source)) demo_keys ''{}'' = Allowed ''valid sync selector''"
    "SelectorValidator_Handle demo_X (\<lambda>_. Inr (fmap_of_list [(''k.io/sync'', ''!'')])) demo_keys ''{}'' =
     Denied ''invalid %s selector %q: %v'' [ArgS ''k.io/sync'', ArgS ''!'',
       ArgE (OtherError ''found: '!', expected: identifier'')]"
    by (simp_all add: SelectorValidator_Handle_def sync mem_parse_def)
  moreover have "effects demo_state = []" by (simp add: demo_state_def)
  ultimately show ?thesis
    using webhook_guards_controller [OF _ _ _ run, where unmarshal = "\<lambda>_. Inr (Annotations demo_source)" and raw = "''{}''"]
    by (simp add: fin.finalizer_laws_axioms)
qed

subsection \<open>Watches\<close>

text \<open>
  C25: the watches of the ConfigMap controller re-drive the right sources. A namespace event asks
  for every source of its kind, a cluster-ready signal for every source whose target list names
  the credential's cluster, and in both cases for none only if the list fails. An object event
  asks for the object itself when it is a source or carries a finalizer of ours, and for its
  origin when it is a managed copy; an update event does so for the new object, and for the
  origins of both the old and the new object as long as the new one is still a managed copy. No
  watch changes a cluster.
\<close>

theorem configmap_watches:
  assumes "indexed_api_server X store nslist (s_Keys sy)"
    and "run_state (ConfigMapReconciler_SetupWithManager X sy (Some ch) ev) s = (reqs, s')"
  shows "(\<forall>c. store c (world s') = store c (world s)) \<and>
    (let sources = {obj. store (s_Client sy) (world s) (okey obj) = Some obj \<and> objKind obj = ConfigMapKind \<and>
           isSource (s_Keys sy) obj};
         listed = fst (client_list X (s_Client sy) ConfigMapKind (MatchingFields SourceIndexField sourceIndexTrue) (world s));
         itself = (\<lambda>obj. if isSource (s_Keys sy) obj \<or> hasFinalizer (finalizers X) (s_Keys sy) obj
           then {(Namespace obj, Name obj)} else {});
         origin = (\<lambda>obj. case copyOrigin (s_Keys sy) obj of (ns, n, ok) \<Rightarrow> if ok then {(ns, n)} else {})
     in case ev of
        NamespaceEvent _ \<Rightarrow> (case listed of
            Inl _ \<Rightarrow> reqs = []
          | Inr _ \<Rightarrow> set reqs = (\<lambda>obj. (Namespace obj, Name obj)) ` sources)
      | ClusterReadyEvent cred \<Rightarrow> (case listed of
            Inl _ \<Rightarrow> reqs = []
          | Inr _ \<Rightarrow> set reqs = (\<lambda>obj. (Namespace obj, Name obj)) `
              {obj \<in> sources. target_lookup (source_targets (s_Keys sy) obj) (Name cred) \<noteq> None})
      | ObjectEvent obj \<Rightarrow> s' = s \<and> set reqs =
          (if objKind obj = ConfigMapKind then itself obj \<union> origin obj else {})
      | UpdateEvent old obj \<Rightarrow> s' = s \<and> set reqs =
          (if objKind obj = ConfigMapKind
           then itself obj \<union> (if isManagedCopy (s_Keys sy) obj then origin old \<union> origin obj else {}) else {}))"
proof -
  note S = indexed_api_server.wp_sourceRequests [OF assms(1) refl, where kd = ConfigMapKind and l = "ConfigMapList []"]
    and C = indexed_api_server.wp_mapCredentialToSources [OF assms(1) refl, where kd = ConfigMapKind and l = "ConfigMapList []"]
  have image: "{(Namespace obj, Name obj) | obj. P obj} = (\<lambda>obj. (Namespace obj, Name obj)) ` {obj. P obj}" for P
    by blast
  have copy: "isManagedCopy (s_Keys sy) obj" if "copyOrigin (s_Keys sy) obj = (ns, n, True)" for obj ns n
    using that by (auto simp: copyOrigin_def isManagedCopy_def split: option.splits)
  show ?thesis
  proof (cases ev)
    case (ObjectEvent obj)
    with assms(2) copy show ?thesis
      by (auto simp: ConfigMapReconciler_SetupWithManager_def sourcePredicate_def managedCopyPredicate_def
          mapCopyToSource_def Let_def split: prod.splits if_splits)
  next
    case (UpdateEvent old obj)
    with assms(2) show ?thesis
      by (auto simp: ConfigMapReconciler_SetupWithManager_def sourcePredicate_def managedCopyPredicate_def
          mapCopyToSource_def Let_def split: prod.splits if_splits)
  next
    case (NamespaceEvent n)
    then have "run_state (sourceRequests X sy (ConfigMapList [])) s = (reqs, s')"
      using assms(2) by (simp add: ConfigMapReconciler_SetupWithManager_def)
    from wp_runD [OF S this] NamespaceEvent show ?thesis
      by (simp add: listKind_def image Let_def split: sum.splits)
  next
    case (ClusterReadyEvent cred)
    then have "run_state (mapCredentialToSources X sy cred (ConfigMapList [])) s = (reqs, s')"
      using assms(2) by (simp add: ConfigMapReconciler_SetupWithManager_def)
    from wp_runD [OF C this] ClusterReadyEvent show ?thesis
      by (simp add: listKind_def image conj_assoc Let_def split: sum.splits)
  qed
qed

theorem configmap_watches_witness:
  "fst (run_state (ConfigMapReconciler_SetupWithManager demo_X demo_syncer (Some 0)
      (ClusterReadyEvent (demo_object ''ops'' ''s1''))) demo_state) = [(''d'', ''cm'')] \<and>
   {(''d'', ''cm'')} = (\<lambda>obj. (Namespace obj, Name obj)) `
     {obj \<in> {obj. mem_store 0 demo_world (okey obj) = Some obj \<and> objKind obj = ConfigMapKind \<and> isSource demo_keys obj}.
        target_lookup (source_targets demo_keys obj) ''s1'' \<noteq> None}"
proof -
  let ?r = "run_state (ConfigMapReconciler_SetupWithManager demo_X demo_syncer (Some 0)
      (ClusterReadyEvent (demo_object ''ops'' ''s1''))) demo_state"
  have reqs: "fst ?r = [(''d'', ''cm'')]" by code_simp
  then have run: "?r = ([(''d'', ''cm'')], snd ?r)" by (metis prod.collapse)
  have idx: "indexed_api_server demo_X mem_store demo_nslist (s_Keys demo_syncer)"
    by (simp add: mem.indexed_api_server_axioms)
  have "Name (demo_object ''ops'' ''s1'') = ''s1''" by code_simp
  moreover have "\<not> isl (fst (client_list demo_X 0 ConfigMapKind (MatchingFields SourceIndexField sourceIndexTrue) demo_world))"
    by code_simp
  ultimately show ?thesis
    using configmap_watches [OF idx run] reqs by (simp add: Let_def split: sum.splits)
qed

subsection \<open>The gauge\<close>

text \<open>
  C21: the counter runs until its context is cancelled and then returns no error: it counts once at
  the start and once per tick before the cancellation, never more often than the interval, which
  is positive. While no list fails, every count publishes for each domain and kind the number of
  objects that carry the domain's managed-by label; counting changes no cluster.
\<close>

theorem counter_publishes:
  assumes "api_server X store nslist" and "run_state (Start X d sigs) s = (r, s')"
  shows "(r = Some None) = (Done \<in> set sigs) \<and> (r = None) = (Done \<notin> set sigs) \<and> 0 < tick_interval d \<and>
    (\<forall>c. store c (world s') = store c (world s)) \<and>
    (lists_succeed X (d_Client d) (world s) \<longrightarrow>
       effects s' = effects s @ concat (replicate (Suc (length (takeWhile (\<lambda>g. g = Tick) sigs)))
         (all_gauges store (d_Client d) (world s) (each (d_Keys d)))))"
proof -
  have "wp (Start X d sigs) (\<lambda>r s'. r = (if Done \<in> set sigs then Some None else None) \<and>
      (\<forall>c. store c (world s') = store c (world s)) \<and>
      (lists_succeed X (d_Client d) (world s) \<longrightarrow>
         effects s' = effects s @ concat (replicate (Suc (length (takeWhile (\<lambda>g. g = Tick) sigs)))
           (all_gauges store (d_Client d) (world s) (each (d_Keys d)))))) s"
    unfolding Start_def wp_bind
  proof (rule wp_mono [OF api_server.wp_count_copies [OF assms(1)]],
      rule wp_mono [OF api_server.wp_Start_loop [OF assms(1)]], goal_cases)
    case (1 u s1 r s2)
    let ?G = "\<lambda>w. all_gauges store (d_Client d) w (each (d_Keys d))"
    have same: "store c (world s1) = store c (world s)" for c using 1(1) by (simp add: count_post_def)
    then have "?G (world s1) = ?G (world s)" by (simp add: all_gauges_def gauge_of_def stamped_objects_def)
    moreover have "lists_succeed X (d_Client d) (world s) \<longrightarrow>
        effects s1 = effects s @ ?G (world s) \<and> lists_succeed X (d_Client d) (world s1)"
      using 1(1) unfolding count_post_def by blast
    ultimately show ?case using 1(2) same by simp
  qed
  from wp_runD [OF this assms(2)] show ?thesis
    by (auto simp: tick_interval_def DefaultDomainCountInterval_def)
qed

definition demo_counter :: "nat DomainCounter" where
  "demo_counter = \<lparr>d_Client = 0, d_Keys = demo_keys, d_Interval = 0\<rparr>"

theorem counter_publishes_witness:
  "effects (snd (run_state (Start demo_X demo_counter [Tick, Done, Tick]) demo_state)) =
     concat (replicate 2 (all_gauges mem_store 0 demo_world (each demo_keys))) \<and>
   fst (run_state (Start demo_X demo_counter [Tick, Done, Tick]) demo_state) = Some None"
proof -
  let ?r = "run_state (Start demo_X demo_counter [Tick, Done, Tick]) demo_state"
  have run: "?r = (fst ?r, snd ?r)" by simp
  have "lists_succeed demo_X 0 demo_world"
    unfolding lists_succeed_def
    by (intro exI [of _ "{w. 0 \<notin> set (m_down w)}"]) (auto simp: mem_list_def demo_world_def)
  then show ?thesis
    using counter_publishes [OF mem_api_server run] by (simp add: demo_counter_def demo_state_def numeral_2_eq_2)
qed

end
