(* ===== verification/Liveness.thy ===== *)
theory Liveness
  imports Source_Lifecycle Effect_Log
begin

text \<open>
  When the clusters answer, a reconciliation succeeds. \<open>answering\<close> states what a healthy API
  server adds to the laws: in the worlds \<open>up\<close>, which no call leaves, the clusters \<open>H\<close> can be
  reached and the program is authorized there. A write may still be refused: \<open>accepts c old new\<close>
  says that cluster \<open>c\<close> lets \<open>new\<close> be created (\<open>old\<close> is \<open>None\<close>) or take the place of
  \<open>old\<close>, which depends on its namespace, on validation, on immutable fields and on admission.
  Nothing is assumed of \<open>accepts\<close>; the results say which writes have to be accepted. The rules
  of \<open>ok\<close> follow a program that meets no error.
\<close>

subsection \<open>Programs that meet no error\<close>

text \<open>\<open>ok I m P\<close>: from a state in \<open>I\<close>, \<open>m\<close> ends in a state in \<open>I\<close> with a result in \<open>P\<close>.\<close>

definition ok :: "('s \<Rightarrow> bool) \<Rightarrow> ('s, 'a) state \<Rightarrow> ('a \<Rightarrow> bool) \<Rightarrow> bool" where
  "ok I m P \<longleftrightarrow> (\<forall>s. I s \<longrightarrow> wp m (\<lambda>r s'. I s' \<and> P r) s)"

definition rets :: "('a \<Rightarrow> bool) \<Rightarrow> 'a outcome \<Rightarrow> bool" where
  "rets P r \<longleftrightarrow> (case r of Panic \<Rightarrow> False | Ret a \<Rightarrow> P a)"

definition goes :: "('a \<Rightarrow> bool) \<Rightarrow> ('a, 'r) flow \<Rightarrow> bool" where
  "goes P f \<longleftrightarrow> (case f of Next a \<Rightarrow> P a | Return _ \<Rightarrow> False)"

lemma rets_goes_simps [simp]:
  "rets P (Ret a) \<longleftrightarrow> P a" "\<not> rets P Panic" "goes P (Next a) \<longleftrightarrow> P a" "\<not> goes P (Return r)"
  by (simp_all add: rets_def goes_def)

named_theorems ok_rules \<open>introduction rules for programs that meet no error\<close>

lemma okI: "(\<And>s. I s \<Longrightarrow> wp m (\<lambda>r s'. I s' \<and> P r) s) \<Longrightarrow> ok I m P"
  by (simp add: ok_def)

lemma okD: "ok I m P \<Longrightarrow> I s \<Longrightarrow> wp m (\<lambda>r s'. I s' \<and> P r) s"
  by (simp add: ok_def)

lemma ok_mono: "ok I m P \<Longrightarrow> (\<And>r. P r \<Longrightarrow> Q r) \<Longrightarrow> ok I m Q"
  by (rule okI, drule (1) okD, erule wp_mono) simp

lemma ok_return [ok_rules]: "P a \<Longrightarrow> ok I (State_Monad.return a) P"
  by (simp add: ok_def wp_rules)

lemma ok_bind:
  assumes "ok I m P" and "\<And>a. P a \<Longrightarrow> ok I (f a) Q"
  shows "ok I (State_Monad.bind m f) Q"
proof (rule okI, unfold wp_bind)
  fix s assume "I s"
  from okD [OF assms(1) this] show "wp m (\<lambda>a. wp (f a) (\<lambda>r s'. I s' \<and> Q r)) s"
    by (rule wp_mono) (use okD [OF assms(2)] in blast)
qed

lemma ok_call:
  assumes "ok I m (rets P)" and "\<And>a. P a \<Longrightarrow> ok I (f a) Q"
  shows "ok I (call m f) Q"
  unfolding call_def by (rule ok_bind [OF assms(1)]) (use assms(2) in \<open>simp add: rets_def split: outcome.splits\<close>)

lemma ok_step_call:
  assumes "ok I m (rets P)" and "\<And>a. P a \<Longrightarrow> ok I (f a) Q"
  shows "ok I (step_call m f) Q"
  unfolding step_call_def by (rule ok_bind [OF assms(1)]) (use assms(2) in \<open>simp add: rets_def split: outcome.splits\<close>)

lemma ok_for_range:
  assumes "\<And>x a. x \<in> set xs \<Longrightarrow> P a \<Longrightarrow> ok I (body x a) (goes P)" and "P a"
  shows "ok I (for_range xs body a) (goes P)"
  using assms
proof (induction xs arbitrary: a)
  case Nil
  then show ?case by (simp add: ok_rules)
next
  case (Cons x xs)
  have "ok I (case f of Next a' \<Rightarrow> for_range xs body a' | Return r \<Rightarrow> State_Monad.return (Return r)) (goes P)"
    if "goes P f" for f
    using that Cons.IH Cons.prems(1) by (cases f) auto
  then show ?case
    by (simp, intro ok_bind [OF Cons.prems(1) [OF _ Cons.prems(2)]]) simp_all
qed

text \<open>The loop rule with a condition that depends on the elements visited so far.\<close>

lemma ok_for_range_prefix:
  assumes "\<And>ys x zs a. xs = ys @ x # zs \<Longrightarrow> P ys a \<Longrightarrow> ok I (body x a) (goes (P (ys @ [x])))" and "P [] a"
  shows "ok I (for_range xs body a) (goes (P xs))"
proof -
  have "ok I (for_range zs body a) (goes (P xs))" if "xs = ys @ zs" "P ys a" for ys zs a
    using that
  proof (induction zs arbitrary: ys a)
    case Nil
    then show ?case by (simp add: ok_rules)
  next
    case (Cons x zs)
    have "ok I (case f of Next a' \<Rightarrow> for_range zs body a' | Return r \<Rightarrow> State_Monad.return (Return r)) (goes (P xs))"
      if "goes (P (ys @ [x])) f" for f
      using that Cons.IH [of "ys @ [x]"] Cons.prems(1) by (cases f) auto
    then show ?case
      by (simp, intro ok_bind [OF assms(1) [OF Cons.prems]]) simp_all
  qed
  from this [of "[]"] assms(2) show ?thesis by simp
qed

lemma ok_if [ok_rules]: "(c \<Longrightarrow> ok I m P) \<Longrightarrow> (\<not> c \<Longrightarrow> ok I n P) \<Longrightarrow> ok I (if c then m else n) P"
  by simp

text \<open>A state is live when its world is up and its registry is as \<open>G\<close> says.\<close>

definition live :: "('w \<Rightarrow> bool) \<Rightarrow> ('r option \<Rightarrow> bool) \<Rightarrow> ('r, 'w) st \<Rightarrow> bool" where
  "live up G s \<longleftrightarrow> up (world s) \<and> G (registry s)"

lemma live_effects [simp]: "live up G (s\<lparr>effects := e\<rparr>) \<longleftrightarrow> live up G s"
  by (simp add: live_def)

lemma live_emit [ok_rules]: "P () \<Longrightarrow> ok (live up G) (emit e) P"
  by (simp add: ok_def live_def wp_rules)

lemma live_Eventf [ok_rules]: "P () \<Longrightarrow> ok (live up G) (Eventf obj ty reason fmt args) P"
  by (simp add: ok_def live_def wp_rules)

lemma live_range_over: "ok (live up G) (range_over X S) (\<lambda>_. True)"
  by (simp add: ok_def wp_rules)

lemma live_countDeleted [ok_rules]: "P () \<Longrightarrow> ok (live up G) (countDeleted obj n) P"
  by (simp add: ok_def live_def wp_rules)

lemma live_api:
  "(\<And>w. up w \<Longrightarrow> up (snd (f w)) \<and> P (fst (f w))) \<Longrightarrow> ok (live up G) (api f) P"
  by (simp add: ok_def live_def wp_api split: prod.splits) (metis fst_conv snd_conv)

subsection \<open>Clusters that answer\<close>

locale answering = platform X store nslist
  for X :: "('c, 'w) ext" and store and nslist +
  fixes H :: "'c set" and up :: "'w \<Rightarrow> bool" and accepts :: "'c \<Rightarrow> object option \<Rightarrow> object \<Rightarrow> bool"
  assumes up_get: "up w \<Longrightarrow> up (snd (client_get X c kd ns n w))"
    and up_list: "up w \<Longrightarrow> up (snd (client_list X c kd opt w))"
    and up_create: "up w \<Longrightarrow> up (snd (client_create X c obj w))"
    and up_update: "up w \<Longrightarrow> up (snd (client_update X c obj w))"
    and up_delete: "up w \<Longrightarrow> up (snd (client_delete X c obj w))"
    and up_namespaces: "up w \<Longrightarrow> up (snd (client_list_namespaces X c lim w))"
    and get_answers: "up w \<Longrightarrow> c \<in> H \<Longrightarrow> kd \<noteq> OtherKind \<Longrightarrow>
      client_get X c kd ns n w = (Inl e, w') \<Longrightarrow> IsNotFound e"
    and list_answers: "up w \<Longrightarrow> c \<in> H \<Longrightarrow> kd \<noteq> OtherKind \<Longrightarrow>
      client_list X c kd (MatchingLabels m) w \<noteq> (Inl e, w')"
    and create_answers: "up w \<Longrightarrow> c \<in> H \<Longrightarrow> accepts c None obj \<Longrightarrow> client_create X c obj w = (Inl e, w') \<Longrightarrow> IsAlreadyExists e"
    and update_answers: "up w \<Longrightarrow> c \<in> H \<Longrightarrow> store c w (okey obj) = Some old \<Longrightarrow>
      UID old = UID obj \<Longrightarrow> ResourceVersion old = ResourceVersion obj \<Longrightarrow> accepts c (Some old) obj \<Longrightarrow>
      client_update X c obj w \<noteq> (Inl e, w')"
    and delete_answers: "up w \<Longrightarrow> c \<in> H \<Longrightarrow> client_delete X c obj w = (Inl e, w') \<Longrightarrow> IsNotFound e"
    and namespaces_answer: "up w \<Longrightarrow> c \<in> H \<Longrightarrow> client_list_namespaces X c None w \<noteq> (Inl e, w')"
begin

text \<open>Whatever the other clusters answer, a world that is up stays so.\<close>

definition stays :: "('r, 'w) st \<Rightarrow> ('r, 'w) st \<Rightarrow> bool" where
  "stays s s' \<longleftrightarrow> (up (world s) \<longrightarrow> up (world s'))"

lemma ok_Get: "c \<in> H \<Longrightarrow> kd \<noteq> OtherKind \<Longrightarrow>
    ok (live up G) (Get X c kd ns n) (\<lambda>r. \<forall>e. r = Inl e \<longrightarrow> IsNotFound e)"
  unfolding Get_def by (rule live_api) (metis get_answers up_get prod.collapse)

lemma ok_List: "c \<in> H \<Longrightarrow> kd \<noteq> OtherKind \<Longrightarrow>
    ok (live up G) (List X c kd (MatchingLabels m)) (\<lambda>r. \<exists>l. r = Inr l)"
  unfolding List_def by (rule live_api) (metis list_answers up_list prod.collapse sum.exhaust)

lemma ok_Create: "c \<in> H \<Longrightarrow> accepts c None obj \<Longrightarrow>
    ok (live up G) (Create X c obj) (\<lambda>r. \<forall>e. r = Inl e \<longrightarrow> IsAlreadyExists e)"
  unfolding Create_def by (rule live_api) (metis create_answers up_create prod.collapse)

lemma ok_Delete: "c \<in> H \<Longrightarrow>
    ok (live up G) (Delete X c obj) (\<lambda>r. \<forall>e. r = Inl e \<longrightarrow> IsNotFound e)"
  unfolding Delete_def by (rule live_api) (metis delete_answers up_delete prod.collapse)

lemma ok_ListNamespaces: "c \<in> H \<Longrightarrow>
    ok (live up G) (ListNamespaces X c None) (\<lambda>r. \<exists>l. r = Inr l)"
  unfolding ListNamespaces_def
  by (rule live_api) (metis namespaces_answer up_namespaces prod.collapse sum.exhaust)

text \<open>
  An update that the server accepts succeeds when the object was read from the server and is
  still as it was read.
\<close>

lemma live_Update:
  assumes "live up G s" and "c \<in> H" and "store c (world s) (okey obj) = Some old"
    and "UID old = UID obj" "ResourceVersion old = ResourceVersion obj" and "accepts c (Some old) obj"
  shows "wp (Update X c obj) (\<lambda>r s'. live up G s' \<and> r = Inr ()) s"
proof -
  obtain r w' where r: "client_update X c obj (world s) = (r, w')" by (rule prod.exhaust)
  have up: "up (world s)" using assms(1) by (simp add: live_def)
  then have "r = Inr ()" using update_answers [OF _ assms(2-6)] r by (cases r) auto
  moreover have "up w'" using up_update [OF up, of c obj] r by simp
  ultimately show ?thesis using assms(1) r by (simp add: Update_def wp_api live_def)
qed

end

sublocale answering \<subseteq> stayed: registry_relation "stays :: (('cfg, 'c, 'w) ClusterRegistry, 'w) st \<Rightarrow> _"
  by unfold_locales (auto simp: stays_def)

context answering begin

lemma stays_api: "(\<And>w. up w \<Longrightarrow> up (snd (f w))) \<Longrightarrow> stayed.follows (api f)"
  by (rule stayed.followsI) (simp add: stays_def wp_api split: prod.splits, metis snd_conv)

lemma stays_calls:
  "stayed.follows (List X c kd opt)" "stayed.follows (Delete X c obj)"
  unfolding List_def Delete_def by (intro stays_api up_list up_delete; assumption)+

lemma stays_emit: "stayed.follows (emit e)" "stayed.follows (Eventf obj ty reason fmt args)"
  by (rule stayed.followsI; simp add: stays_def wp_rules)+

lemmas stays_rules = stayed.follows_rules stayed.follows_registry stays_calls stays_emit

lemma stays_deleteCopies: "stayed.follows (deleteCopies X sy cl src keep oc)"
  unfolding deleteCopies_def deleteCopies_item_def by (intro stays_rules)

lemma stays_deleteRemoteCopies: "stayed.follows (deleteRemoteCopies X sy src)"
  unfolding deleteRemoteCopies_def deleteRemoteCopies_cluster_def
  by (intro stays_rules stays_deleteCopies)

subsection \<open>Copies\<close>

lemma ok_deleteCopies_item:
  assumes "cl \<in> H"
  shows "ok (live up G) (deleteCopies_item X sy cl keep oc c a) (goes (\<lambda>_. True))"
proof -
  have delete: "ok (live up G)
      (do { r \<leftarrow> Delete X cl c;
            case r of
              Inl err \<Rightarrow>
                if \<not> IsNotFound err then State_Monad.return (Return (Ret (n, Some err)))
                else State_Monad.return (Next (seen, n + 1))
            | Inr _ \<Rightarrow> State_Monad.return (Next (seen, n + 1)) }) (goes (\<lambda>_. True))"
    for seen :: "(string, bool) fmap" and n :: nat
    by (rule ok_bind [OF ok_Delete [OF assms]]) (auto simp: ok_rules split: sum.splits)
  obtain seen n where a: "a = (seen, n)" by (rule prod.exhaust)
  show ?thesis
    unfolding a deleteCopies_item_def Let_def prod.case
    by (intro ok_if ok_return delete) simp_all
qed

lemma ok_deleteCopies:
  assumes "cl \<in> H" and "objKind src \<noteq> OtherKind"
  shows "ok (live up G) (deleteCopies X sy cl src keep oc) (rets (\<lambda>p. snd p = None))"
proof -
  obtain l where l: "emptyListLike src = Some l" and kind: "listKind l = objKind src"
    using assms(2) emptyListLike_kind by (cases "emptyListLike src") (auto simp: emptyListLike_None)
  have item: "ok (live up G) (deleteCopies_item X sy cl keep oc c a) (goes (\<lambda>_. True))" for c a
    using assms(1) by (rule ok_deleteCopies_item)
  have sel: "ok (live up G) (do { r \<leftarrow> List X cl (listKind l) (MatchingLabels m);
        case r of
          Inl err \<Rightarrow> State_Monad.return (Return (Ret (snd a, Some err)))
        | Inr l \<Rightarrow> for_range (listItems l) (deleteCopies_item X sy cl keep oc) a })
      (goes (\<lambda>_. True))" for m and a :: "(string, bool) fmap \<times> nat"
    by (rule ok_bind [OF ok_List])
      (use assms item in \<open>auto simp: kind intro!: ok_for_range\<close>)
  show ?thesis
    unfolding deleteCopies_def l option.case case_prod_beta prod.collapse
    by (rule ok_bind [OF ok_for_range [where P = "\<lambda>_. True"]])
      (use sel in \<open>auto simp: goes_def ok_rules split: flow.splits\<close>)
qed

end

subsection \<open>Writes that are accepted\<close>

text \<open>
  \<open>acceptable\<close>: what an upsert writes into a slot that holds \<open>old\<close>, if it writes at all, is
  accepted by the cluster.
\<close>

definition acceptable ::
  "('c \<Rightarrow> object option \<Rightarrow> object \<Rightarrow> bool) \<Rightarrow> KeySet \<Rightarrow> object \<Rightarrow> string \<Rightarrow> string \<Rightarrow> 'c \<Rightarrow> object option \<Rightarrow> bool" where
  "acceptable accepts ks src ns oc c old \<longleftrightarrow>
     (case fst (spec_upsert ks src ns oc old) of
        None \<Rightarrow> True
      | Some want \<Rightarrow> old = Some want \<or> accepts c old want)"

lemma acceptable_settled:
  assumes "wf_KeySet ks" and "\<And>obj. old = Some obj \<Longrightarrow> objKind obj = objKind src"
    and "slot_result old (fst (spec_upsert ks src ns oc old)) new"
  shows "acceptable accepts ks src ns oc c new"
  using spec_upsert_settled [OF assms] by (simp add: acceptable_def split: option.splits)

context answering begin

text \<open>
  \<open>ready\<close>: the copies that the run may write into the namespaces \<open>N c\<close> of each cluster, with the
  cluster identity \<open>OC c\<close>, are acceptable as things are.
\<close>

definition ready ::
  "KeySet \<Rightarrow> object \<Rightarrow> ('c \<Rightarrow> string) \<Rightarrow> ('c \<Rightarrow> string set) \<Rightarrow> ('r option \<Rightarrow> bool) \<Rightarrow> ('r, 'w) st \<Rightarrow> bool" where
  "ready ks src OC N G s \<longleftrightarrow> live up G s \<and>
     (\<forall>c. \<forall>ns\<in>N c. acceptable accepts ks src ns (OC c) c (store c (world s) (objKind src, ns, Name src)))"

lemma ready_effects [simp]: "ready ks src OC N G (s\<lparr>effects := e\<rparr>) \<longleftrightarrow> ready ks src OC N G s"
  by (simp add: ready_def)

lemma ready_emit [ok_rules]:
  "P () \<Longrightarrow> ok (ready ks src OC N G) (emit e) P"
  "P () \<Longrightarrow> ok (ready ks src OC N G) (Eventf obj ty reason fmt args) P"
  "P () \<Longrightarrow> ok (ready ks src OC N G) (countDeleted obj n) P"
  by (simp_all add: ok_def wp_rules ready_def live_def wp_countDeleted)

lemma ready_range_over: "ok (ready ks src OC N G) (range_over X S) (\<lambda>xs. set xs = fset S)"
  using range_once by (simp add: ok_def wp_rules)

lemma live_Get:
  assumes "live up G s" and "c \<in> H" and "kd \<noteq> OtherKind"
  shows "wp (Get X c kd ns n) (\<lambda>r s'. live up G s' \<and> (\<forall>d. store d (world s') = store d (world s)) \<and>
    (case r of Inl e \<Rightarrow> IsNotFound e \<and> store c (world s) (kd, ns, n) = None
     | Inr obj \<Rightarrow> store c (world s) (kd, ns, n) = Some obj)) s"
proof -
  have "wp (Get X c kd ns n) (\<lambda>r s'. (\<forall>d. store d (world s') = store d (world s)) \<and>
     (\<forall>obj. r = Inr obj \<longrightarrow> store c (world s) (kd, ns, n) = Some obj) \<and>
     (\<forall>e. r = Inl e \<and> IsNotFound e \<longrightarrow> store c (world s) (kd, ns, n) = None)) s"
    by (rule wp_Get) simp_all
  from wp_conj [OF okD [OF ok_Get [OF assms(2,3)] assms(1)] this] show ?thesis
    by (rule wp_mono) (auto split: sum.splits)
qed

lemma live_upsertExisting:
  assumes "cl \<in> H" and "objKind src \<noteq> OtherKind" and "live up G s"
    and old: "store cl (world s) (okey obj) = Some obj" and kind: "objKind obj = objKind src"
    and wf: "wf_KeySet (s_Keys sy)"
    and acc: "isManagedCopy (s_Keys sy) obj \<or> isAdoptable obj \<Longrightarrow>
      isManagedCopy (s_Keys sy) obj \<longrightarrow> ownsCopy (s_Keys sy) obj src oc \<and> refreshed (s_Keys sy) src oc obj \<noteq> obj \<Longrightarrow>
      accepts cl (Some obj) (refreshed (s_Keys sy) src oc obj)"
  shows "wp (upsertExisting X sy cl src ns oc obj) (\<lambda>r s'. live up G s' \<and> rets (\<lambda>p. snd p = None) r) s"
proof -
  let ?new = "refreshed (s_Keys sy) src oc obj"
  have equal: "contentEqual obj ?new = Some (?new = obj)"
    using assms(2) kind by (auto simp: contentEqual_same_kind refreshed_kind refreshed_id_iff)
  have key: "okey ?new = okey obj" by (simp add: okey_def refreshed_kind kind)
  have written: "wp (Update X cl ?new) Q s"
    if "isManagedCopy (s_Keys sy) obj \<or> isAdoptable obj"
      and "isManagedCopy (s_Keys sy) obj \<longrightarrow> ownsCopy (s_Keys sy) obj src oc \<and> ?new \<noteq> obj"
      and "\<And>s'. live up G s' \<Longrightarrow> Q (Inr ()) s'" for Q
    by (rule wp_mono [OF live_Update [OF assms(3,1), where old = obj]]) (use that old acc key in auto)
  note steps = upsertExisting_def Let_def copy_steps [OF kind [symmetric]] equal key wp_rules
  show ?thesis
  proof (cases "isManagedCopy (s_Keys sy) obj")
    case True
    show ?thesis
    proof (cases "?new = obj")
      case True
      have "contentEqual obj obj = Some True" using equal unfolding True by simp
      with \<open>isManagedCopy (s_Keys sy) obj\<close> True assms(3) show ?thesis
        by (auto simp: steps split: prod.splits)
    next
      case False
      with \<open>isManagedCopy (s_Keys sy) obj\<close> assms(3) show ?thesis
        by (auto simp: steps intro!: written split: prod.splits)
    qed
  next
    case False
    with refreshed_managed(1) [OF wf, of src oc obj] have "?new \<noteq> obj" by blast
    with False assms(3) show ?thesis
      by (auto simp: steps intro!: written split: prod.splits)
  qed
qed

lemma live_upsertCopy:
  assumes "cl \<in> H" and kind: "objKind src \<noteq> OtherKind" and wf: "wf_KeySet (s_Keys sy)" and s: "live up G s"
    and acc: "acceptable accepts (s_Keys sy) src ns oc cl (store cl (world s) (objKind src, ns, Name src))"
  shows "wp (upsertCopy X sy cl src ns oc) (\<lambda>r s'. live up G s' \<and> rets (\<lambda>p. snd p = None) r) s"
proof -
  obtain e where e: "emptyLike src = Some e" and e_kind: "objKind e = objKind src"
    using kind emptyLike_kind by (cases "emptyLike src") (auto simp: emptyLike_None)
  note fresh = fresh_steps [OF e, of "s_Keys sy" ns oc]
  let ?old = "store cl (world s) (objKind src, ns, Name src)"
  have create: "wp (Create X cl (fresh_copy (s_Keys sy) src ns oc)) Q t"
    if "?old = None" and "live up G t" and "\<And>t'. live up G t' \<Longrightarrow> Q (Inr ()) t'"
      and "\<And>err t'. IsAlreadyExists err \<Longrightarrow> live up G t' \<Longrightarrow> Q (Inl err) t'" for Q t
  proof -
    have "accepts cl None (fresh_copy (s_Keys sy) src ns oc)"
      using acc that(1) by (simp add: acceptable_def spec_upsert_def slot_class_def)
    from okD [OF ok_Create [OF assms(1) this] that(2)] show ?thesis
      by (rule wp_mono) (use that(3,4) in \<open>metis old.unit.exhaust sum.exhaust\<close>)
  qed
  show ?thesis
    unfolding upsertCopy_def e option.case wp_bind e_kind
  proof (rule wp_mono [OF live_Get [OF s assms(1) kind]], goal_cases)
    case (1 r t)
    show ?case
    proof (cases r)
      case (Inl err)
      with 1 have "?old = None" "live up G t" by simp_all
      with Inl 1 show ?thesis
        by (auto simp: Let_def fresh wp_rules intro!: create)
    next
      case (Inr obj)
      with 1 have old: "?old = Some obj" by simp
      have key: "okey obj = (objKind src, ns, Name src)" using old by (rule stored_key)
      have "accepts cl (Some obj) (refreshed (s_Keys sy) src oc obj)"
        if "isManagedCopy (s_Keys sy) obj \<or> isAdoptable obj"
          and "isManagedCopy (s_Keys sy) obj \<longrightarrow> ownsCopy (s_Keys sy) obj src oc \<and> refreshed (s_Keys sy) src oc obj \<noteq> obj"
        using acc that refreshed_managed(1) [OF wf, of src oc obj]
        by (auto simp: acceptable_def spec_upsert_def slot_class_def old split: if_splits)
      then have "wp (upsertExisting X sy cl src ns oc obj) (\<lambda>r s'. live up G s' \<and> rets (\<lambda>p. snd p = None) r) t"
        using 1 old key by (intro live_upsertExisting [OF assms(1) kind _ _ _ wf]) (auto simp: okey_def)
      then show ?thesis by (simp add: Inr)
    qed
  qed
qed

lemma ready_upsertCopy:
  assumes "cl \<in> H" and kind: "objKind src \<noteq> OtherKind" and wf: "wf_KeySet (s_Keys sy)"
    and ns: "ns \<in> N cl" and oc: "OC cl = oc"
  shows "ok (ready (s_Keys sy) src OC N G) (upsertCopy X sy cl src ns oc) (rets (\<lambda>p. snd p = None))"
proof (rule okI)
  fix s
  let ?key = "\<lambda>m. (objKind src, m, Name src)"
  assume s: "ready (s_Keys sy) src OC N G s"
  then have "live up G s" "acceptable accepts (s_Keys sy) src ns oc cl (store cl (world s) (?key ns))"
    using ns oc by (auto simp: ready_def)
  note run = wp_conj [OF wp_upsertCopy [OF wf kind] live_upsertCopy [OF assms(1) kind wf this]]
  show "wp (upsertCopy X sy cl src ns oc) (\<lambda>r s'. ready (s_Keys sy) src OC N G s' \<and> rets (\<lambda>p. snd p = None) r) s"
  proof (rule wp_mono [OF run], elim conjE, intro conjI)
    fix r s'
    assume post: "upsert_post store (s_Keys sy) cl src ns oc s r s'" and s': "live up G s'"
      and ok: "rets (\<lambda>p. snd p = None) r"
    then obtain a where "r = Ret (a, None)" by (auto simp: rets_def split: outcome.splits)
    note wrote = upsert_post_okD(1) [OF post [unfolded this]]
    have kinds: "objKind obj = objKind src" if "store cl (world s) (?key ns) = Some obj" for obj
      using stored_key [OF that] by (simp add: okey_def)
    have "acceptable accepts (s_Keys sy) src m (OC c) c (store c (world s') (?key m))" if "m \<in> N c" for c m
    proof (cases "c = cl \<and> m = ns")
      case True
      with acceptable_settled [OF wf kinds wrote, of accepts cl] oc show ?thesis by simp
    next
      case False
      then have "store c (world s') (?key m) = store c (world s) (?key m)"
        using upsert_postD(1) [OF post] by (auto simp: only_slot_def)
      with s that show ?thesis by (simp add: ready_def)
    qed
    with s' show "ready (s_Keys sy) src OC N G s'" by (simp add: ready_def)
  qed simp
qed

lemma ready_deleteCopies:
  assumes "cl \<in> H" and kind: "objKind src \<noteq> OtherKind" and wf: "wf_KeySet (s_Keys sy)"
    and keep: "N cl \<subseteq> keep_set keep"
  shows "ok (ready (s_Keys sy) src OC N G) (deleteCopies X sy cl src keep oc) (rets (\<lambda>p. snd p = None))"
proof (rule okI)
  fix s
  let ?key = "\<lambda>m. (objKind src, m, Name src)"
  assume s: "ready (s_Keys sy) src OC N G s"
  then have "live up G s" by (simp add: ready_def)
  note run = wp_conj [OF wp_deleteCopies [OF wf kind] okD [OF ok_deleteCopies [OF assms(1) kind] this]]
  show "wp (deleteCopies X sy cl src keep oc) (\<lambda>r s'. ready (s_Keys sy) src OC N G s' \<and> rets (\<lambda>p. snd p = None) r) s"
  proof (rule wp_mono [OF run], elim conjE, intro conjI)
    fix r s'
    assume post: "delete_post store (s_Keys sy) cl src keep oc s r s'" and s': "live up G s'"
    then obtain D where D: "pruned (prunable (s_Keys sy) src keep oc) D (store cl (world s)) (store cl (world s'))"
      unfolding delete_post_def by blast
    have "store c (world s') (?key m) = store c (world s) (?key m)" if "m \<in> N c" for c m
    proof (cases "c = cl")
      case True
      have "?key m \<notin> D"
      proof
        assume "?key m \<in> D"
        from prunedD(3) [OF D this] obtain old where "store cl (world s) (?key m) = Some old"
          and old: "prunable (s_Keys sy) src keep oc old" by blast
        then have "Namespace old = m" using stored_key by (fastforce simp: okey_def)
        with old that keep True show False by (auto simp: prunable_def keep_set_def)
      qed
      with prunedD(1) [OF D] True show ?thesis by simp
    qed (use post in \<open>simp add: delete_post_def\<close>)
    with s s' show "ready (s_Keys sy) src OC N G s'" by (simp add: ready_def)
  qed simp
qed

lemma ready_replicateLocal:
  assumes "s_Client sy \<in> H" and kind: "objKind obj \<noteq> OtherKind" and wf: "wf_KeySet (s_Keys sy)"
    and T: "fset (fmdom T) = keep_set (Some T)" and N: "N (s_Client sy) = keep_set (Some T)" and OC: "OC (s_Client sy) = []"
  shows "ok (ready (s_Keys sy) obj OC N G) (replicateLocal X sy obj T) (\<lambda>r. r = Ret None)"
proof -
  let ?I = "ready (s_Keys sy) obj OC N G"
  have target: "ok ?I (upsertTarget X sy obj ns n) (goes (\<lambda>_. True))" if "ns \<in> keep_set (Some T)" for ns n
    unfolding upsertTarget_def
    by (rule ok_step_call [OF ready_upsertCopy [where N = N and OC = OC, OF assms(1) kind wf _ OC]])
      (use that N in \<open>auto intro!: ok_rules ok_bind [where P = "\<lambda>_. True"]\<close>)
  have prune: "ok ?I (call (deleteCopies X sy (s_Client sy) obj (Some T) []) (\<lambda>(deleted, err).
      case err of
        Some err \<Rightarrow> State_Monad.return (Ret (Some err))
      | None \<Rightarrow> do {
          countDeleted obj deleted;
          (if (changed :: nat) > 0 \<or> deleted > 0
           then Eventf obj Normal ''Replicated''
             ''Reconciled %d target namespace(s): %d written, %d removed''
             [ArgN (fcard (fmdom T)), ArgN changed, ArgN deleted]
           else State_Monad.return ());
          State_Monad.return (Ret None)
        })) (\<lambda>r. r = Ret None)" for changed
    by (rule ok_call [OF ready_deleteCopies [where N = N, OF assms(1) kind wf]])
      (use N in \<open>auto intro!: ok_rules ok_bind [where P = "\<lambda>_. True"]\<close>)
  show ?thesis
    unfolding replicateLocal_def
    by (rule ok_bind [OF ready_range_over], rule ok_bind [OF ok_for_range [where P = "\<lambda>_. True"]])
      (use target prune T in \<open>auto simp: goes_def split: flow.splits\<close>)
qed

end


subsection \<open>Spokes\<close>

text \<open>\<open>registered P r\<close>: there is a registry and its entries are as \<open>P\<close> says.\<close>

definition registered :: "(string \<Rightarrow> 'c \<Rightarrow> bool) \<Rightarrow> ('cfg, 'c, 'w) ClusterRegistry option \<Rightarrow> bool" where
  "registered P r \<longleftrightarrow> (case r of None \<Rightarrow> False | Some rg \<Rightarrow> \<forall>cid c. reg_lookup rg cid = Some c \<longrightarrow> P cid c)"

context answering begin

lemma ready_ClientFor:
  "ok (ready ks src OC N (registered P)) (ClientFor cid) (rets (\<lambda>c. \<forall>cl. c = Some cl \<longrightarrow> P cid cl))"
  by (rule okI) (auto simp: ready_def live_def registered_def wp_rules split: option.splits)

lemma ready_IDs: "ok (ready ks src OC N (registered P)) (IDs X) (rets (\<lambda>_. True))"
  by (rule okI) (auto simp: ready_def live_def registered_def wp_rules wp_IDs split: option.splits)

definition spoke_ready :: "'c Syncer \<Rightarrow> object \<Rightarrow> ('c \<Rightarrow> string) \<Rightarrow> ('c \<Rightarrow> string set) \<Rightarrow> string \<Rightarrow> 'c \<Rightarrow> bool" where
  "spoke_ready sy src OC N cid c \<longleftrightarrow> c \<in> H \<and> OC c = s_HubClusterUID sy \<and>
     N c = keep_set (spoke_keep src (source_targets (s_Keys sy) src) cid)"

lemma ready_reconcileRemote_cluster:
  assumes kind: "objKind src \<noteq> OtherKind" and wf: "wf_KeySet (s_Keys sy)"
  shows "ok (ready (s_Keys sy) src OC N (registered (spoke_ready sy src OC N)))
    (reconcileRemote_cluster X sy src (source_targets (s_Keys sy) src) cid False) (goes (\<lambda>failed. \<not> failed))"
proof -
  let ?I = "ready (s_Keys sy) src OC N (registered (spoke_ready sy src OC N))"
  let ?T = "source_targets (s_Keys sy) src"
  have prune: "ok ?I (step_call (deleteCopies X sy cl src keep oc) f) (goes (\<lambda>failed. \<not> failed))"
    if "cl \<in> H" "N cl \<subseteq> keep_set keep" and "\<And>n. ok ?I (f (n, None)) (goes (\<lambda>failed. \<not> failed))" for cl keep oc f
    by (rule ok_step_call [OF ready_deleteCopies [where N = N, OF that(1) kind wf that(2)]])
      (use that(3) in \<open>metis prod.collapse\<close>)
  have dest: "ok ?I (reconcileRemote_dest X sy src cid cl ns a) (goes (\<lambda>p. \<not> snd p \<and> insert ns S \<subseteq> keep_set (Some (fst p))))"
    if "cl \<in> H" "OC cl = s_HubClusterUID sy" "ns \<in> N cl" "\<not> snd a" "S \<subseteq> keep_set (Some (fst a))" for cl ns a S
    using that(4,5) unfolding reconcileRemote_dest_def case_prod_beta Let_def
    by (intro ok_step_call [OF ready_upsertCopy [where N = N and OC = OC, OF that(1) kind wf that(3,2)]])
      (auto intro!: ok_rules ok_bind [where P = "\<lambda>_. True"])
  show ?thesis
    unfolding reconcileRemote_cluster_def
  proof (rule ok_step_call [OF ready_ClientFor], goal_cases)
    case (1 c)
    show ?case
    proof (cases c)
      case None
      then show ?thesis by (simp add: ok_rules)
    next
      case (Some cl)
      with 1 have cl: "cl \<in> H" "OC cl = s_HubClusterUID sy" "N cl = keep_set (spoke_keep src ?T cid)"
        by (simp_all add: spoke_ready_def)
      show ?thesis
      proof (cases "target_lookup ?T cid")
        case None
        with cl have "N cl \<subseteq> keep_set None" by (simp add: spoke_keep_def)
        with Some None cl(1) show ?thesis
          by (auto intro!: prune ok_rules ok_bind [where P = "\<lambda>_. True"])
      next
        case (Some dests)
        let ?D = "destNamespaces src dests"
        have N: "N cl = set ?D"
          using cl(3) Some by (simp add: spoke_keep_def)
        have "ok ?I (for_range ?D (reconcileRemote_dest X sy src cid cl) (fmempty, False))
            (goes (\<lambda>p. \<not> snd p \<and> set ?D \<subseteq> keep_set (Some (fst p))))"
        proof (rule ok_for_range_prefix [where P = "\<lambda>ys p. \<not> snd p \<and> set ys \<subseteq> keep_set (Some (fst p))"], goal_cases)
          case (1 ys x zs a)
          then have "x \<in> N cl" by (simp add: N)
          from dest [OF cl(1,2) this, of a "set ys"] 1 show ?case by simp
        qed simp
        then show ?thesis
          unfolding \<open>c = Some cl\<close> Some option.case
          by (rule ok_bind)
            (use cl(1) N in \<open>auto split: flow.splits
              intro!: prune ok_rules ok_bind [where P = "\<lambda>_. True"]\<close>)
      qed
    qed
  qed
qed

lemma ready_reconcileRemote:
  assumes kind: "objKind src \<noteq> OtherKind" and wf: "wf_KeySet (s_Keys sy)"
  shows "ok (ready (s_Keys sy) src OC N (registered (spoke_ready sy src OC N)))
    (reconcileRemote X sy src) (rets (\<lambda>failed. \<not> failed))"
proof -
  let ?I = "ready (s_Keys sy) src OC N (registered (spoke_ready sy src OC N))"
  have warn: "ok ?I (warnUnknown src cid u) (goes (\<lambda>_. True))" for cid u
    unfolding warnUnknown_def
    by (rule ok_step_call [OF ready_ClientFor]) (auto intro!: ok_rules ok_bind [where P = "\<lambda>_. True"] split: option.splits)
  have walk: "ok ?I (for_range ids (reconcileRemote_cluster X sy src (source_targets (s_Keys sy) src)) False)
      (goes (\<lambda>failed. \<not> failed))" for ids
    by (rule ok_for_range) (use ready_reconcileRemote_cluster [OF assms] in simp_all)
  show ?thesis
    unfolding reconcileRemote_def Let_def source_targets_def [symmetric]
    apply (rule ok_bind [OF ready_range_over])
    apply (rule ok_bind [OF ok_for_range [where P = "\<lambda>_. True", OF warn]], simp)
    apply (simp add: goes_def split: flow.splits)
    apply (rule ok_call [OF ready_IDs])
    apply (rule ok_bind [OF walk])
    apply (auto simp: goes_def ok_rules split: flow.splits)
    done
qed

lemma ready_replicateRemote:
  assumes kind: "objKind src \<noteq> OtherKind" and wf: "wf_KeySet (s_Keys sy)"
    and s: "ready (s_Keys sy) src OC N (\<lambda>r. r = rg) s"
    and rg: "rg = None \<or> registered (spoke_ready sy src OC N) rg"
  shows "wp (replicateRemote X sy src) (\<lambda>r s'. r = Ret (zero_Result, None)) s"
proof (cases "registry s = None \<or> targetClustersValue (s_Keys sy) (Annotations src) = None")
  case True
  then show ?thesis by (auto simp: replicateRemote_def wp_rules)
next
  case False
  with s rg have "ready (s_Keys sy) src OC N (registered (spoke_ready sy src OC N)) s"
    by (auto simp: ready_def live_def)
  note ok = wp_mono [OF okD [OF ready_reconcileRemote [OF kind wf] this]]
  from False show ?thesis
    by (auto simp: replicateRemote_def wp_rules)
      (rule ok, auto simp: wp_rules rets_def split: outcome.splits)
qed

end


subsection \<open>The whole reconciliation\<close>

text \<open>
  What has to be accepted. \<open>hub_accepts\<close>: the update of the source's own finalizers, if the run
  makes one, and for every wanted namespace the copy that an upsert would write there.
  \<open>spokes_accept\<close>: every registered spoke is one that answers, is registered under one id only,
  and accepts the copies that the source wants there.
\<close>

definition hub_accepts ::
  "('c \<Rightarrow> object option \<Rightarrow> object \<Rightarrow> bool) \<Rightarrow> ('c, 'w) ext \<Rightarrow> ('c \<Rightarrow> 'w \<Rightarrow> okey \<Rightarrow> object option) \<Rightarrow>
     ('c \<Rightarrow> 'w \<Rightarrow> namespace list) \<Rightarrow> 'c Syncer \<Rightarrow> object \<Rightarrow> (('cfg, 'c, 'w) ClusterRegistry, 'w) st \<Rightarrow> bool" where
  "hub_accepts accepts X store nslist sy obj s \<longleftrightarrow>
     (let cl = s_Client sy; ks = s_Keys sy; U = finalizers X in
      if DeletionTimestamp obj \<noteq> None \<or> \<not> isSource ks obj
      then hasFinalizer U ks obj \<longrightarrow> accepts cl (Some obj) (removeAllFinalizers U ks obj)
      else if snd (reconcileFinalizer U ks obj)
      then accepts cl (Some obj) (fst (reconcileFinalizer U ks obj))
      else \<forall>ns\<in>wanted_local X nslist sy obj (world s).
        acceptable accepts ks obj ns [] cl (store cl (world s) (objKind obj, ns, Name obj)))"

definition spokes_accept ::
  "('c \<Rightarrow> object option \<Rightarrow> object \<Rightarrow> bool) \<Rightarrow> 'c set \<Rightarrow> ('c \<Rightarrow> 'w \<Rightarrow> okey \<Rightarrow> object option) \<Rightarrow>
     'c Syncer \<Rightarrow> object \<Rightarrow> (('cfg, 'c, 'w) ClusterRegistry, 'w) st \<Rightarrow> bool" where
  "spokes_accept accepts H store sy obj s \<longleftrightarrow>
     (\<forall>rg cid c. registry s = Some rg \<and> reg_lookup rg cid = Some c \<longrightarrow>
        c \<in> H \<and> only_as rg cid c \<and>
        (\<forall>ns\<in>keep_set (spoke_keep obj (source_targets (s_Keys sy) obj) cid).
           acceptable accepts (s_Keys sy) obj ns (s_HubClusterUID sy) c
             (store c (world s) (objKind obj, ns, Name obj))))"

context answering begin

lemma live_dropFinalizers:
  assumes "live up G s" and "s_Client sy \<in> H" and "store (s_Client sy) (world s) (okey obj) = Some obj"
    and "accepts (s_Client sy) (Some obj) (removeAllFinalizers (finalizers X) (s_Keys sy) obj)"
  shows "wp (dropFinalizers X sy obj) (\<lambda>r s'. r = Ret None) s"
  unfolding dropFinalizers_def wp_bind
  by (rule wp_mono [OF live_Update [OF assms(1,2), where old = obj]])
    (use assms in \<open>simp_all add: removeAllFinalizers_eq wp_rules IgnoreNotFound_def\<close>)

lemma live_cleanup:
  assumes wf: "wf_KeySet (s_Keys sy)" and kind: "objKind obj \<noteq> OtherKind"
    and s: "live up (\<lambda>_. True) s" and hub: "s_Client sy \<in> H"
    and self: "store (s_Client sy) (world s) (okey obj) = Some obj" "\<not> copy_of (s_Keys sy) obj obj"
    and spokes: "spokes_only sy s"
    and acc: "hasFinalizer (finalizers X) (s_Keys sy) obj \<Longrightarrow>
      accepts (s_Client sy) (Some obj) (removeAllFinalizers (finalizers X) (s_Keys sy) obj)"
  shows "wp (cleanupAndRemoveFinalizer X sy obj) (\<lambda>r s'. r = Ret None) s"
proof (cases "hasFinalizer (finalizers X) (s_Keys sy) obj")
  case False
  then show ?thesis by (simp add: cleanupAndRemoveFinalizer_def wp_rules)
next
  case True
  let ?cl = "s_Client sy" and ?L = "live up (\<lambda>_. True)"
  show ?thesis
    unfolding cleanupAndRemoveFinalizer_def if_not_P [of "\<not> hasFinalizer (finalizers X) (s_Keys sy) obj",
        unfolded not_not, OF True] wp_call
  proof (rule wp_mono [OF wp_conj [OF wp_deleteCopies [OF wf kind] okD [OF ok_deleteCopies [OF hub kind] s]]],
      goal_cases)
    case (1 r t)
    then obtain n where r: "r = Ret (n, None)" by (cases r) auto
    have post: "delete_post store (s_Keys sy) ?cl obj None [] s r t" and t: "?L t" using 1 by blast+
    define u where "u = t\<lparr>effects := effects t @
      (if n > 0 then [CounterAdd copyOperationsTotal [kindOf obj, ''deleted''] n] else [])\<rparr>"
    have u: "?L u" "store ?cl (world u) (okey obj) = Some obj" "registry u = registry s"
      using t delete_post_self [OF post self(2,1)] post by (simp_all add: u_def delete_post_def)
    have "wp (call (deleteRemoteCopies X sy obj) (\<lambda>err.
          case err of
            Some err \<Rightarrow> State_Monad.return (Ret (Some err))
          | None \<Rightarrow> dropFinalizers X sy obj)) (\<lambda>r s'. r = Ret None) u" if rg: "registry s = Some rg" for rg
      unfolding wp_call
    proof (rule wp_mono [OF wp_conj [OF wp_deleteRemoteCopies [OF wf kind u(3) [unfolded rg]]
            stayed.followsD [OF stays_deleteRemoteCopies]]], goal_cases)
      case (1 e v)
      then obtain failed where "remote_inv store sy obj None rg u (sorted_list_of_fset (reg_keys rg)) failed v"
        by (auto simp: remote_purged_def simp del: remote_inv_emit)
      then have "store ?cl (world v) = store ?cl (world u)"
        using spokes rg unfolding remote_inv_def ids_all by (simp add: spokes_only_def)
      moreover have "?L v" using 1 u(1) by (simp add: live_def stays_def)
      ultimately have "wp (dropFinalizers X sy obj) (\<lambda>r s'. r = Ret None) v"
        by (intro live_dropFinalizers [OF _ hub _ acc [OF True]]) (simp_all add: u(2))
      with 1 show ?case by simp
    qed
    moreover have "wp (dropFinalizers X sy obj) (\<lambda>r s'. r = Ret None) u"
      using u(1) hub u(2) acc [OF True] by (rule live_dropFinalizers)
    ultimately show ?case
      using u(3) by (auto simp: r wp_countDeleted wp_get wp_bind u_def)
  qed
qed


text \<open>
  The local phase and the walk over the spokes from a state in which the local copies, and for
  the second part those on the spokes too, are acceptable.
\<close>

lemma live_replicate:
  assumes hub: "s_Client sy \<in> H" and kind: "objKind obj \<noteq> OtherKind" and wf: "wf_KeySet (s_Keys sy)"
    and T: "fset (fmdom T) = keep_set (Some T)" and N: "N (s_Client sy) = keep_set (Some T)" and OC: "OC (s_Client sy) = []"
    and s: "ready (s_Keys sy) obj OC N (\<lambda>r. r = rg) s"
  shows "wp (call (replicateLocal X sy obj T) (\<lambda>err.
      case err of
        Some err \<Rightarrow> State_Monad.return (Ret (zero_Result, Some err))
      | None \<Rightarrow> replicateRemote X sy obj))
    (\<lambda>r s'. (\<exists>res. r = Ret (res, None)) \<and>
       (rg = None \<or> registered (spoke_ready sy obj OC N) rg \<longrightarrow> r = Ret (zero_Result, None))) s"
  unfolding wp_call
proof (rule wp_mono [OF okD [OF ready_replicateLocal [where N = N and OC = OC, OF hub kind wf T N OC] s]], goal_cases)
  case (1 r t)
  have res: "wp (replicateRemote X sy obj) (\<lambda>r s'. \<exists>res. r = Ret (res, None)) t"
    by (rule wp_mono [OF wp_replicateRemote [OF wf kind]]) blast
  have zero: "wp (replicateRemote X sy obj) (\<lambda>r s'. rg = None \<or> registered (spoke_ready sy obj OC N) rg \<longrightarrow>
      r = Ret (zero_Result, None)) t"
  proof (cases "rg = None \<or> registered (spoke_ready sy obj OC N) rg")
    case True
    show ?thesis
      by (rule wp_mono [OF ready_replicateRemote [OF kind wf _ True]]) (use 1 in simp_all)
  next
    case False
    then show ?thesis using res by (auto elim: wp_mono)
  qed
  from wp_conj [OF res zero] 1 show ?case by simp
qed

lemma ready_start:
  assumes up: "up (world s)" and wf: "wf_KeySet (s_Keys sy)" and w: "\<And>c. store c w' = store c (world s)" "up w'"
    and acc: "\<And>ns. ns \<in> keep_set keep \<Longrightarrow> acceptable accepts (s_Keys sy) obj ns [] (s_Client sy)
      (store (s_Client sy) (world s) (objKind obj, ns, Name obj))"
    and spokes: "spokes_only sy s"
  shows "\<exists>N OC. N (s_Client sy) = keep_set keep \<and> OC (s_Client sy) = [] \<and>
    ready (s_Keys sy) obj OC N (\<lambda>r. r = registry s) (s\<lparr>world := w'\<rparr>) \<and>
    (spokes_accept accepts H store sy obj s \<longrightarrow>
      registry s = None \<or> registered (spoke_ready sy obj OC N) (registry s))"
proof -
  let ?h = "s_Client sy" and ?T = "source_targets (s_Keys sy) obj"
  let ?OC = "\<lambda>c. if c = ?h then [] else s_HubClusterUID sy"
  let ?N = "\<lambda>c. if c = ?h then keep_set keep
    else if spokes_accept accepts H store sy obj s
    then {ns. \<exists>rg cid. registry s = Some rg \<and> reg_lookup rg cid = Some c \<and> ns \<in> keep_set (spoke_keep obj ?T cid)}
    else {}"
  show ?thesis
  proof (intro exI [of _ ?N] exI [of _ ?OC] conjI impI)
    show "ready (s_Keys sy) obj ?OC ?N (\<lambda>r. r = registry s) (s\<lparr>world := w'\<rparr>)"
      using acc w by (auto simp: ready_def live_def spokes_accept_def)
    assume ok: "spokes_accept accepts H store sy obj s"
    show "registry s = None \<or> registered (spoke_ready sy obj ?OC ?N) (registry s)"
    proof (cases "registry s")
      case (Some rg)
      have "spoke_ready sy obj ?OC ?N cid c" if c: "reg_lookup rg cid = Some c" for cid c
      proof -
        have "c \<noteq> ?h" using spokes Some c by (auto simp: spokes_only_def)
        moreover have only: "c \<in> H" "only_as rg cid c" using ok Some c by (auto simp: spokes_accept_def)
        have "?N c = keep_set (spoke_keep obj ?T cid)"
          using \<open>c \<noteq> ?h\<close> ok Some only(2) by (auto simp: only_as_def)
        ultimately show ?thesis using only(1) by (simp add: spoke_ready_def)
      qed
      then show ?thesis by (simp add: Some registered_def)
    qed simp
  qed simp_all
qed

lemma live_reconcileSource:
  assumes wf: "wf_KeySet (s_Keys sy)" and kind: "objKind obj \<noteq> OtherKind"
    and up: "up (world s)" and hub: "s_Client sy \<in> H"
    and self: "store (s_Client sy) (world s) (okey obj) = Some obj" "\<not> copy_of (s_Keys sy) obj obj"
    and spokes: "spokes_only sy s" and acc: "hub_accepts accepts X store nslist sy obj s"
  shows "wp (reconcileSource X sy obj)
    (\<lambda>r s'. \<exists>res. r = Ret (res, None) \<and>
       (spokes_accept accepts H store sy obj s \<longrightarrow> res = zero_Result)) s" (is "wp _ ?Q s")
proof -
  let ?ks = "s_Keys sy" and ?U = "finalizers X"
  have live: "live up (\<lambda>_. True) s" using up by (simp_all add: live_def)
  consider (clean) "DeletionTimestamp obj \<noteq> None \<or> \<not> isSource ?ks obj"
    | (fin) "DeletionTimestamp obj = None" "isSource ?ks obj" "snd (reconcileFinalizer ?U ?ks obj)"
    | (active) "DeletionTimestamp obj = None" "isSource ?ks obj" "\<not> snd (reconcileFinalizer ?U ?ks obj)"
    by blast
  then show ?thesis
  proof cases
    case clean
    with acc have "hasFinalizer ?U ?ks obj \<Longrightarrow> accepts (s_Client sy) (Some obj) (removeAllFinalizers ?U ?ks obj)"
      by (simp add: hub_accepts_def Let_def)
    from wp_mono [OF live_cleanup [OF wf kind live hub self spokes this]]
    have "wp (call (cleanupAndRemoveFinalizer X sy obj) (\<lambda>err. State_Monad.return (Ret (zero_Result, err)))) ?Q s"
      unfolding wp_call by (simp add: wp_rules)
    with clean show ?thesis by (auto simp: reconcileSource_def wp_rules)
  next
    case fin
    obtain obj' where obj': "reconcileFinalizer ?U ?ks obj = (obj', True)"
      using fin(3) by (metis (full_types) prod.collapse)
    then have new: "obj' = obj\<lparr>Finalizers := Finalizers obj'\<rparr>" by (auto simp: reconcileFinalizer_eq [OF wf])
    have "okey obj' = okey obj" "UID obj' = UID obj" "ResourceVersion obj' = ResourceVersion obj"
      by (subst new, simp)+
    moreover have "accepts (s_Client sy) (Some obj) obj'" using acc fin obj' by (simp add: hub_accepts_def Let_def)
    ultimately have "wp (Update X (s_Client sy) obj') (\<lambda>r s'. live up (\<lambda>_. True) s' \<and> r = Inr ()) s"
      by (intro live_Update [OF live hub]) (simp_all add: self)
    then have "wp (Update X (s_Client sy) obj')
         (\<lambda>a. wp (case a of
              Inl err \<Rightarrow> State_Monad.return (Ret (zero_Result, IgnoreNotFound (Some err)))
            | Inr x \<Rightarrow> State_Monad.return (Ret (zero_Result, None))) ?Q) s"
      by (rule wp_mono) (simp add: wp_rules)
    then show ?thesis using fin by (simp add: reconcileSource_def obj' wp_bind)
  next
    case active
    have same: "reconcileFinalizer ?U ?ks obj = (obj, False)" using wf active(3) by (rule reconcileFinalizer_same)
    show ?thesis
    proof (cases "labels_Parse X (selector_value ?ks obj)")
      case (Inl e)
      with active same show ?thesis by (simp add: reconcileSource_def wp_rules selector_value_def)
    next
      case (Inr sel)
      let ?T = "targetNamespaces (s_ExcludeNamespaces sy) obj sel (nslist (s_Client sy) (world s)) fmempty"
      have wanted: "wanted_local X nslist sy obj (world s) = keep_set (Some ?T)"
        using active Inr by (simp add: wanted_local_def targetNamespaces_keep)
      with acc active have local: "acceptable accepts ?ks obj ns [] (s_Client sy)
          (store (s_Client sy) (world s) (objKind obj, ns, Name obj))" if "ns \<in> keep_set (Some ?T)" for ns
        using that by (auto simp: hub_accepts_def Let_def)
      have listed: "wp (ListNamespaces X (s_Client sy) None)
          (\<lambda>r t. r = Inr (nslist (s_Client sy) (world s)) \<and> (\<exists>w'. t = s\<lparr>world := w'\<rparr> \<and> (\<forall>c. store c w' = store c (world s)) \<and> up w')) s"
      proof -
        obtain r w' where r: "client_list_namespaces X (s_Client sy) None (world s) = (r, w')" by (rule prod.exhaust)
        have "r = Inr (nslist (s_Client sy) (world s))"
          using namespaces_answer [OF up hub] list_namespaces_ok r by (cases r) auto
        moreover have "up w'" using up_namespaces [OF up, of "s_Client sy" None] r by simp
        moreover have "store c w' = store c (world s)" for c by (rule list_namespaces_store [OF r])
        ultimately show ?thesis using r by (auto simp: ListNamespaces_def wp_api)
      qed
      have rest: "wp (call (replicateLocal X sy obj ?T) (\<lambda>err.
          case err of
            Some err \<Rightarrow> State_Monad.return (Ret (zero_Result, Some err))
          | None \<Rightarrow> replicateRemote X sy obj)) ?Q (s\<lparr>world := w'\<rparr>)"
        if w': "\<And>c. store c w' = store c (world s)" "up w'" for w'
      proof -
        obtain N OC where N: "N (s_Client sy) = keep_set (Some ?T)" "OC (s_Client sy) = []"
          "ready ?ks obj OC N (\<lambda>r. r = registry s) (s\<lparr>world := w'\<rparr>)"
          "spokes_accept accepts H store sy obj s \<longrightarrow> registry s = None \<or> registered (spoke_ready sy obj OC N) (registry s)"
          using ready_start [OF up wf w' local spokes] by blast
        show ?thesis
          by (rule wp_mono [OF live_replicate [where N = N and OC = OC, OF hub kind wf targetNamespaces_dom N(1-3)]])
            (use N(4) in auto)
      qed
      show ?thesis
        unfolding reconcileSource_def selector_value_def [symmetric]
        using active(1,2)
        by (simp add: same Inr wp_bind Let_def) (rule wp_mono [OF listed], auto intro!: rest)
    qed
  qed
qed

end

end
