(* ===== verification/Liveness_Properties.thy ===== *)
theory Liveness_Properties
  imports Liveness
begin

text \<open>
  Success and stability of whole reconciliations: where the clusters answer, nothing fails and
  the clusters converge; and what has converged stays as it is.
\<close>

subsection \<open>Success\<close>

text \<open>
  The in-memory platform answers on every cluster that is not down, and accepts every write that
  is not in conflict.
\<close>

interpretation mem: answering "mem_ext ks" mem_store "\<lambda>c w. m_namespaces w c" H
  "\<lambda>w. set (m_down w) \<inter> H = {}" "\<lambda>_ _ _. True" for ks H
proof (rule answering.intro [OF mem.platform_axioms], unfold_locales)
qed (auto simp: mem_get_def mem_list_def mem_create_def mem_update_def mem_delete_def mem_list_namespaces_def
    mem_put_def IsNotFound_def IsAlreadyExists_def split: if_splits option.splits)

text \<open>
  What a reconciliation does when the hub answers and accepts what it writes, and the spokes as
  well or not.
\<close>

definition healthy_post ::
  "('c \<Rightarrow> object option \<Rightarrow> object \<Rightarrow> bool) \<Rightarrow> ('c, 'w) ext \<Rightarrow> ('c \<Rightarrow> 'w \<Rightarrow> okey \<Rightarrow> object option) \<Rightarrow> ('c \<Rightarrow> 'w \<Rightarrow> namespace list) \<Rightarrow> 'c set \<Rightarrow> 'c Syncer \<Rightarrow>
     object \<Rightarrow> (('cfg, 'c, 'w) ClusterRegistry, 'w) st \<Rightarrow> (Result \<times> error option) outcome \<Rightarrow>
     (('cfg, 'c, 'w) ClusterRegistry, 'w) st \<Rightarrow> bool" where
  "healthy_post accepts X store nslist H sy obj s r s' \<longleftrightarrow>
     (\<exists>res. r = Ret (res, None) \<and> (spokes_accept accepts H store sy obj s \<longrightarrow> res = zero_Result)) \<and>
     (\<forall>selector. DeletionTimestamp obj = None \<and> isSource (s_Keys sy) obj \<and>
        \<not> snd (reconcileFinalizer (finalizers X) (s_Keys sy) obj) \<and>
        labels_Parse X (selector_value (s_Keys sy) obj) = Inr selector \<longrightarrow>
        synced (s_Keys sy) obj [] (Some (targetNamespaces (s_ExcludeNamespaces sy) obj selector
            (nslist (s_Client sy) (world s)) fmempty))
          (store (s_Client sy) (world s)) (store (s_Client sy) (world s')) \<and>
        (spokes_accept accepts H store sy obj s \<longrightarrow> spokes_converged store sy obj s False s')) \<and>
     ((DeletionTimestamp obj \<noteq> None \<or> \<not> isSource (s_Keys sy) obj) \<and>
        hasFinalizer (finalizers X) (s_Keys sy) obj \<longrightarrow>
        (\<exists>v. store (s_Client sy) (world s') (okey obj) =
           persisted (removeAllFinalizers (finalizers X) (s_Keys sy) obj) v))"

lemma healthy_run:
  assumes "answering X store nslist H up accepts" and "wf_KeySet (s_Keys sy)" and "objKind obj \<noteq> OtherKind"
    and "up (world s)" and "s_Client sy \<in> H"
    and "store (s_Client sy) (world s) (okey obj) = Some obj" and "\<not> copy_of (s_Keys sy) obj obj"
    and "spokes_only sy s" and "hub_accepts accepts X store nslist sy obj s"
    and "run_state (reconcileSource X sy obj) s = (r, s')"
  shows "healthy_post accepts X store nslist H sy obj s r s'"
proof -
  note platform = answering.axioms(1) [OF assms(1)]
  let ?M = "store (s_Client sy) (world s)" and ?M' = "store (s_Client sy) (world s')"
  let ?T = "\<lambda>selector. Some (targetNamespaces (s_ExcludeNamespaces sy) obj selector (nslist (s_Client sy) (world s)) fmempty)"
  obtain res where r: "r = Ret (res, None)" and retry: "spokes_accept accepts H store sy obj s \<longrightarrow> res = zero_Result"
    using wp_runD [OF answering.live_reconcileSource [OF assms(1-9)] assms(10)] by blast
  have differ: "\<lparr>RequeueAfter = remoteRetryInterval\<rparr> \<noteq> zero_Result"
    by (simp add: zero_Result_def remoteRetryInterval_def)
  have active: "DeletionTimestamp obj = None \<and> isSource (s_Keys sy) obj \<and>
      \<not> snd (reconcileFinalizer (finalizers X) (s_Keys sy) obj) \<and>
      labels_Parse X (selector_value (s_Keys sy) obj) = Inr selector \<longrightarrow>
      synced (s_Keys sy) obj [] (?T selector) ?M ?M' \<and> (spokes_accept accepts H store sy obj s \<longrightarrow> spokes_converged store sy obj s False s')"
    for selector
  proof (intro impI, elim conjE)
    assume "DeletionTimestamp obj = None" "isSource (s_Keys sy) obj"
      "\<not> snd (reconcileFinalizer (finalizers X) (s_Keys sy) obj)"
      "labels_Parse X (selector_value (s_Keys sy) obj) = Inr selector"
    from wp_runD [OF platform.wp_reconcileSource_active [OF platform assms(2,3) this assms(6-8)] assms(10)]
    have "active_post store sy obj (?T selector) s r s'" by blast
    with retry differ
    show "synced (s_Keys sy) obj [] (?T selector) ?M ?M' \<and> (spokes_accept accepts H store sy obj s \<longrightarrow> spokes_converged store sy obj s False s')"
      by (auto simp: active_post_def r split: if_splits)
  qed
  have leaving: "(DeletionTimestamp obj \<noteq> None \<or> \<not> isSource (s_Keys sy) obj) \<and>
      hasFinalizer (finalizers X) (s_Keys sy) obj \<longrightarrow>
      (\<exists>v. ?M' (okey obj) = persisted (removeAllFinalizers (finalizers X) (s_Keys sy) obj) v)"
  proof (intro impI, elim conjE)
    assume "DeletionTimestamp obj \<noteq> None \<or> \<not> isSource (s_Keys sy) obj" "hasFinalizer (finalizers X) (s_Keys sy) obj"
    from wp_runD [OF platform.wp_reconcileSource_release [OF platform assms(2,3) this assms(6-8)] assms(10)]
    show "\<exists>v. ?M' (okey obj) = persisted (removeAllFinalizers (finalizers X) (s_Keys sy) obj) v"
      by (auto simp: r cleanup_post_def)
  qed
  have result: "\<exists>res. r = Ret (res, None) \<and> (spokes_accept accepts H store sy obj s \<longrightarrow> res = zero_Result)"
    by (rule exI [of _ res], rule conjI) (fact r retry)+
  show ?thesis
    unfolding healthy_post_def by (intro conjI allI) (rule result active leaving)+
qed

text \<open>
  C11: when the hub answers and accepts what the run writes there (the update of the source's
  finalizers, and for every wanted namespace the copy that the upsert specifies, if it differs
  from what is there), a reconciliation returns no error, whatever the spokes answer: an active
  source is then in sync with the local cluster, and a source that is being deleted or is no
  longer annotated is released. When every registered spoke answers, is registered under one id
  and accepts its copies too, it asks for no retry and every spoke has converged.
\<close>

theorem healthy_reconcile_succeeds:
  assumes "answering X store nslist H up accepts" and "wf_KeySet (s_Keys sy)" and "objKind obj \<noteq> OtherKind"
    and "up (world s)" and "s_Client sy \<in> H"
    and "store (s_Client sy) (world s) (okey obj) = Some obj" and "\<not> copy_of (s_Keys sy) obj obj"
    and "spokes_only sy s" and "hub_accepts accepts X store nslist sy obj s"
    and "run_state (reconcileSource X sy obj) s = (r, s')"
  shows "\<exists>res. r = Ret (res, None) \<and> (spokes_accept accepts H store sy obj s \<longrightarrow> res = zero_Result) \<and>
    (DeletionTimestamp obj = None \<and> isSource (s_Keys sy) obj \<and>
       \<not> snd (reconcileFinalizer (finalizers X) (s_Keys sy) obj) \<and>
       labels_Parse X (selector_value (s_Keys sy) obj) = Inr selector \<longrightarrow>
       synced (s_Keys sy) obj [] (Some (targetNamespaces (s_ExcludeNamespaces sy) obj selector
           (nslist (s_Client sy) (world s)) fmempty))
         (store (s_Client sy) (world s)) (store (s_Client sy) (world s')) \<and>
       (spokes_accept accepts H store sy obj s \<longrightarrow> spokes_converged store sy obj s False s')) \<and>
    ((DeletionTimestamp obj \<noteq> None \<or> \<not> isSource (s_Keys sy) obj) \<and>
       hasFinalizer (finalizers X) (s_Keys sy) obj \<longrightarrow>
       (\<exists>v. store (s_Client sy) (world s') (okey obj) =
          persisted (removeAllFinalizers (finalizers X) (s_Keys sy) obj) v))"
  using healthy_run [OF assms] unfolding healthy_post_def by metis

text \<open>The small world with every cluster up.\<close>

definition demo_healthy :: "((nat, nat, mem) ClusterRegistry, mem) st" where
  "demo_healthy = demo_state\<lparr>world := demo_world\<lparr>m_down := []\<rparr>\<rparr>"

lemma demo_healthy_facts:
  "world demo_healthy = demo_world\<lparr>m_down := []\<rparr>" "registry demo_healthy = Some demo_registry"
  "mem_store c (demo_world\<lparr>m_down := []\<rparr>) = mem_store c demo_world"
  by (auto simp: demo_healthy_def mem_store_def)

lemma acceptable_all [simp]: "acceptable (\<lambda>_ _ _. True) ks src ns oc c old"
  by (simp add: acceptable_def split: option.splits)

lemma hub_accepts_all [simp]: "hub_accepts (\<lambda>_ _ _. True) X store nslist sy obj s"
  by (simp add: hub_accepts_def Let_def)

lemma demo_healthy_spokes:
  "spokes_only demo_syncer demo_healthy"
  "spokes_accept (\<lambda>_ _ _. True) {0, 1, 2} mem_store demo_syncer demo_source demo_healthy"
  using demo_spokes
  by (auto simp: spokes_only_def spokes_accept_def demo_healthy_facts demo_registry_def reg.lookup_put only_as_def)
    (auto simp: reg_lookup_def NewClusterRegistry_def split: if_splits)

lemma demo_active:
  "DeletionTimestamp demo_source = None" "isSource demo_keys demo_source"
  "\<not> snd (reconcileFinalizer list_finalizers demo_keys demo_source)"
  "mem_parse (selector_value demo_keys demo_source) = Inr (\<lambda>_. True)"
proof -
  have "selector_value demo_keys demo_source = []" by code_simp
  then show "mem_parse (selector_value demo_keys demo_source) = Inr (\<lambda>_. True)" by (simp add: mem_parse_def)
qed code_simp+

theorem healthy_reconcile_succeeds_witness:
  "let r = run_state (reconcileSource demo_X demo_syncer demo_source) demo_healthy in
     fst r = Ret (zero_Result, None) \<and>
     spokes_converged mem_store demo_syncer demo_source demo_healthy False (snd r)"
proof -
  let ?r = "run_state (reconcileSource demo_X demo_syncer demo_source) demo_healthy"
  have run: "?r = (fst ?r, snd ?r)" by simp
  have up: "set (m_down (world demo_healthy)) \<inter> {0, 1, 2} = {}" by (simp add: demo_healthy_facts)
  have self: "mem_store (s_Client demo_syncer) (world demo_healthy) (okey demo_source) = Some demo_source"
    by (simp add: demo_healthy_facts demo_stored)
  show ?thesis
    using healthy_reconcile_succeeds [where selector = "\<lambda>_. True",
        OF mem.answering_axioms _ _ up _ self _ demo_healthy_spokes(1) _ run]
      demo_not_own_copy demo_healthy_spokes(2) demo_active
    by (auto simp: Let_def demo_healthy_facts)
qed

subsection \<open>Stability\<close>

text \<open>
  \<open>tidy\<close>: the copies of a source on a cluster are named like it and no finalizer holds one, as
  is the case when only the controllers create them.
\<close>

definition tidy :: "KeySet \<Rightarrow> object \<Rightarrow> (okey \<Rightarrow> object option) \<Rightarrow> bool" where
  "tidy ks src M \<longleftrightarrow>
     (\<forall>k old. M k = Some old \<and> copy_of ks src old \<longrightarrow> Name old = Name src \<and> Finalizers old = [])"

lemma tidy_pruned:
  assumes sync: "synced ks src oc keep M M'" and tidy: "tidy ks src M"
    and keys: "\<And>k obj. M k = Some obj \<Longrightarrow> okey obj = k"
    and at: "M' k = Some obj" "k \<notin> copy_keys src (keep_set keep)"
  shows "\<not> prunable ks src keep oc obj"
proof
  assume P: "prunable ks src keep oc obj"
  note out = sync [unfolded synced_def, THEN conjunct2, rule_format, OF at(2)]
  show False
  proof (cases "M k")
    case None
    with out at(1) show False by simp
  next
    case (Some old)
    show False
    proof (cases "prunable ks src keep oc old")
      case False
      with out Some at(1) P show False by simp
    next
      case True
      then have copy: "copy_of ks src old" by (simp add: prunable_def)
      then have fin: "Finalizers old = []" "Name old = Name src" using tidy Some by (auto simp: tidy_def)
      then have "\<not> deleted_slot old (M' k)" using at(1) by (simp add: deleted_slot_def)
      then obtain k' old' where k': "k' \<noteq> k" "M k' = Some old'" "copy_of ks src old'" "Namespace old' = Namespace old"
        using out Some True by auto
      then have "Name old' = Name src" using tidy by (auto simp: tidy_def)
      then have "okey old' = okey old" using copy k'(3,4) fin(2) by (simp add: okey_def copy_of_def)
      with keys [OF Some] keys [OF k'(2)] k'(1) show False by simp
    qed
  qed
qed

text \<open>A tidy cluster that is in sync with a source is left alone by the next run without errors.\<close>

lemma synced_settles:
  assumes wf: "wf_KeySet ks" and one: "synced ks src oc keep M M'" and two: "synced ks src oc keep M' M''"
    and tidy: "tidy ks src M" and keys: "\<And>k obj. M k = Some obj \<Longrightarrow> okey obj = k"
  shows "M'' = M'"
proof
  fix k
  show "M'' k = M' k"
  proof (cases "k \<in> copy_keys src (keep_set keep)")
    case True
    then obtain ns where ns: "ns \<in> keep_set keep" and k: "k = (objKind src, ns, Name src)"
      by (auto simp: copy_keys_def)
    have kind: "objKind obj = objKind src" if "M k = Some obj" for obj
      using keys [OF that] by (simp add: k okey_def)
    have "slot_result (M k) (fst (spec_upsert ks src ns oc (M k))) (M' k)"
      using one ns by (auto simp: synced_def k Let_def)
    then have "spec_upsert ks src ns oc (M' k) = (M' k, actionNone)"
      using kind by (intro spec_upsert_settled [OF wf])
    moreover have "slot_result (M' k) (fst (spec_upsert ks src ns oc (M' k))) (M'' k)"
      using two ns by (auto simp: synced_def k Let_def)
    ultimately show ?thesis by (simp add: slot_result_def)
  next
    case False
    note out = two [unfolded synced_def, THEN conjunct2, rule_format, OF False]
    show ?thesis
      using out tidy_pruned [OF one tidy keys _ False] by (cases "M' k") auto
  qed
qed

text \<open>
  C13: reconciliation reaches a fixpoint: when an active source has been reconciled without error
  or retry, with its copies tidy and no spoke registered under two ids, a second reconciliation
  that also succeeds leaves every object of every cluster as it is, as long as the namespaces are
  the same.
\<close>

theorem reconcile_reaches_fixpoint:
  assumes "platform X store nslist" and "wf_KeySet (s_Keys sy)" and "objKind obj \<noteq> OtherKind"
    and "DeletionTimestamp obj = None" and "isSource (s_Keys sy) obj"
    and "\<not> snd (reconcileFinalizer (finalizers X) (s_Keys sy) obj)"
    and "labels_Parse X (selector_value (s_Keys sy) obj) = Inr selector"
    and "store (s_Client sy) (world s) (okey obj) = Some obj" and "\<not> copy_of (s_Keys sy) obj obj"
    and "spokes_only sy s"
    and "\<And>c. tidy (s_Keys sy) obj (store c (world s))"
    and "\<And>rg cid cid' c. registry s = Some rg \<Longrightarrow> reg_lookup rg cid = Some c \<Longrightarrow>
      reg_lookup rg cid' = Some c \<Longrightarrow> cid' = cid"
    and "run_state (reconcileSource X sy obj) s = (Ret (zero_Result, None), s1)"
    and "nslist (s_Client sy) (world s1) = nslist (s_Client sy) (world s)"
    and "run_state (reconcileSource X sy obj) s1 = (Ret (zero_Result, None), s2)"
  shows "store c (world s2) = store c (world s1)"
proof -
  let ?cl = "s_Client sy" and ?ks = "s_Keys sy" and ?U = "s_HubClusterUID sy"
  let ?N = "wanted_local X nslist sy obj (world s)"
  define keep where "keep = Some (targetNamespaces (s_ExcludeNamespaces sy) obj selector (nslist ?cl (world s)) fmempty)"
  have differ: "zero_Result \<noteq> \<lparr>RequeueAfter = remoteRetryInterval\<rparr>"
    by (simp add: zero_Result_def remoteRetryInterval_def)
  have keys: "okey x = k" if "store d w k = Some x" for d w k x
    using platform.axioms(1) [OF assms(1)] that by (rule api_server.stored_key)
  note active = platform.wp_reconcileSource_active [OF assms(1-7) _ assms(9)]
  have one: "source_frame store sy obj ?N s s1" "active_post store sy obj keep s (Ret (zero_Result, None)) s1"
    using wp_runD [OF active [OF assms(8,10)] assms(13)] unfolding keep_def by blast+
  have sync: "synced ?ks obj [] keep (store ?cl (world s)) (store ?cl (world s1))"
    and spokes: "spokes_converged store sy obj s False s1"
    using one(2) differ by (auto simp: active_post_def split: if_splits)
  have "okey obj \<notin> copy_keys obj (keep_set keep)"
    by (simp add: keep_def targetNamespaces_keep wanted_namespace_def okey_def)
  note own = sync [unfolded synced_def, THEN conjunct2, rule_format, OF this]
  have self: "store ?cl (world s1) (okey obj) = Some obj"
    using own assms(8,9) by (simp add: prunable_def)
  have reg: "registry s1 = registry s" using one(1) by (simp add: source_frame_def)
  then have "spokes_only sy s1" using assms(10) by (simp add: spokes_only_def)
  note two = wp_runD [OF active [OF self this] assms(15)]
  have frame2: "spoke_frame store sy obj (source_targets ?ks obj) s1 s2"
    and "active_post store sy obj keep s1 (Ret (zero_Result, None)) s2"
    using two unfolding keep_def assms(14) source_frame_def by blast+
  then have sync2: "synced ?ks obj [] keep (store ?cl (world s1)) (store ?cl (world s2))"
    and spokes2: "spokes_converged store sy obj s1 False s2"
    using differ by (auto simp: active_post_def split: if_splits)
  note settles = synced_settles [OF assms(2) _ _ assms(11) keys]
  show ?thesis
  proof (cases "c = ?cl")
    case True
    then show ?thesis using settles [OF sync sync2] by simp
  next
    case spoke: False
    show ?thesis
    proof (cases "\<exists>rg cid. registry s = Some rg \<and> reg_lookup rg cid = Some c \<and>
        targetClustersValue ?ks (Annotations obj) \<noteq> None")
      case True
      then obtain rg cid where rg: "registry s = Some rg" and cid: "reg_lookup rg cid = Some c"
        and targeted: "targetClustersValue ?ks (Annotations obj) \<noteq> None" by blast
      have only: "only_as rg cid c" unfolding only_as_def using assms(12) [OF rg cid] cid by blast
      let ?keep = "spoke_keep obj (source_targets ?ks obj) cid"
      have "synced ?ks obj ?U ?keep (store c (world s)) (store c (world s1))"
        using spokes rg targeted only by (simp add: spokes_converged_def)
      moreover have "synced ?ks obj ?U ?keep (store c (world s1)) (store c (world s2))"
        using spokes2 rg reg targeted only by (simp add: spokes_converged_def)
      ultimately show ?thesis by (rule settles)
    next
      case False
      with spoke frame2 spokes2 reg show ?thesis
        by (cases "registry s"; cases "targetClustersValue ?ks (Annotations obj)")
          (auto simp: spokes_converged_def spoke_frame_def)
    qed
  qed
qed

lemma demo_tidy: "tidy demo_keys demo_source (mem_store c demo_world)"
  unfolding tidy_def
proof (intro allI impI, elim conjE)
  fix k old assume "mem_store c demo_world k = Some old" and copy: "copy_of demo_keys demo_source old"
  then have "old \<in> set (m_objects demo_world c)" by (simp add: mem_store_in)
  then have "old \<in> {demo_foreign, demo_stale}"
    using copy demo_not_own_copy by (auto simp: demo_world_def split: if_splits)
  then show "Name old = Name demo_source \<and> Finalizers old = []"
    by (auto simp: demo_foreign_def demo_stale_def demo_source_def demo_object_def zero_object_def)
qed

theorem reconcile_reaches_fixpoint_witness:
  "let run = run_state (reconcileSource demo_X demo_syncer demo_source); s1 = snd (run demo_healthy) in
     mem_store 1 (world s1) (ConfigMapKind, ''x'', ''cm'') \<noteq> None \<and>
     mem_store 0 (world (snd (run s1))) = mem_store 0 (world s1) \<and>
     mem_store 1 (world (snd (run s1))) = mem_store 1 (world s1)"
proof -
  let ?m = "reconcileSource demo_X demo_syncer demo_source"
  let ?s1 = "snd (run_state ?m demo_healthy)"
  have one: "fst (run_state ?m demo_healthy) = Ret (zero_Result, None)" by code_simp
  then have run1: "run_state ?m demo_healthy = (Ret (zero_Result, None), ?s1)" by (metis prod.collapse)
  have two: "fst (run_state ?m ?s1) = Ret (zero_Result, None)" by code_simp
  then have run2: "run_state ?m ?s1 = (Ret (zero_Result, None), snd (run_state ?m ?s1))" by (metis prod.collapse)
  have ns: "m_namespaces (world ?s1) (s_Client demo_syncer) = m_namespaces (world demo_healthy) (s_Client demo_syncer)"
    by code_simp
  have self: "mem_store (s_Client demo_syncer) (world demo_healthy) (okey demo_source) = Some demo_source"
    by (simp add: demo_healthy_facts demo_stored)
  have once: "cid' = cid"
    if "registry demo_healthy = Some rg" "reg_lookup rg cid = Some c" "reg_lookup rg cid' = Some c" for rg cid cid' c
    using that
    by (auto simp: demo_healthy_facts demo_registry_def reg.lookup_put split: if_splits)
      (auto simp: reg_lookup_def NewClusterRegistry_def)
  have tidy: "tidy (s_Keys demo_syncer) demo_source (mem_store c (world demo_healthy))" for c
    by (simp add: demo_healthy_facts demo_tidy)
  have "mem_store 1 (world ?s1) (ConfigMapKind, ''x'', ''cm'') \<noteq> None" by code_simp
  moreover have "mem_store c (world (snd (run_state ?m ?s1))) = mem_store c (world ?s1)" for c
    by (rule reconcile_reaches_fixpoint [where selector = "\<lambda>_. True",
          OF mem.platform_axioms _ _ _ _ _ _ self _ demo_healthy_spokes(1) tidy once run1 ns run2])
      (simp_all add: demo_active demo_not_own_copy)
  ultimately show ?thesis by (simp add: Let_def)
qed

end
