(* ===== verification/Coexistence.thy ===== *)
theory Coexistence
  imports Liveness_Properties
begin

text \<open>
  Several sources at work on the same clusters: a copy that one source has written is not touched
  by the reconciliation of any other, in whatever order they run; two sources that want the same
  slot do not fight over it.
\<close>

text \<open>The controllers reconcile one source after the other.\<close>

fun reconcile_all ::
  "('c, 'w) ext \<Rightarrow> 'c Syncer \<Rightarrow> object list \<Rightarrow> ('cfg, 'c, 'w, (Result \<times> error option) outcome list) rgo" where
  "reconcile_all X sy [] = State_Monad.return []"
| "reconcile_all X sy (obj # objs) = do {
     r \<leftarrow> reconcileSource X sy obj;
     rs \<leftarrow> reconcile_all X sy objs;
     State_Monad.return (r # rs)
   }"

text \<open>A copy stamped for one source may not be touched by another.\<close>

lemma stamped_untouchable:
  assumes wf: "wf_KeySet ks" and labels: "Labels x = copyLabels ks a oc" and kind: "objKind x = objKind a"
    and other: "okey b \<noteq> okey a" "\<not> copy_of ks b a"
  shows "\<not> touchable ks b oc' x"
proof
  assume touch: "touchable ks b oc' x"
  then have "objKind b = objKind a" using kind by (simp add: touchable_def)
  with other(1) have differ: "\<not> (Namespace b = Namespace a \<and> Name b = Name a)" by (auto simp: okey_def)
  note at = copyLabels_lookup [OF wf, of a oc]
  have keys: "keysFor ks x = Some (Primary ks)"
    by (rule keysFor_primary) (simp add: managed_under_def labels at)
  have "\<not> ownsCopy ks x b oc'"
    using differ by (auto simp: ownsCopy_def keys Keys_ownsCopy_def Let_def labels at map_index_def)
  moreover have "isManagedCopy ks x" by (simp add: isManagedCopy_def keys)
  ultimately have "copy_of ks b x" using touch by (simp add: touchable_def)
  then obtain k where k: "k \<in> set (each ks)" "stamped_for k b x"
    by (auto simp: copy_of_def list_ex_iff simp del: each_simps)
  show False
  proof (cases "k = Primary ks")
    case True
    with k(2) differ show False by (simp add: stamped_for_def labels at)
  next
    case False
    have wfk: "wf_Keys k" "wf_Keys (Primary ks)" using wf_KeySetD [OF wf] k(1) by blast+
    note names = wf_labels_inject [OF wfk] wf_labels_distinct [OF wfk] wf_labels_distinct [OF wfk(2,1)]
    have same: "fmlookup (Labels x) (ManagedByLabel k) = fmlookup (Labels a) (ManagedByLabel k)"
      "fmlookup (Labels x) (OriginNSLabel k) = fmlookup (Labels a) (OriginNSLabel k)"
      "fmlookup (Labels x) (OriginNameLabel k) = fmlookup (Labels a) (OriginNameLabel k)"
      unfolding labels using False names by (intro copyLabels_other; simp)+
    have "stamped_for k b a"
      using k(2) same by (simp add: stamped_for_def managed_under_def)
    with k(1) other(2) \<open>objKind b = objKind a\<close> show False
      by (auto simp: copy_of_def list_ex_iff simp del: each_simps)
  qed
qed

context platform begin

lemma wp_reconcile_all_spares:
  assumes wf: "wf_KeySet (s_Keys sy)" and "spokes_only sy s"
    and x: "store c (world s) k = Some x" "Labels x = copyLabels (s_Keys sy) a oc" "objKind x = objKind a"
    and "list_all (\<lambda>b. objKind b \<noteq> OtherKind \<and> okey b \<noteq> okey a \<and> \<not> copy_of (s_Keys sy) b a \<and>
      (c, k) \<noteq> (s_Client sy, okey b)) others"
  shows "wp (reconcile_all X sy others) (\<lambda>_ s'. store c (world s') k = Some x) s"
  using assms(2,6) x(1)
proof (induction others arbitrary: s)
  case Nil
  then show ?case by (simp add: wp_rules)
next
  case (Cons b others)
  then have b: "objKind b \<noteq> OtherKind" "okey b \<noteq> okey a" "\<not> copy_of (s_Keys sy) b a" "(c, k) \<noteq> (s_Client sy, okey b)"
    by simp_all
  show ?case
    unfolding reconcile_all.simps wp_bind
  proof (rule wp_mono [OF wp_reconcileSource_others [OF wf b(1) Cons.prems(1)]], goal_cases)
    case (1 r t)
    then have frame: "others_frame store sy b (wanted_local X nslist sy b (world s)) s t" by blast
    have "store c (world t) k = Some x"
      by (rule others_frame_safe [OF frame Cons.prems(3) b(4) stamped_untouchable [OF wf x(2,3) b(2,3)]])
    moreover have "spokes_only sy t"
      using frame Cons.prems(1) by (simp add: others_frame_def spokes_only_def)
    ultimately have "wp (reconcile_all X sy others) (\<lambda>_ s'. store c (world s') k = Some x) t"
      using Cons.IH [of t] Cons.prems(2) by simp
    then show ?case by (rule wp_mono) (simp add: wp_return)
  qed
qed

end

text \<open>
  C15: sources do not fight: a copy that a source has written, on any cluster, is exactly the same
  object after any sequence of reconciliations of other sources, whatever fails in them, even
  when one of them wants the same slot (as long as the source is not itself labeled as a copy of
  one of them).
\<close>

theorem copies_survive_other_sources:
  assumes "platform X store nslist" and "wf_KeySet (s_Keys sy)" and "spokes_only sy s"
    and "store c (world s) k = Some x" and "Labels x = copyLabels (s_Keys sy) src oc" and "objKind x = objKind src"
    and "list_all (\<lambda>b. objKind b \<noteq> OtherKind \<and> okey b \<noteq> okey src \<and> \<not> copy_of (s_Keys sy) b src \<and>
      (c, k) \<noteq> (s_Client sy, okey b)) others"
    and "run_state (reconcile_all X sy others) s = (rs, s')"
  shows "store c (world s') k = Some x"
  by (rule wp_runD [OF platform.wp_reconcile_all_spares [OF assms(1,2,3,4,5,6,7)] assms(8)])

text \<open>A second source of the same name in another namespace, which wants the slots of the first.\<close>

definition demo_rival :: object where
  "demo_rival = demo_source\<lparr>Namespace := ''f''\<rparr>"

definition demo_after :: "((nat, nat, mem) ClusterRegistry, mem) st" where
  "demo_after = snd (run_state (reconcileSource demo_X demo_syncer demo_source) demo_healthy)"

theorem copies_survive_other_sources_witness:
  "\<exists>x. mem_store 0 (world demo_after) (ConfigMapKind, ''e'', ''cm'') = Some x \<and>
     mem_store 0 (world (snd (run_state (reconcile_all demo_X demo_syncer [demo_rival, demo_rival]) demo_after)))
       (ConfigMapKind, ''e'', ''cm'') = Some x"
proof -
  let ?k = "(ConfigMapKind, ''e'', ''cm'')"
  let ?r = "run_state (reconcile_all demo_X demo_syncer [demo_rival, demo_rival]) demo_after"
  have run: "?r = (fst ?r, snd ?r)" by simp
  obtain x where x: "mem_store 0 (world demo_after) ?k = Some x"
  proof -
    have "mem_store 0 (world demo_after) ?k \<noteq> None" by code_simp
    then show thesis using that by blast
  qed
  have "map_option Labels (mem_store 0 (world demo_after) ?k) = Some (copyLabels demo_keys demo_source [])" by code_simp
  with x have labels: "Labels x = copyLabels (s_Keys demo_syncer) demo_source []" by simp
  have "okey x = ?k" using x mem_store_key by blast
  then have kind: "objKind x = objKind demo_source" by (simp add: okey_def)
  have "run_state (reconcileSource demo_X demo_syncer demo_source) demo_healthy =
      (fst (run_state (reconcileSource demo_X demo_syncer demo_source) demo_healthy), demo_after)"
    by (simp add: demo_after_def)
  from wp_runD [OF mem.wp_reconcileSource_others [OF _ _ demo_healthy_spokes(1)] this]
  have "registry demo_after = registry demo_healthy" by (simp add: others_frame_def)
  then have spokes: "spokes_only demo_syncer demo_after"
    using demo_healthy_spokes(1) by (simp add: spokes_only_def)
  have rival: "list_all (\<lambda>b. objKind b \<noteq> OtherKind \<and> okey b \<noteq> okey demo_source \<and>
      \<not> copy_of (s_Keys demo_syncer) b demo_source \<and> (0, ?k) \<noteq> (s_Client demo_syncer, okey b)) [demo_rival, demo_rival]"
    by code_simp
  have "mem_store 0 (world (snd ?r)) ?k = Some x"
    by (rule copies_survive_other_sources [OF mem.platform_axioms _ spokes x labels kind rival run]) simp
  with x show ?thesis by blast
qed

end
