(* ===== verification/Interference.thy ===== *)
theory Interference
  imports Effect_Log Source_Lifecycle
begin

text \<open>
  Other writers. In \<open>api_server\<close> the program's own calls are the only changes of a cluster; here
  anything may happen between two calls, and a read may be stale. What is left of the API server
  is \<open>shared_server\<close>: a read returns a state the server has served, and an update takes effect
  only on the very state it was computed from (optimistic concurrency on the resource version).
  What is proved is the guarantee the program gives the other writers: the writes it makes,
  each recorded with what it replaced at that moment, are all \<open>allowed\<close>. For creations and
  replacements this is a condition on what stood there when they took effect; for deletions only
  on what had been seen under the key, for the code deletes without a precondition.
\<close>

subsection \<open>Writes\<close>

datatype 'c mutation = Created 'c object | Replaced 'c object object | Removed 'c object

text \<open>
  \<open>stamp_for\<close>: the cluster identity that a copy on a cluster is stamped with. A write may create
  a stamped copy; replace the source by itself with other finalizers, or by its refreshed form an
  object that was, at that moment, an owned copy or adoptable; remove whatever stands under a key
  where a copy of the source that this hub may delete has been served at some time (\<open>Sv\<close>): a
  removal names only the key, so the object it hits need not be a copy any more.
\<close>

definition stamp_for :: "'c Syncer \<Rightarrow> 'c \<Rightarrow> string \<Rightarrow> bool" where
  "stamp_for sy c oc \<longleftrightarrow> oc = s_HubClusterUID sy \<or> oc = [] \<and> c = s_Client sy"

fun allowed :: "('c \<Rightarrow> object \<Rightarrow> bool) \<Rightarrow> 'c Syncer \<Rightarrow> object \<Rightarrow> 'c mutation \<Rightarrow> bool" where
  "allowed Sv sy src (Created c new) \<longleftrightarrow>
     (\<exists>oc ns u v. stamp_for sy c oc \<and>
        new = (fresh_copy (s_Keys sy) src ns oc)\<lparr>UID := u, ResourceVersion := v\<rparr>)"
| "allowed Sv sy src (Replaced c old new) \<longleftrightarrow>
     c = s_Client sy \<and> old = src \<and> (\<exists>f v. new = src\<lparr>Finalizers := f, ResourceVersion := v\<rparr>) \<or>
     (\<exists>oc v. stamp_for sy c oc \<and> Name old = Name src \<and>
        slot_class (s_Keys sy) src oc (Some old) \<in> {Owned, Adoptable} \<and>
        new = (refreshed (s_Keys sy) src oc old)\<lparr>ResourceVersion := v\<rparr>)"
| "allowed Sv sy src (Removed c old) \<longleftrightarrow>
     (\<exists>oc seen. stamp_for sy c oc \<and> Sv c seen \<and> okey seen = okey old \<and>
        copy_of (s_Keys sy) src seen \<and> hub_may (s_Keys sy) oc seen)"

lemma allowed_mono:
  "allowed Sv sy src m \<Longrightarrow> (\<And>c x. Sv c x \<Longrightarrow> Sv' c x) \<Longrightarrow> allowed Sv' sy src m"
  by (cases m) (simp_all, blast)

subsection \<open>A server shared with other writers\<close>

text \<open>
  \<open>good\<close> is what the server keeps of its own bookkeeping; \<open>served w c x\<close>: cluster \<open>c\<close> has held
  the object in the state \<open>x\<close>; \<open>writes\<close> is the history of the program's writes that took effect.
  A call that fails may still have taken effect.
\<close>

definition advances ::
  "('w \<Rightarrow> bool) \<Rightarrow> ('w \<Rightarrow> 'c \<Rightarrow> object \<Rightarrow> bool) \<Rightarrow> ('w \<Rightarrow> 'c mutation list) \<Rightarrow> 'w \<Rightarrow> 'c mutation list \<Rightarrow>
     'w \<Rightarrow> bool" where
  "advances good served writes w new w' \<longleftrightarrow>
     good w' \<and> (\<forall>c x. served w c x \<longrightarrow> served w' c x) \<and> writes w' = writes w @ new"

locale shared_server = finalizer_laws "finalizers X"
  for X :: "('c, 'w) ext" +
  fixes good :: "'w \<Rightarrow> bool"
    and served :: "'w \<Rightarrow> 'c \<Rightarrow> object \<Rightarrow> bool"
    and writes :: "'w \<Rightarrow> 'c mutation list"
  assumes get_reads: "good w \<Longrightarrow> client_get X c kd ns n w = (rg, w') \<Longrightarrow>
      advances good served writes w [] w' \<and> (\<forall>x. rg = Inr x \<longrightarrow> served w' c x \<and> okey x = (kd, ns, n))"
    and list_reads: "good w \<Longrightarrow> client_list X c kd (MatchingLabels m) w = (rl, w') \<Longrightarrow>
      advances good served writes w [] w' \<and>
      (\<forall>l. rl = Inr l \<longrightarrow> (\<forall>x\<in>set (listItems l). served w' c x \<and> objKind x = kd \<and> selects m x))"
    and namespaces_reads: "good w \<Longrightarrow> client_list_namespaces X c lim w = (rn, w') \<Longrightarrow>
      advances good served writes w [] w'"
    and create_writes: "good w \<Longrightarrow> client_create X c obj w = (rw, w') \<Longrightarrow> DeletionTimestamp obj = None \<Longrightarrow>
      advances good served writes w [] w' \<or>
      (\<exists>u v. advances good served writes w [Created c (obj\<lparr>UID := u, ResourceVersion := v\<rparr>)] w')"
    and update_writes: "good w \<Longrightarrow> client_update X c obj w = (rw, w') \<Longrightarrow> served w c old \<Longrightarrow>
      okey old = okey obj \<Longrightarrow> ResourceVersion old = ResourceVersion obj \<Longrightarrow>
      UID old = UID obj \<Longrightarrow> DeletionTimestamp old = DeletionTimestamp obj \<Longrightarrow>
      advances good served writes w [] w' \<or>
      (\<exists>v. advances good served writes w [Replaced c old (obj\<lparr>ResourceVersion := v\<rparr>)] w')"
    and delete_writes: "good w \<Longrightarrow> client_delete X c obj w = (rw, w') \<Longrightarrow>
      advances good served writes w [] w' \<or>
      (\<exists>old. okey old = okey obj \<and> advances good served writes w [Removed c old] w')"
begin

text \<open>
  The guarantee, from a state in which the objects \<open>K\<close> have been served; what has been served
  stays so whatever the others do.
\<close>

definition guar ::
  "'c Syncer \<Rightarrow> object \<Rightarrow> ('c \<times> object) set \<Rightarrow> ('r, 'w) st \<Rightarrow> ('r, 'w) st \<Rightarrow> bool" where
  "guar sy src K s s' \<longleftrightarrow>
     (good (world s) \<and> (\<forall>(c, x)\<in>K. served (world s) c x) \<longrightarrow>
       (\<exists>new. advances good served writes (world s) new (world s') \<and>
          list_all (allowed (served (world s')) sy src) new))"

lemma guar_step:
  assumes "good (world s) \<Longrightarrow> (\<forall>(c, x)\<in>K. served (world s) c x) \<Longrightarrow>
      \<exists>new. advances good served writes (world s) new (world t) \<and>
        list_all (allowed (served (world t)) sy src) new \<and> (\<forall>(c, x)\<in>K'. served (world t) c x)"
    and "guar sy src K' t u"
  shows "guar sy src K s u"
  unfolding guar_def
proof (intro impI, elim conjE)
  assume "good (world s)" and "\<forall>(c, x)\<in>K. served (world s) c x"
  from assms(1) [OF this] obtain new where new: "advances good served writes (world s) new (world t)"
    "list_all (allowed (served (world t)) sy src) new" "\<forall>(c, x)\<in>K'. served (world t) c x" by blast
  then obtain new' where new': "advances good served writes (world t) new' (world u)"
    "list_all (allowed (served (world u)) sy src) new'"
    using assms(2) unfolding guar_def advances_def by blast
  have "list_all (allowed (served (world u)) sy src) new"
    using new(2) new'(1) by (auto simp: list_all_iff advances_def intro: allowed_mono)
  then have "list_all (allowed (served (world u)) sy src) (new @ new')" using new'(2) by simp
  moreover have "advances good served writes (world s) (new @ new') (world u)"
    using new(1) new'(1) by (simp add: advances_def)
  ultimately show "\<exists>new. advances good served writes (world s) new (world u) \<and>
      list_all (allowed (served (world u)) sy src) new" by blast
qed

lemma guarI:
  "(good (world s) \<Longrightarrow> (\<forall>(c, x)\<in>K. served (world s) c x) \<Longrightarrow>
      \<exists>new. advances good served writes (world s) new (world t) \<and>
        list_all (allowed (served (world t)) sy src) new) \<Longrightarrow> guar sy src K s t"
  by (simp add: guar_def)

lemma guar_refl: "guar sy src K s s"
  by (rule guarI) (auto simp: advances_def intro: exI [of _ "[]"])

lemma served_stays:
  "(\<forall>(c, x)\<in>K. served w c x) \<Longrightarrow> advances good served writes w new w' \<Longrightarrow> \<forall>(c, x)\<in>K. served w' c x"
  unfolding advances_def by blast

lemma guar_trans:
  assumes "guar sy src K s t" and "guar sy src K t u"
  shows "guar sy src K s u"
proof (rule guar_step [OF _ assms(2)])
  assume "good (world s)" and K: "\<forall>(c, x)\<in>K. served (world s) c x"
  with assms(1) show "\<exists>new. advances good served writes (world s) new (world t) \<and>
      list_all (allowed (served (world t)) sy src) new \<and> (\<forall>(c, x)\<in>K. served (world t) c x)"
    unfolding guar_def using served_stays [OF K] by blast
qed

end

sublocale shared_server \<subseteq> gives: registry_relation
    "guar sy src K :: (('cfg, 'c, 'w) ClusterRegistry, 'w) st \<Rightarrow> _" for sy src K
  by unfold_locales (blast intro: guar_refl guar_trans)+

context shared_server begin

subsection \<open>Calls\<close>

abbreviation gives ::
  "'c Syncer \<Rightarrow> object \<Rightarrow> ('c \<times> object) set \<Rightarrow> ('cfg, 'c, 'w, 'a) rgo \<Rightarrow> bool" where
  "gives sy src K m \<equiv> gives.follows sy src K m"

lemma gives_mono: "gives sy src K m \<Longrightarrow> K \<subseteq> K' \<Longrightarrow> gives sy src K' m"
  by (rule gives.followsI, drule gives.followsD, erule wp_mono) (auto simp: guar_def)

lemma gives_emit: "gives sy src K (emit e)" "gives sy src K (Eventf obj ty reason fmt args)"
  by (rule gives.followsI; simp add: wp_rules guar_refl guar_def advances_def)+

lemma gives_countDeleted: "gives sy src K (countDeleted obj n)"
  by (rule gives.followsI) (simp add: wp_rules guar_def advances_def)

text \<open>A call that makes no write or one that is allowed.\<close>

lemma gives_api:
  assumes "\<And>w r w'. good w \<Longrightarrow> (\<forall>(c, x)\<in>K. served w c x) \<Longrightarrow> f w = (r, w') \<Longrightarrow>
      advances good served writes w [] w' \<or>
      (\<exists>m. advances good served writes w [m] w' \<and> allowed (served w') sy src m)"
  shows "gives sy src K (api f)"
proof (rule gives.followsI)
  fix s :: "(('cfg, 'c, 'w) ClusterRegistry, 'w) st"
  obtain r w' where r: "f (world s) = (r, w')" by (rule prod.exhaust)
  have "guar sy src K s (s\<lparr>world := w'\<rparr>)"
  proof (rule guarI)
    assume "good (world s)" "\<forall>(c, x)\<in>K. served (world s) c x"
    from assms [OF this r] show "\<exists>new. advances good served writes (world s) new (world (s\<lparr>world := w'\<rparr>)) \<and>
        list_all (allowed (served (world (s\<lparr>world := w'\<rparr>))) sy src) new"
      by (auto intro: exI [of _ "[]"] exI [of _ "[_]"])
  qed
  with r show "wp (api f) (\<lambda>_ s'. guar sy src K s s') s" by (simp add: wp_api)
qed

text \<open>What a read returns may be used by what follows.\<close>

lemma gives_read_bind:
  fixes f :: "'a \<Rightarrow> ('cfg, 'c, 'w, 'b) rgo"
  assumes call: "\<And>w r w'. good w \<Longrightarrow> g w = (r, w') \<Longrightarrow>
      advances good served writes w [] w' \<and> (\<forall>(c, x)\<in>J r. served w' c x) \<and> P r"
    and "\<And>r. P r \<Longrightarrow> gives sy src (K \<union> J r) (f r)"
  shows "gives sy src K (State_Monad.bind (api g) f)"
proof (rule gives.followsI, unfold wp_bind wp_api)
  fix s :: "(('cfg, 'c, 'w) ClusterRegistry, 'w) st"
  obtain r w' where r: "g (world s) = (r, w')" by (rule prod.exhaust)
  have "wp (f r) (\<lambda>_ s'. guar sy src K s s') (s\<lparr>world := w'\<rparr>)"
  proof (cases "good (world s)")
    case True
    have read: "advances good served writes (world s) [] w' \<and> (\<forall>(c, x)\<in>J r. served w' c x)" "P r"
      using call [OF True r] by blast+
    show ?thesis
    proof (rule wp_mono [OF gives.followsD [OF assms(2) [OF read(2)]]])
      fix a t
      assume after: "guar sy src (K \<union> J r) (s\<lparr>world := w'\<rparr>) t"
      show "guar sy src K s t"
      proof (rule guar_step [OF _ after])
        assume "\<forall>(c, x)\<in>K. served (world s) c x"
        from served_stays [OF this conjunct1 [OF read(1)]] read(1)
        show "\<exists>new. advances good served writes (world s) new (world (s\<lparr>world := w'\<rparr>)) \<and>
            list_all (allowed (served (world (s\<lparr>world := w'\<rparr>))) sy src) new \<and>
            (\<forall>(c, x)\<in>K \<union> J r. served (world (s\<lparr>world := w'\<rparr>)) c x)"
          by (intro exI [of _ "[]"]) auto
      qed
    qed
  next
    case False
    then show ?thesis by (simp add: wp_def guar_def)
  qed
  with r show "case g (world s) of (r, w) \<Rightarrow> wp (f r) (\<lambda>_ s'. guar sy src K s s') (s\<lparr>world := w\<rparr>)" by simp
qed

lemma gives_Get_bind:
  assumes "\<And>x. okey x = (kd, ns, n) \<Longrightarrow> gives sy src (insert (c, x) K) (f (Inr x))"
    and "\<And>e. gives sy src K (f (Inl e))"
  shows "gives sy src K (State_Monad.bind (Get X c kd ns n) f)"
  unfolding Get_def
proof (rule gives_read_bind [where J = "\<lambda>r. case r of Inl e \<Rightarrow> {} | Inr x \<Rightarrow> {(c, x)}"
      and P = "\<lambda>r. \<forall>x. r = Inr x \<longrightarrow> okey x = (kd, ns, n)"], goal_cases)
  case (1 w r w')
  with get_reads [OF 1] show ?case by (auto split: sum.splits)
next
  case (2 r)
  with assms show ?case by (cases r) auto
qed

lemma gives_List_bind:
  assumes "\<And>l. (\<And>x. x \<in> set (listItems l) \<Longrightarrow> objKind x = kd \<and> selects m x) \<Longrightarrow>
      gives sy src (Pair c ` set (listItems l) \<union> K) (f (Inr l))"
    and "\<And>e. gives sy src K (f (Inl e))"
  shows "gives sy src K (State_Monad.bind (List X c kd (MatchingLabels m)) f)"
  unfolding List_def
proof (rule gives_read_bind [where J = "\<lambda>r. case r of Inl e \<Rightarrow> {} | Inr l \<Rightarrow> Pair c ` set (listItems l)"
      and P = "\<lambda>r. \<forall>l. r = Inr l \<longrightarrow> (\<forall>x\<in>set (listItems l). objKind x = kd \<and> selects m x)"], goal_cases)
  case (1 w r w')
  with list_reads [OF 1] show ?case by (auto split: sum.splits)
next
  case (2 r)
  with assms show ?case by (cases r) (auto simp: Un_commute)
qed

lemma gives_ListNamespaces: "gives sy src K (ListNamespaces X c lim)"
  unfolding ListNamespaces_def by (rule gives_api) (use namespaces_reads in blast)

lemma gives_Create:
  assumes "stamp_for sy c oc"
  shows "gives sy src K (Create X c (fresh_copy (s_Keys sy) src ns oc))"
  unfolding Create_def
proof (rule gives_api)
  fix w r w'
  assume "good w" and r: "client_create X c (fresh_copy (s_Keys sy) src ns oc) w = (r, w')"
  have "DeletionTimestamp (fresh_copy (s_Keys sy) src ns oc) = None"
    by (simp add: fresh_copy_def zero_object_def)
  from create_writes [OF \<open>good w\<close> r this] assms
  show "advances good served writes w [] w' \<or>
      (\<exists>m. advances good served writes w [m] w' \<and> allowed (served w') sy src m)"
    by (metis allowed.simps(1))
qed

lemma gives_Update:
  assumes "(c, old) \<in> K" and "okey old = okey obj" "ResourceVersion old = ResourceVersion obj" "UID old = UID obj"
    "DeletionTimestamp old = DeletionTimestamp obj"
    and "\<And>Sv v. allowed Sv sy src (Replaced c old (obj\<lparr>ResourceVersion := v\<rparr>))"
  shows "gives sy src K (Update X c obj)"
  unfolding Update_def
proof (rule gives_api)
  fix w r w'
  assume "good w" and "\<forall>(c, x)\<in>K. served w c x" and r: "client_update X c obj w = (r, w')"
  then have "served w c old" using assms(1) by blast
  from update_writes [OF \<open>good w\<close> r this assms(2-5)] assms(6)
  show "advances good served writes w [] w' \<or>
      (\<exists>m. advances good served writes w [m] w' \<and> allowed (served w') sy src m)" by blast
qed

lemma gives_Delete:
  assumes "(c, obj) \<in> K" and "stamp_for sy c oc" and "copy_of (s_Keys sy) src obj" "hub_may (s_Keys sy) oc obj"
  shows "gives sy src K (Delete X c obj)"
  unfolding Delete_def
proof (rule gives_api)
  fix w r w'
  assume "good w" and "\<forall>(c, x)\<in>K. served w c x" and r: "client_delete X c obj w = (r, w')"
  then have "served w c obj" using assms(1) by blast
  have "allowed (served w') sy src (Removed c old)"
    if "okey old = okey obj" "advances good served writes w [Removed c old] w'" for old
    using that assms(2-4) \<open>served w c obj\<close> by (auto simp: advances_def)
  with delete_writes [OF \<open>good w\<close> r]
  show "advances good served writes w [] w' \<or>
      (\<exists>m. advances good served writes w [m] w' \<and> allowed (served w') sy src m)" by blast
qed

lemmas gives_rules = gives.follows_rules gives.follows_registry gives_emit gives_countDeleted gives_ListNamespaces

subsection \<open>Copies\<close>

lemma gives_upsertExisting:
  assumes kind: "objKind src \<noteq> OtherKind" and stamp: "stamp_for sy cl oc"
    and seen: "(cl, obj) \<in> K" and key: "okey obj = (objKind src, ns, Name src)"
  shows "gives sy src K (upsertExisting X sy cl src ns oc obj)"
proof -
  have kinds: "objKind src = objKind obj" and name: "Name obj = Name src" using key by (simp_all add: okey_def)
  let ?new = "refreshed (s_Keys sy) src oc obj"
  have update: "gives sy src K (Update X cl ?new)"
    if "slot_class (s_Keys sy) src oc (Some obj) \<in> {Owned, Adoptable}"
    by (rule gives_Update [OF seen])
      (use that stamp name kinds in \<open>auto simp: okey_def refreshed_kind\<close>)
  show ?thesis
    unfolding upsertExisting_def Let_def copy_steps [OF kinds] option.case
    by (intro gives_rules update) (auto simp: slot_class_def)
qed

lemma gives_upsertCopy:
  assumes kind: "objKind src \<noteq> OtherKind" and stamp: "stamp_for sy cl oc"
  shows "gives sy src K (upsertCopy X sy cl src ns oc)"
proof -
  obtain e where e: "emptyLike src = Some e" and e_kind: "objKind e = objKind src"
    using kind emptyLike_kind by (cases "emptyLike src") (auto simp: emptyLike_None)
  obtain c where zero: "e = zero_object c" using emptyLike_zero [OF e] by blast
  have fresh: "copyContents src (applyCopyMeta (s_Keys sy) src (e\<lparr>Namespace := ns, Name := Name src\<rparr>) oc) =
      Some (fresh_copy (s_Keys sy) src ns oc)"
  proof -
    have "objKind src = objKind (e\<lparr>Namespace := ns, Name := Name src\<rparr>)" by (simp add: e_kind)
    then show ?thesis
      by (simp add: copy_steps fresh_copy_def zero) (simp add: refreshed_def zero_object_def)
  qed
  show ?thesis
    unfolding upsertCopy_def e option.case e_kind Let_def fresh
  proof (rule gives_Get_bind, goal_cases)
    case (1 x)
    then show ?case
      by (simp, intro gives_upsertExisting [OF kind stamp]) simp_all
  next
    case (2 err)
    show ?case
      unfolding sum.case by (intro gives_rules gives_Create stamp)
  qed
qed

lemma gives_deleteCopies_item:
  assumes "stamp_for sy cl oc" and "copy_of (s_Keys sy) src c" and "(cl, c) \<in> K"
  shows "gives sy src K (deleteCopies_item X sy cl keep oc c a)"
proof -
  have delete: "gives sy src K (Delete X cl c)"
    if "\<not> (oc \<noteq> [] \<and> originCluster_of (s_Keys sy) c \<noteq> [] \<and> originCluster_of (s_Keys sy) c \<noteq> oc)"
    by (rule gives_Delete [OF assms(3,1,2)]) (use that in \<open>auto simp: hub_may_def\<close>)
  show ?thesis
    unfolding deleteCopies_item_def Let_def by (intro gives_rules delete)
qed

lemma gives_deleteCopies:
  assumes wf: "wf_KeySet (s_Keys sy)" and kind: "objKind src \<noteq> OtherKind" and stamp: "stamp_for sy cl oc"
  shows "gives sy src K (deleteCopies X sy cl src keep oc)"
proof -
  obtain l where l: "emptyListLike src = Some l" and l_kind: "listKind l = objKind src"
    using kind emptyListLike_kind by (cases "emptyListLike src") (auto simp: emptyListLike_None)
  have sel: "gives sy src K (do { r \<leftarrow> List X cl (listKind l) (MatchingLabels m);
      case r of
        Inl err \<Rightarrow> State_Monad.return (Return (Ret (n, Some err)))
      | Inr l \<Rightarrow> for_range (listItems l) (deleteCopies_item X sy cl keep oc) (seen, n) })"
    if m: "m \<in> set (managedListOpts (s_Keys sy) src)" for m n and seen :: "(string, bool) fmap"
  proof (rule gives_List_bind, goal_cases)
    case (1 l')
    have "copy_of (s_Keys sy) src c" if "c \<in> set (listItems l')" for c
      using 1 [OF that] m l_kind unfolding copy_of_iff [OF wf] by auto
    then show ?case
      unfolding sum.case
      by (intro gives.follows_for_range gives_deleteCopies_item stamp) auto
  next
    case (2 e)
    show ?case unfolding sum.case by (intro gives_rules)
  qed
  show ?thesis
    unfolding deleteCopies_def l option.case
    by (intro gives.follows_bind gives.follows_for_range gives_rules sel)
qed

subsection \<open>Reconciliations\<close>

lemma stamp_for_own [simp]: "stamp_for sy (s_Client sy) []" "stamp_for sy cl (s_HubClusterUID sy)"
  by (simp_all add: stamp_for_def)

lemma gives_source_update:
  assumes "(s_Client sy, obj) \<in> K"
  shows "gives sy obj K (Update X (s_Client sy) (obj\<lparr>Finalizers := f\<rparr>))"
  by (rule gives_Update [OF assms]) (auto simp: okey_def)

lemma gives_reconcileRemote:
  assumes wf: "wf_KeySet (s_Keys sy)" and kind: "objKind src \<noteq> OtherKind"
  shows "gives sy src K (reconcileRemote X sy src)"
proof -
  note copies = gives_upsertCopy [OF kind] gives_deleteCopies [OF wf kind]
  show ?thesis
    unfolding reconcileRemote_def warnUnknown_def reconcileRemote_cluster_def reconcileRemote_dest_def Let_def
    by (intro gives_rules copies stamp_for_own)
qed

lemma gives_deleteRemoteCopies:
  assumes wf: "wf_KeySet (s_Keys sy)" and kind: "objKind src \<noteq> OtherKind"
  shows "gives sy src K (deleteRemoteCopies X sy src)"
  unfolding deleteRemoteCopies_def deleteRemoteCopies_cluster_def
  by (intro gives_rules gives_deleteCopies [OF wf kind] stamp_for_own)

lemma gives_cleanup:
  assumes wf: "wf_KeySet (s_Keys sy)" and kind: "objKind obj \<noteq> OtherKind" and seen: "(s_Client sy, obj) \<in> K"
  shows "gives sy obj K (cleanupAndRemoveFinalizer X sy obj)"
  unfolding cleanupAndRemoveFinalizer_def dropFinalizers_def removeAllFinalizers_eq
  by (intro gives_rules gives_deleteCopies [OF wf kind] gives_deleteRemoteCopies [OF wf kind]
      gives_source_update [OF seen] stamp_for_own)

lemma gives_replicateLocal:
  assumes wf: "wf_KeySet (s_Keys sy)" and kind: "objKind obj \<noteq> OtherKind"
  shows "gives sy obj K (replicateLocal X sy obj T)"
  unfolding replicateLocal_def upsertTarget_def
  by (intro gives_rules gives_upsertCopy [OF kind] gives_deleteCopies [OF wf kind] stamp_for_own)

lemma gives_reconcileSource:
  assumes wf: "wf_KeySet (s_Keys sy)" and kind: "objKind obj \<noteq> OtherKind" and seen: "(s_Client sy, obj) \<in> K"
  shows "gives sy obj K (reconcileSource X sy obj)"
proof -
  have finalizer: "gives sy obj K (Update X (s_Client sy) obj')"
    if "reconcileFinalizer (finalizers X) (s_Keys sy) obj = (obj', True)" for obj'
    using that gives_source_update [OF seen] by (auto simp: reconcileFinalizer_eq [OF wf])
  note parts = gives_cleanup [OF wf kind seen] gives_replicateLocal [OF wf kind] gives_reconcileRemote [OF wf kind]
  show ?thesis
  proof (cases "snd (reconcileFinalizer (finalizers X) (s_Keys sy) obj)")
    case True
    then obtain obj' where obj': "reconcileFinalizer (finalizers X) (s_Keys sy) obj = (obj', True)"
      by (metis (full_types) prod.collapse)
    show ?thesis
      unfolding reconcileSource_def obj' Let_def prod.case if_True
      by (intro gives_rules parts finalizer [OF obj'])
  next
    case False
    show ?thesis
      unfolding reconcileSource_def reconcileFinalizer_same [OF wf False] Let_def prod.case if_False replicateRemote_def
      by (intro gives_rules parts)
  qed
qed

text \<open>The controllers read the source they reconcile.\<close>

lemma wp_controller:
  assumes wf: "wf_KeySet (s_Keys sy)" and "kd \<noteq> OtherKind" and "good (world s)"
  shows "wp (do {
      r \<leftarrow> Get X (s_Client sy) kd ns n;
      case r of
        Inl err \<Rightarrow> State_Monad.return (Ret (zero_Result, IgnoreNotFound (Some err)))
      | Inr obj \<Rightarrow> call (reconcileSource X sy obj) (\<lambda>(res, err). do {
          observeReconcile knd err;
          State_Monad.return (Ret (res, err))
        })
    })
    (\<lambda>_ s'. \<exists>new. advances good served writes (world s) new (world s') \<and>
       (new = [] \<or> (\<exists>src. served (world s') (s_Client sy) src \<and> okey src = (kd, ns, n) \<and>
          list_all (allowed (served (world s')) sy src) new))) s"
proof -
  obtain r w' where r: "client_get X (s_Client sy) kd ns n (world s) = (r, w')" by (rule prod.exhaust)
  note read = get_reads [OF assms(3) r]
  show ?thesis
  proof (cases r)
    case (Inl e)
    with r read show ?thesis by (simp add: Get_def wp_bind wp_api wp_return) (intro exI [of _ "[]"], simp)
  next
    case (Inr src)
    with read have src: "served w' (s_Client sy) src" "okey src = (kd, ns, n)" by auto
    then have kind: "objKind src \<noteq> OtherKind" using assms(2) by (simp add: okey_def)
    let ?t = "s\<lparr>world := w'\<rparr>"
    have "gives sy src {(s_Client sy, src)} (call (reconcileSource X sy src) (\<lambda>(res, err). do {
          observeReconcile knd err;
          State_Monad.return (Ret (res, err))
        }))"
      unfolding observeReconcile_def Let_def by (intro gives_rules gives_reconcileSource wf kind) simp
    from gives.followsD [OF this, of ?t]
    have "wp (call (reconcileSource X sy src) (\<lambda>(res, err). do {
          observeReconcile knd err;
          State_Monad.return (Ret (res, err))
        })) (\<lambda>_ s'. \<exists>new. advances good served writes (world s) new (world s') \<and>
       (new = [] \<or> (\<exists>src. served (world s') (s_Client sy) src \<and> okey src = (kd, ns, n) \<and>
          list_all (allowed (served (world s')) sy src) new))) ?t"
    proof (rule wp_mono)
      fix a s'
      assume "guar sy src {(s_Client sy, src)} ?t s'"
      then obtain new where new: "advances good served writes w' new (world s')"
        "list_all (allowed (served (world s')) sy src) new"
        using read src(1) by (auto simp: guar_def advances_def)
      moreover have "served (world s') (s_Client sy) src" using new(1) src(1) by (simp add: advances_def)
      moreover have "advances good served writes (world s) new (world s')"
        using read new(1) by (simp add: advances_def)
      ultimately show "\<exists>new. advances good served writes (world s) new (world s') \<and>
       (new = [] \<or> (\<exists>src. served (world s') (s_Client sy) src \<and> okey src = (kd, ns, n) \<and>
          list_all (allowed (served (world s')) sy src) new))" using src(2) by blast
    qed
    with r Inr show ?thesis by (simp add: Get_def wp_bind wp_api)
  qed
qed

end

end
