(* ===== verification/Racy_Platform.thy ===== *)
theory Racy_Platform
  imports Interference
begin

text \<open>
  An executable server shared with another writer: before every call the next action of a script
  is played against it. It keeps the laws of \<open>shared_server\<close>, and on it the window between
  listing a copy and deleting it can be hit.
\<close>

datatype foreign_step = Nothing | Put nat object | Drop nat okey

record racy =
  r_now :: "(nat \<times> object) list"
  r_past :: "(nat \<times> object) list"
  r_count :: nat
  r_script :: "foreign_step list"
  r_writes :: "nat mutation list"

definition r_stamp :: "racy \<Rightarrow> string" where
  "r_stamp w = replicate (r_count w) CHR ''1''"

definition r_find :: "nat \<Rightarrow> okey \<Rightarrow> racy \<Rightarrow> object option" where
  "r_find c k w = map_option snd (find (\<lambda>(d, x). d = c \<and> okey x = k) (r_now w))"

definition r_drop :: "nat \<Rightarrow> okey \<Rightarrow> racy \<Rightarrow> racy" where
  "r_drop c k w = w\<lparr>r_now := filter (\<lambda>(d, x). \<not> (d = c \<and> okey x = k)) (r_now w)\<rparr>"

text \<open>Every write gets a resource version never used before.\<close>

definition r_put :: "nat \<Rightarrow> object \<Rightarrow> racy \<Rightarrow> racy" where
  "r_put c x w = (let x = x\<lparr>ResourceVersion := r_stamp w\<rparr>; w = r_drop c (okey x) w in
     w\<lparr>r_now := (c, x) # r_now w, r_past := (c, x) # r_past w, r_count := Suc (r_count w)\<rparr>)"

definition r_record :: "nat mutation \<Rightarrow> racy \<Rightarrow> racy" where
  "r_record m w = w\<lparr>r_writes := r_writes w @ [m]\<rparr>"

definition r_foreign :: "racy \<Rightarrow> racy" where
  "r_foreign w = (case r_script w of
     [] \<Rightarrow> w
   | st # sts \<Rightarrow>
       let w = w\<lparr>r_script := sts\<rparr> in
       (case st of Nothing \<Rightarrow> w | Put c x \<Rightarrow> r_put c x w | Drop c k \<Rightarrow> r_drop c k w))"

definition racy_get :: "nat \<Rightarrow> kind \<Rightarrow> string \<Rightarrow> string \<Rightarrow> racy \<Rightarrow> (error + object) \<times> racy" where
  "racy_get c kd ns n w = (let w = r_foreign w in
     (case r_find c (kd, ns, n) w of None \<Rightarrow> Inl (NotFound n) | Some x \<Rightarrow> Inr x, w))"

definition racy_list :: "nat \<Rightarrow> kind \<Rightarrow> list_opt \<Rightarrow> racy \<Rightarrow> (error + ObjectList) \<times> racy" where
  "racy_list c kd opt w = (let w = r_foreign w in
     (if kd = OtherKind then Inl (OtherError ''no list'')
      else Inr (mem_list_of kd (filter (\<lambda>x. objKind x = kd \<and>
        (case opt of MatchingLabels m \<Rightarrow> selects m x | MatchingFields f v \<Rightarrow> False))
        (map snd (filter (\<lambda>(d, x). d = c) (r_now w))))), w))"

definition racy_create :: "nat \<Rightarrow> object \<Rightarrow> racy \<Rightarrow> (error + unit) \<times> racy" where
  "racy_create c obj w = (let w = r_foreign w in
     (case r_find c (okey obj) w of
        Some _ \<Rightarrow> (Inl (AlreadyExists (Name obj)), w)
      | None \<Rightarrow>
          let obj = obj\<lparr>UID := r_stamp w\<rparr>
          in (Inr (), r_record (Created c (obj\<lparr>ResourceVersion := r_stamp w\<rparr>)) (r_put c obj w))))"

definition racy_update :: "nat \<Rightarrow> object \<Rightarrow> racy \<Rightarrow> (error + unit) \<times> racy" where
  "racy_update c obj w = (let w = r_foreign w in
     (case r_find c (okey obj) w of
        None \<Rightarrow> (Inl (NotFound (Name obj)), w)
      | Some old \<Rightarrow>
          if ResourceVersion obj \<noteq> ResourceVersion old \<or> UID obj \<noteq> UID old then (Inl (OtherError ''conflict''), w)
          else (Inr (), r_record (Replaced c old (obj\<lparr>ResourceVersion := r_stamp w\<rparr>))
            (if DeletionTimestamp obj \<noteq> None \<and> Finalizers obj = [] then r_drop c (okey obj) w
             else r_put c obj w))))"

definition racy_delete :: "nat \<Rightarrow> object \<Rightarrow> racy \<Rightarrow> (error + unit) \<times> racy" where
  "racy_delete c obj w = (let w = r_foreign w in
     (case r_find c (okey obj) w of
        None \<Rightarrow> (Inl (NotFound (Name obj)), w)
      | Some old \<Rightarrow> (Inr (), r_record (Removed c old)
          (if Finalizers old = [] then r_drop c (okey obj) w
           else r_put c (old\<lparr>DeletionTimestamp := Some ''now''\<rparr>) w))))"

definition racy_namespaces :: "nat \<Rightarrow> nat option \<Rightarrow> racy \<Rightarrow> (error + namespace list) \<times> racy" where
  "racy_namespaces c lim w = (Inr [demo_ns ''d'', demo_ns ''e''], r_foreign w)"

definition racy_X :: "(nat, racy) ext" where
  "racy_X =
     \<lparr>client_get = racy_get, client_list = racy_list, client_create = racy_create,
      client_update = racy_update, client_delete = racy_delete,
      client_list_namespaces = racy_namespaces, client_get_namespace = (\<lambda>c n w. (Inl (NotFound n), w)),
      labels_Parse = mem_parse, finalizers = list_finalizers,
      range_keys = (\<lambda>w S. sorted_list_of_fset S)\<rparr>"

subsection \<open>It keeps the laws\<close>

text \<open>What the server has held: every state has a resource version of its own.\<close>

definition r_served :: "racy \<Rightarrow> nat \<Rightarrow> object \<Rightarrow> bool" where
  "r_served w c x \<longleftrightarrow> (c, x) \<in> set (r_past w)"

definition r_good :: "racy \<Rightarrow> bool" where
  "r_good w \<longleftrightarrow>
     set (r_now w) \<subseteq> set (r_past w) \<and>
     (\<forall>p\<in>set (r_past w). \<exists>n<r_count w. ResourceVersion (snd p) = replicate n CHR ''1'') \<and>
     inj_on (ResourceVersion \<circ> snd) (set (r_past w))"

abbreviation r_advances :: "racy \<Rightarrow> nat mutation list \<Rightarrow> racy \<Rightarrow> bool" where
  "r_advances \<equiv> advances r_good r_served r_writes"

lemma r_advances_trans:
  "r_advances w new w' \<Longrightarrow> r_advances w' new' w'' \<Longrightarrow> r_advances w (new @ new') w''"
  by (simp add: advances_def)

lemma r_good_drop: "r_good w \<Longrightarrow> r_advances w [] (r_drop c k w)"
  by (auto simp: r_good_def advances_def r_drop_def r_served_def)

lemma r_good_record: "r_good w \<Longrightarrow> r_advances w [m] (r_record m w)"
  by (auto simp: r_good_def advances_def r_record_def r_served_def)

lemma r_good_script: "r_good w \<Longrightarrow> r_advances w [] (w\<lparr>r_script := sc\<rparr>)"
  by (auto simp: r_good_def advances_def r_served_def)

lemma r_good_put:
  assumes "r_good w"
  shows "r_advances w [] (r_put c x w)" and "r_served (r_put c x w) c (x\<lparr>ResourceVersion := r_stamp w\<rparr>)"
proof -
  let ?p = "(c, x\<lparr>ResourceVersion := r_stamp w\<rparr>)"
  have fresh: "ResourceVersion (snd p) \<noteq> r_stamp w" if "p \<in> set (r_past w)" for p
    using assms that by (fastforce simp: r_good_def r_stamp_def)
  have "inj_on (ResourceVersion \<circ> snd) (insert ?p (set (r_past w)))"
    using assms fresh by (auto simp: r_good_def inj_on_def)
  moreover have "\<exists>n<Suc (r_count w). ResourceVersion (snd p) = replicate n CHR ''1''"
    if "p \<in> insert ?p (set (r_past w))" for p
    using assms that by (auto simp: r_good_def r_stamp_def intro: less_SucI)
  ultimately show "r_advances w [] (r_put c x w)"
    using assms by (auto simp: r_good_def advances_def r_put_def r_drop_def r_served_def Let_def)
  show "r_served (r_put c x w) c (x\<lparr>ResourceVersion := r_stamp w\<rparr>)"
    by (simp add: r_served_def r_put_def Let_def)
qed

lemma r_good_foreign:
  assumes good: "r_good w"
  shows "r_advances w [] (r_foreign w)"
proof (cases "r_script w")
  case Nil
  with good show ?thesis by (simp add: r_foreign_def advances_def)
next
  case (Cons st sts)
  let ?w = "w\<lparr>r_script := sts\<rparr>"
  have script: "r_advances w [] ?w" by (rule r_good_script [OF good])
  then have "r_good ?w" by (simp add: advances_def)
  with script r_advances_trans [OF script, of "[]"] Cons show ?thesis
    by (cases st) (simp_all add: r_foreign_def Let_def r_good_put(1) r_good_drop)
qed

lemma r_find_served: "r_good w \<Longrightarrow> r_find c k w = Some x \<Longrightarrow> r_served w c x \<and> okey x = k"
  by (auto simp: r_find_def find_Some_iff r_good_def r_served_def dest: nth_mem)

lemma r_served_unique:
  "r_good w \<Longrightarrow> r_served w c x \<Longrightarrow> r_served w c y \<Longrightarrow> ResourceVersion x = ResourceVersion y \<Longrightarrow> x = y"
  by (fastforce simp: r_good_def r_served_def inj_on_def)

lemma r_then:
  "r_good w \<Longrightarrow> (r_good (r_foreign w) \<Longrightarrow> r_advances (r_foreign w) new w') \<Longrightarrow> r_advances w new w'"
  using r_good_foreign [of w] r_advances_trans [of w "[]" "r_foreign w" new w'] by (simp add: advances_def)

lemma r_recorded: "r_good w \<Longrightarrow> r_advances w [] w' \<Longrightarrow> r_advances w [m] (r_record m w')"
  using r_advances_trans [of w "[]" w' "[m]"] r_good_record by (simp add: advances_def)

lemma racy_X_simps [simp]:
  "client_get racy_X = racy_get" "client_list racy_X = racy_list" "client_create racy_X = racy_create"
  "client_update racy_X = racy_update" "client_delete racy_X = racy_delete"
  "client_list_namespaces racy_X = racy_namespaces" "finalizers racy_X = list_finalizers"
  "labels_Parse racy_X = mem_parse" "range_keys racy_X w S = sorted_list_of_fset S"
  by (simp_all add: racy_X_def)

lemma racy_get_reads:
  assumes "r_good w" and "racy_get c kd ns n w = (r, w')"
  shows "r_advances w [] w' \<and> (\<forall>x. r = Inr x \<longrightarrow> r_served w' c x \<and> okey x = (kd, ns, n))"
proof -
  have w': "w' = r_foreign w" using assms(2) by (simp add: racy_get_def Let_def)
  have adv: "r_advances w [] w'" unfolding w' by (rule r_good_foreign [OF assms(1)])
  then have "r_good w'" by (simp add: advances_def)
  with adv assms(2) r_find_served [of w' c "(kd, ns, n)"] show ?thesis
    by (auto simp: racy_get_def Let_def w' split: option.splits)
qed

lemma racy_list_reads:
  assumes "r_good w" and "racy_list c kd (MatchingLabels m) w = (r, w')"
  shows "r_advances w [] w' \<and>
    (\<forall>l. r = Inr l \<longrightarrow> (\<forall>x\<in>set (listItems l). r_served w' c x \<and> objKind x = kd \<and> selects m x))"
proof -
  have w': "w' = r_foreign w" using assms(2) by (simp add: racy_list_def Let_def)
  have adv: "r_advances w [] w'" unfolding w' by (rule r_good_foreign [OF assms(1)])
  have now: "p \<in> set (r_past w')" if "p \<in> set (r_now w')" for p
    using adv that by (auto simp: advances_def r_good_def)
  from adv assms(2) show ?thesis
    by (auto simp: racy_list_def Let_def w' r_served_def listItems_mem_list_of split: if_splits
        intro!: now [unfolded w'])
qed

lemma racy_create_writes:
  assumes "r_good w" and "racy_create c obj w = (r, w')"
  shows "r_advances w [] w' \<or> (\<exists>u v. r_advances w [Created c (obj\<lparr>UID := u, ResourceVersion := v\<rparr>)] w')"
proof (cases "r_find c (okey obj) (r_foreign w)")
  case None
  let ?w = "r_foreign w"
  have "r_advances w [Created c (obj\<lparr>UID := r_stamp ?w, ResourceVersion := r_stamp ?w\<rparr>)] w'"
    using assms(2) None
    by (intro r_then [OF assms(1)]) (auto simp: racy_create_def Let_def intro!: r_recorded r_good_put)
  then show ?thesis by blast
next
  case (Some x)
  with assms r_good_foreign [OF assms(1)] show ?thesis by (simp add: racy_create_def Let_def)
qed

lemma racy_update_writes:
  assumes "r_good w" and "racy_update c obj w = (r, w')" and "r_served w c old"
    and "okey old = okey obj" and "ResourceVersion old = ResourceVersion obj"
  shows "r_advances w [] w' \<or> (\<exists>v. r_advances w [Replaced c old (obj\<lparr>ResourceVersion := v\<rparr>)] w')"
proof -
  let ?w = "r_foreign w"
  have adv: "r_advances w [] ?w" by (rule r_good_foreign [OF assms(1)])
  show ?thesis
  proof (cases "\<exists>x. r_find c (okey obj) ?w = Some x \<and> ResourceVersion obj = ResourceVersion x \<and> UID obj = UID x")
    case True
    then obtain x where x: "r_find c (okey obj) ?w = Some x" "ResourceVersion obj = ResourceVersion x" "UID obj = UID x"
      by blast
    have good: "r_good ?w" "r_served ?w c old" using adv assms(3) by (simp_all add: advances_def)
    have "x = old"
      using r_served_unique [OF good(1) _ good(2)] r_find_served [OF good(1) x(1)] x(2) assms(5) by auto
    with x assms(2) have "r_advances w [Replaced c old (obj\<lparr>ResourceVersion := r_stamp ?w\<rparr>)] w'"
      by (intro r_then [OF assms(1)])
        (auto simp: racy_update_def Let_def split: if_splits intro!: r_recorded r_good_put r_good_drop)
    then show ?thesis by blast
  next
    case False
    with assms(2) adv show ?thesis
      by (auto simp: racy_update_def Let_def split: option.splits if_splits)
  qed
qed

lemma racy_delete_writes:
  assumes "r_good w" and "racy_delete c obj w = (r, w')"
  shows "r_advances w [] w' \<or> (\<exists>old. okey old = okey obj \<and> r_advances w [Removed c old] w')"
proof (cases "r_find c (okey obj) (r_foreign w)")
  case None
  with assms r_good_foreign [OF assms(1)] show ?thesis by (simp add: racy_delete_def Let_def)
next
  case (Some old)
  have "r_good (r_foreign w)" using r_good_foreign [OF assms(1)] by (simp add: advances_def)
  then have "okey old = okey obj" using r_find_served [OF _ Some] by blast
  moreover have "r_advances w [Removed c old] w'"
    using assms(2) Some
    by (intro r_then [OF assms(1)])
      (auto simp: racy_delete_def Let_def split: if_splits intro!: r_recorded r_good_put r_good_drop)
  ultimately show ?thesis by blast
qed

interpretation racy: shared_server racy_X r_good r_served r_writes
proof (rule shared_server.intro)
  show "finalizer_laws (finalizers racy_X)" by (simp add: fin.finalizer_laws_axioms)
  show "shared_server_axioms racy_X r_good r_served r_writes"
    by (rule shared_server_axioms.intro)
      (use racy_get_reads racy_list_reads racy_create_writes racy_update_writes racy_delete_writes r_good_foreign
        in \<open>auto simp: racy_namespaces_def\<close>)
qed

end
