(* ===== verification/Race_Properties.thy ===== *)
theory Race_Properties
  imports Racy_Platform
begin

text \<open>
  What holds when other writers act between the calls of a reconciliation: the guarantee of the
  controllers, and the one place where they rely on nobody interfering.
\<close>

text \<open>
  C14: whatever other writers do between the calls of a reconciliation, and however stale its
  reads are, each of its writes is one of these: it creates a copy stamped for the source it read;
  it changes the finalizers of that very state of the source; it replaces, by its refreshed form,
  an object that was, at the moment of the write, a copy the source owns or an adoptable object;
  or it deletes under a key under which the cluster has served, by the end of the run, a copy of
  the source that this hub may delete. So creations and replacements never overwrite an object
  that stopped being a copy. For a deletion nothing is said of the object that stands under the
  key at that moment: it may have replaced the copy since (\<open>prune_hits_replaced_object\<close> below).
\<close>

theorem writes_survive_races:
  assumes "shared_server X good served writes" and "wf_KeySet (s_Keys sy)" and "good (world s)"
    and "m = ConfigMapReconciler_Reconcile X sy ns n \<and> kd = ConfigMapKind \<or>
      m = SecretReconciler_Reconcile X sy ns n \<and> kd = SecretKind"
    and "run_state m s = (r, s')"
  shows "\<exists>new. good (world s') \<and> writes (world s') = writes (world s) @ new \<and>
    (new = [] \<or>
     (\<exists>src. served (world s') (s_Client sy) src \<and> okey src = (kd, ns, n) \<and>
        list_all (allowed (served (world s')) sy src) new))"
proof -
  have "wp m (\<lambda>_ s'. \<exists>new. advances good served writes (world s) new (world s') \<and>
      (new = [] \<or> (\<exists>src. served (world s') (s_Client sy) src \<and> okey src = (kd, ns, n) \<and>
         list_all (allowed (served (world s')) sy src) new))) s"
    using assms(4) shared_server.wp_controller [OF assms(1,2) _ assms(3), of kd]
    by (auto simp: ConfigMapReconciler_Reconcile_def SecretReconciler_Reconcile_def)
  from wp_runD [OF this assms(5)] show ?thesis unfolding advances_def by blast
qed

text \<open>
  The small world on the racy server: a source, a stale copy of it in a namespace that is no
  longer wanted, and a user who takes that copy over between two calls.
\<close>

definition racy_world :: "foreign_step list \<Rightarrow> racy" where
  "racy_world sc = (r_put 0 demo_source (r_put 0 demo_stale
     \<lparr>r_now = [], r_past = [], r_count = 0, r_script = [], r_writes = []\<rparr>))\<lparr>r_script := sc\<rparr>"

definition racy_state :: "foreign_step list \<Rightarrow> ((nat, nat, racy) ClusterRegistry, racy) st" where
  "racy_state sc = \<lparr>world = racy_world sc, registry = None, effects = [], channels = (\<lambda>_. \<lparr>ch_cap = 64, ch_queue = []\<rparr>)\<rparr>"

text \<open>What the user puts in the place of the copy: an object without any of our labels.\<close>

definition demo_taken :: object where
  "demo_taken = (demo_object ''g'' ''cm'')\<lparr>Content := ConfigMap (fmap_of_list [(''mine'', ''1'')]) fmempty\<rparr>"

lemma racy_world_good: "r_good (racy_world sc)"
proof -
  have "r_good \<lparr>r_now = [], r_past = [], r_count = 0, r_script = [], r_writes = []\<rparr>" by (simp add: r_good_def)
  from r_good_put(1) [OF this] have "r_good (r_put 0 demo_stale
      \<lparr>r_now = [], r_past = [], r_count = 0, r_script = [], r_writes = []\<rparr>)" by (simp add: advances_def)
  from r_good_put(1) [OF this] have "r_good (r_put 0 demo_source (r_put 0 demo_stale
      \<lparr>r_now = [], r_past = [], r_count = 0, r_script = [], r_writes = []\<rparr>))" by (simp add: advances_def)
  from r_good_script [OF this] show ?thesis by (simp add: racy_world_def advances_def)
qed

text \<open>The user acts before the upsert in \<open>e\<close> creates the copy: the object there is left alone.\<close>

theorem writes_survive_races_witness:
  "let s = racy_state [Nothing, Nothing, Nothing, Put 0 (demo_taken\<lparr>Namespace := ''e''\<rparr>)];
      s' = snd (run_state (ConfigMapReconciler_Reconcile racy_X demo_syncer ''d'' ''cm'') s)
    in map_option Content (r_find 0 (ConfigMapKind, ''e'', ''cm'') (world s')) = Some (Content demo_taken) \<and>
       (\<exists>src. okey src = (ConfigMapKind, ''d'', ''cm'') \<and> r_writes (world s') \<noteq> [] \<and>
          list_all (allowed (r_served (world s')) demo_syncer src) (r_writes (world s')))"
proof -
  let ?s = "racy_state [Nothing, Nothing, Nothing, Put 0 (demo_taken\<lparr>Namespace := ''e''\<rparr>)]"
  let ?r = "run_state (ConfigMapReconciler_Reconcile racy_X demo_syncer ''d'' ''cm'') ?s"
  have run: "?r = (fst ?r, snd ?r)" by simp
  have good: "r_good (world ?s)" by (simp add: racy_state_def racy_world_good)
  obtain new where new: "r_writes (world (snd ?r)) = r_writes (world ?s) @ new"
    "new = [] \<or> (\<exists>src. okey src = (ConfigMapKind, ''d'', ''cm'') \<and>
      list_all (allowed (r_served (world (snd ?r))) demo_syncer src) new)"
    using writes_survive_races [OF racy.shared_server_axioms _ good disjI1 [OF conjI [OF refl refl]] run] by auto
  have none: "r_writes (world ?s) = []" by code_simp
  have some: "r_writes (world (snd ?r)) \<noteq> []" by code_simp
  have taken: "map_option Content (r_find 0 (ConfigMapKind, ''e'', ''cm'') (world (snd ?r))) = Some (Content demo_taken)"
    by code_simp
  have "\<exists>src. okey src = (ConfigMapKind, ''d'', ''cm'') \<and>
      list_all (allowed (r_served (world (snd ?r))) demo_syncer src) (r_writes (world (snd ?r)))"
    using new some none by auto
  with some taken show ?thesis unfolding Let_def by blast
qed

text \<open>
  Deletions are not guarded that way: a \<open>Delete\<close> names the key only, without a precondition on
  the version or the UID that was listed. When the user takes the copy over after it was listed,
  the user's object is deleted and counted as a pruned copy.
\<close>

lemma prune_hits_replaced_object:
  "let (r, s') = run_state (deleteCopies racy_X demo_syncer 0 demo_source None [])
        (racy_state [Nothing, Nothing, Put 0 demo_taken])
    in r = Ret (1, None) \<and> \<not> isManagedCopy demo_keys demo_taken \<and> \<not> isAdoptable demo_taken \<and>
       r_find 0 (okey demo_taken) (world s') = None \<and>
       (case r_writes (world s') of [Removed c obj] \<Rightarrow> Content obj = Content demo_taken | _ \<Rightarrow> False)"
  by code_simp

end
