(* ===== verification/Recovery.thy ===== *)
theory Recovery
  imports System_Properties Liveness_Properties
begin

text \<open>
  Recovery of the running program: however it got into its state, with calls that failed half-way
  and clusters that were down, once the hub answers two reconciliations bring a source in sync.
\<close>

subsection \<open>Clusters that are up stay up\<close>

context answering begin

lemma stays_more:
  "stayed.follows (Get X c kd ns n)" "stayed.follows (Create X c obj)" "stayed.follows (Update X c obj)"
  "stayed.follows (ListNamespaces X c lim)"
  unfolding Get_def Create_def Update_def ListNamespaces_def
  by (intro stays_api up_get up_create up_update up_namespaces; assumption)+

lemmas stays_all = stays_rules stays_more stays_deleteCopies stays_deleteRemoteCopies

lemma stays_upsertCopy: "stayed.follows (upsertCopy X sy cl src ns oc)"
  unfolding upsertCopy_def upsertExisting_def by (intro stays_all)

lemma stays_replicateLocal: "stayed.follows (replicateLocal X sy obj T)"
  unfolding replicateLocal_def upsertTarget_def countDeleted_def by (intro stays_all stays_upsertCopy)

lemma stays_replicateRemote: "stayed.follows (replicateRemote X sy obj)"
  unfolding replicateRemote_def reconcileRemote_def reconcileRemote_cluster_def reconcileRemote_dest_def
    warnUnknown_def countDeleted_def
  by (intro stays_all stays_upsertCopy)

lemma stays_reconcileSource: "stayed.follows (reconcileSource X sy obj)"
  unfolding reconcileSource_def cleanupAndRemoveFinalizer_def dropFinalizers_def countDeleted_def
  by (intro stays_all stays_replicateLocal stays_replicateRemote)

lemma up_reconcileSource: "up (world s) \<Longrightarrow> wp (reconcileSource X sy obj) (\<lambda>_ s'. up (world s')) s"
  using stayed.followsD [OF stays_reconcileSource] by (rule wp_mono) (simp add: stays_def)

end


subsection \<open>The source with its finalizers\<close>

definition with_finalizer :: "('c, 'w) ext \<Rightarrow> KeySet \<Rightarrow> object \<Rightarrow> string \<Rightarrow> object" where
  "with_finalizer X ks obj v = (fst (reconcileFinalizer (finalizers X) ks obj))\<lparr>ResourceVersion := v\<rparr>"

context platform begin

lemma with_finalizer_facts:
  assumes "wf_KeySet ks"
  shows "DeletionTimestamp (with_finalizer X ks obj v) = DeletionTimestamp obj"
    and "isSource ks (with_finalizer X ks obj v) = isSource ks obj"
    and "selector_value ks (with_finalizer X ks obj v) = selector_value ks obj"
    and "copy_of ks (with_finalizer X ks obj v) (with_finalizer X ks obj v) = copy_of ks obj obj"
    and "\<not> snd (reconcileFinalizer (finalizers X) ks (with_finalizer X ks obj v))"
proof -
  have "\<forall>k\<in>set (Legacy ks). Finalizer k \<noteq> Finalizer (Primary ks)"
    using assms by (auto simp: wf_labels_inject wf_KeySetD dest: wf_KeySetD(4))
  then show "\<not> snd (reconcileFinalizer (finalizers X) ks (with_finalizer X ks obj v))"
    by (auto simp: with_finalizer_def reconcileFinalizer_eq [OF assms])
qed (simp_all add: with_finalizer_def reconcileFinalizer_eq [OF assms] isSource_def selector_value_def
    copy_of_def stamped_for_def managed_under_def)

end

subsection \<open>One reconciliation\<close>

text \<open>The world after the controller has read its object.\<close>

definition read_world :: "('c, 'w) ext \<Rightarrow> 'c \<Rightarrow> kind \<Rightarrow> string \<Rightarrow> string \<Rightarrow> ('r, 'w) st \<Rightarrow> ('r, 'w) st" where
  "read_world X cl kd ns n s = s\<lparr>world := snd (client_get X cl kd ns n (world s))\<rparr>"

lemma read_world_simps [simp]:
  "registry (read_world X cl kd ns n s) = registry s" "channels (read_world X cl kd ns n s) = channels s"
  by (simp_all add: read_world_def)

lemma read_store:
  "api_server X store nslist \<Longrightarrow> store c (world (read_world X cl kd ns n s)) = store c (world s)"
  by (simp add: read_world_def) (metis api_server.get_store prod.collapse)

lemma spokes_accept_read:
  "api_server X store nslist \<Longrightarrow>
     spokes_accept accepts H store sy obj (read_world X cl kd ns n s) = spokes_accept accepts H store sy obj s"
  by (simp add: spokes_accept_def read_store)

lemma healthy_post_frame:
  assumes "healthy_post accepts X store nslist H sy obj s r s1"
    and "world s' = world s1"
  shows "healthy_post accepts X store nslist H sy obj s r s'"
  using assms(1) unfolding healthy_post_def spokes_converged_def assms(2) .

context kind_controller begin

text \<open>A controller whose object is there hands it to \<open>reconcileSource\<close>.\<close>

lemma Rec_found:
  assumes A: "answering X store nslist H up accepts" and up: "up (world s)" and hub: "s_Client sy \<in> H"
    and obj: "store (s_Client sy) (world s) (K, ns, n) = Some obj"
    and run: "run_state (Rec X sy ns n) s = (r, s')"
  obtains s1 where "run_state (reconcileSource X sy obj) (read_world X (s_Client sy) K ns n s) = (r, s1)"
    and "world s' = world s1" and "registry s' = registry s1"
proof -
  note api = platform.axioms(1) [OF answering.axioms(1) [OF A]]
  obtain g w' where g: "client_get X (s_Client sy) K ns n (world s) = (g, w')" by (rule prod.exhaust)
  have found: "g = Inr obj"
  proof (cases g)
    case (Inl e)
    with g have "IsNotFound e" using answering.get_answers [OF A up hub replicable] by blast
    with g Inl have "store (s_Client sy) (world s) (K, ns, n) = None"
      using api_server.get_missing [OF api] by blast
    with obj show ?thesis by simp
  next
    case (Inr x)
    with g obj show ?thesis using api_server.get_ok [OF api] by fastforce
  qed
  obtain r1 s1 where rs: "run_state (reconcileSource X sy obj) (read_world X (s_Client sy) K ns n s) = (r1, s1)"
    by (rule prod.exhaust)
  then have ends: "wp (reconcileSource X sy obj) (\<lambda>r' t. r' = r1 \<and> t = s1) (read_world X (s_Client sy) K ns n s)"
    by (simp add: wp_def)
  have wp: "wp (Rec X sy ns n) (\<lambda>r' s'. r' = r1 \<and> world s' = world s1 \<and> registry s' = registry s1) s"
    unfolding Rec_eq wp_bind
    using ends by (simp add: Get_def wp_api g found wp_call read_world_def)
      (erule wp_mono, auto simp: wp_rules observeReconcile_def split: outcome.splits prod.splits)
  from wp_runD [OF wp run] rs that show thesis by simp
qed

lemma Rec_healthy:
  assumes A: "answering X store nslist H up accepts" and wf: "wf_KeySet (s_Keys sy)" and up: "up (world s)"
    and hub: "s_Client sy \<in> H" and obj: "store (s_Client sy) (world s) (K, ns, n) = Some obj"
    and own: "\<not> copy_of (s_Keys sy) obj obj" and spokes: "spokes_only sy s"
    and acc: "hub_accepts accepts X store nslist sy obj (read_world X (s_Client sy) K ns n s)"
    and run: "run_state (Rec X sy ns n) s = (r, s')"
  shows "healthy_post accepts X store nslist H sy obj (read_world X (s_Client sy) K ns n s) r s' \<and>
    up (world s') \<and> registry s' = registry s"
proof -
  note api = platform.axioms(1) [OF answering.axioms(1) [OF A]]
  let ?s = "read_world X (s_Client sy) K ns n s"
  obtain s1 where s1: "run_state (reconcileSource X sy obj) ?s = (r, s1)" "world s' = world s1"
    "registry s' = registry s1" by (rule Rec_found [OF A up hub obj run])
  have key: "okey obj = (K, ns, n)" using api_server.stored_key [OF api obj] .
  then have kind: "objKind obj \<noteq> OtherKind" using replicable by (simp add: okey_def)
  have up': "up (world ?s)" using answering.up_get [OF A up] by (simp add: read_world_def)
  have self: "store (s_Client sy) (world ?s) (okey obj) = Some obj" by (simp add: read_store [OF api] obj key)
  have spokes': "spokes_only sy ?s" using spokes by (simp add: spokes_only_def)
  have "healthy_post accepts X store nslist H sy obj ?s r s1"
    by (rule healthy_run [OF A wf kind up' hub self own spokes' acc s1(1)])
  moreover have "up (world s1)"
    by (rule wp_runD [OF answering.up_reconcileSource [OF A up'] s1(1)])
  moreover have "registry s1 = registry s"
    using wp_runD [OF platform.wp_reconcileSource_frame [OF answering.axioms(1) [OF A] wf kind self own spokes'] s1(1)]
    by (simp add: source_frame_def)
  ultimately show ?thesis using s1(2,3) healthy_post_frame by metis
qed

text \<open>The first reconciliation of an active source stores its finalizer, if it is not there.\<close>

lemma Rec_stores_finalizer:
  assumes A: "answering X store nslist H up accepts" and wf: "wf_KeySet (s_Keys sy)" and up: "up (world s)"
    and hub: "s_Client sy \<in> H" and obj: "store (s_Client sy) (world s) (K, ns, n) = Some obj"
    and own: "\<not> copy_of (s_Keys sy) obj obj" and spokes: "spokes_only sy s"
    and acc: "hub_accepts accepts X store nslist sy obj (read_world X (s_Client sy) K ns n s)"
    and active: "DeletionTimestamp obj = None" "isSource (s_Keys sy) obj"
      "labels_Parse X (selector_value (s_Keys sy) obj) = Inr selector"
    and run: "run_state (Rec X sy ns n) s = (r, s')"
  shows "\<exists>v. store (s_Client sy) (world s') (K, ns, n) = Some (with_finalizer X (s_Keys sy) obj v)"
proof -
  note P = answering.axioms(1) [OF A]
  note api = platform.axioms(1) [OF P]
  let ?ks = "s_Keys sy" and ?s = "read_world X (s_Client sy) K ns n s"
  have key: "okey obj = (K, ns, n)" using api_server.stored_key [OF api obj] .
  note post = Rec_healthy [OF A wf up hub obj own spokes acc run, THEN conjunct1, unfolded healthy_post_def]
  show ?thesis
  proof (cases "snd (reconcileFinalizer (finalizers X) ?ks obj)")
    case True
    then obtain obj' where pending: "reconcileFinalizer (finalizers X) ?ks obj = (obj', True)"
      by (metis (full_types) prod.collapse)
    obtain s1 where s1: "run_state (reconcileSource X sy obj) ?s = (r, s1)" "world s' = world s1"
      by (rule Rec_found [OF A up hub obj run])
    have self: "store (s_Client sy) (world ?s) (okey obj) = Some obj" by (simp add: read_store [OF api] obj key)
    obtain err where "r = Ret (zero_Result, err)"
      and "err = None \<longrightarrow> (\<exists>v. store (s_Client sy) (world s1) (okey obj) = Some (obj'\<lparr>ResourceVersion := v\<rparr>))"
      using wp_runD [OF platform.wp_reconcileSource_pending [OF P wf active(1,2) pending self] s1(1)] by blast
    moreover from post obtain res where "r = Ret (res, None)" by blast
    ultimately show ?thesis by (simp add: s1(2) key with_finalizer_def pending)
  next
    case False
    let ?T = "Some (targetNamespaces (s_ExcludeNamespaces sy) obj selector (nslist (s_Client sy) (world ?s)) fmempty)"
    have "synced ?ks obj [] ?T (store (s_Client sy) (world ?s)) (store (s_Client sy) (world s'))"
      using post active False by blast
    moreover have "(K, ns, n) \<notin> copy_keys obj (keep_set ?T)"
      using key by (auto simp: copy_keys_def targetNamespaces_keep wanted_namespace_def okey_def)
    ultimately have "store (s_Client sy) (world s') (K, ns, n) = Some obj"
      using own by (force simp: synced_def read_store [OF api] obj prunable_def)
    moreover have "with_finalizer X ?ks obj (ResourceVersion obj) = obj"
      by (simp add: with_finalizer_def finalizer_laws.reconcileFinalizer_same [OF platform.axioms(2) [OF P] wf False])
    ultimately show ?thesis by metis
  qed
qed

text \<open>After the first, the second one brings it in sync.\<close>

lemma Rec_twice:
  assumes A: "answering X store nslist H up accepts" and wf: "wf_KeySet (s_Keys sy)" and up: "up (world t)"
    and hub: "s_Client sy \<in> H" and obj: "store (s_Client sy) (world t) (K, ns, n) = Some obj"
    and own: "\<not> copy_of (s_Keys sy) obj obj" and spokes: "spokes_only sy t"
    and active: "DeletionTimestamp obj = None" "isSource (s_Keys sy) obj"
      "labels_Parse X (selector_value (s_Keys sy) obj) = Inr selector"
    and acc: "hub_accepts accepts X store nslist sy obj (read_world X (s_Client sy) K ns n t)"
    and acc1: "\<And>src. store (s_Client sy) (world t1) (K, ns, n) = Some src \<Longrightarrow>
      hub_accepts accepts X store nslist sy src (read_world X (s_Client sy) K ns n t1)"
    and run1: "run_state (Rec X sy ns n) t = (r1, t1)" and run2: "run_state (Rec X sy ns n) t1 = (r2, t2)"
  shows "\<exists>src v res. src = with_finalizer X (s_Keys sy) obj v \<and>
    store (s_Client sy) (world t1) (K, ns, n) = Some src \<and> r2 = Ret (res, None) \<and>
    synced (s_Keys sy) src [] (Some (targetNamespaces (s_ExcludeNamespaces sy) src selector
        (nslist (s_Client sy) (world (read_world X (s_Client sy) K ns n t1))) fmempty))
      (store (s_Client sy) (world t1)) (store (s_Client sy) (world t2)) \<and>
    (spokes_accept accepts H store sy src t1 \<longrightarrow> res = zero_Result \<and> spokes_converged store sy src t1 False t2)"
proof -
  note P = answering.axioms(1) [OF A]
  note api = platform.axioms(1) [OF P]
  let ?s = "read_world X (s_Client sy) K ns n t1"
  have t1: "up (world t1)" "registry t1 = registry t"
    using Rec_healthy [OF A wf up hub obj own spokes acc run1] by blast+
  obtain v where src: "store (s_Client sy) (world t1) (K, ns, n) = Some (with_finalizer X (s_Keys sy) obj v)" (is "_ = Some ?src")
    using Rec_stores_finalizer [OF A wf up hub obj own spokes acc active run1] by blast
  note facts = platform.with_finalizer_facts [OF P wf, of obj v]
  have spokes1: "spokes_only sy t1" using spokes by (simp add: spokes_only_def t1(2))
  have own1: "\<not> copy_of (s_Keys sy) ?src ?src" using own by (simp add: facts(4))
  note post = Rec_healthy [OF A wf t1(1) hub src own1 spokes1 acc1 [OF src] run2, THEN conjunct1, unfolded healthy_post_def]
  then obtain res where res: "r2 = Ret (res, None)" "spokes_accept accepts H store sy ?src t1 \<longrightarrow> res = zero_Result"
    by (auto simp: spokes_accept_read [OF api])
  have ready: "DeletionTimestamp ?src = None \<and> isSource (s_Keys sy) ?src \<and>
      \<not> snd (reconcileFinalizer (finalizers X) (s_Keys sy) ?src) \<and>
      labels_Parse X (selector_value (s_Keys sy) ?src) = Inr selector"
    using facts(1-3,5) active by simp
  note sync = post [THEN conjunct2, THEN conjunct1, rule_format, OF ready]
  have same: "spokes_converged store sy ?src ?s False t2 = spokes_converged store sy ?src t1 False t2"
    by (simp only: spokes_converged_def read_store [OF api] read_world_simps)
  show ?thesis
    by (intro exI [of _ ?src] exI [of _ v] exI [of _ res] conjI refl src res(1) impI)
      (use sync res(2) in \<open>simp_all add: read_store [OF api] same spokes_accept_read [OF api]\<close>)
qed

end


subsection \<open>The running program\<close>

text \<open>
  C12: the program recovers: whatever it went through since its start, in any order of its steps
  and with any calls failing, once the hub answers, two reconciliations of an active source bring
  it in sync, if the hub accepts what they write. The first one stores its finalizer, the second
  one returns no error and leaves the local cluster as specified; when every registered spoke
  answers, is registered under one id and accepts its copies too, it asks for no retry and every
  spoke has converged. The state may be any that a program reaches that knows the identity of the
  hub, or runs without cross-cluster support: with the guard off, the hub may be its own spoke and
  the fan-out may then delete local copies.
\<close>

theorem program_recovers:
  assumes "deployment X store nslist cuid R G fl"
    and "run_state (main X R G fl) s = (Running p, s0)"
    and "enableCrossCluster fl \<longrightarrow> s_HubClusterUID (p_Syncer p) \<noteq> []"
    and "steps X R p E s0 tr t"
    and "answering X store nslist H up accepts" and "up (world t)" and "s_Client (p_Syncer p) \<in> H"
    and "(kd, m) \<in> {(ConfigMapKind, ConfigMapReconciler_Reconcile X (p_Syncer p) ns n),
      (SecretKind, SecretReconciler_Reconcile X (p_Syncer p) ns n)}"
    and "store (s_Client (p_Syncer p)) (world t) (kd, ns, n) = Some obj"
    and "\<not> copy_of (s_Keys (p_Syncer p)) obj obj"
    and "DeletionTimestamp obj = None" and "isSource (s_Keys (p_Syncer p)) obj"
    and "labels_Parse X (selector_value (s_Keys (p_Syncer p)) obj) = Inr selector"
    and "hub_accepts accepts X store nslist (p_Syncer p) obj (read_world X (s_Client (p_Syncer p)) kd ns n t)"
    and "\<And>src. store (s_Client (p_Syncer p)) (world t1) (kd, ns, n) = Some src \<Longrightarrow>
      hub_accepts accepts X store nslist (p_Syncer p) src (read_world X (s_Client (p_Syncer p)) kd ns n t1)"
    and "run_state m t = (r1, t1)" and "run_state m t1 = (r2, t2)"
  shows "\<exists>src v res. src = with_finalizer X (s_Keys (p_Syncer p)) obj v \<and>
    store (s_Client (p_Syncer p)) (world t1) (kd, ns, n) = Some src \<and> r2 = Ret (res, None) \<and>
    synced (s_Keys (p_Syncer p)) src [] (Some (targetNamespaces (s_ExcludeNamespaces (p_Syncer p)) src selector
        (nslist (s_Client (p_Syncer p)) (world (read_world X (s_Client (p_Syncer p)) kd ns n t1))) fmempty))
      (store (s_Client (p_Syncer p)) (world t1)) (store (s_Client (p_Syncer p)) (world t2)) \<and>
    (spokes_accept accepts H store (p_Syncer p) src t1 \<longrightarrow> res = zero_Result \<and> spokes_converged store (p_Syncer p) src t1 False t2)"
proof -
  note start = deployment.start_inv [OF assms(1,2)]
  then have wf: "wf_KeySet (s_Keys (p_Syncer p))" and inv0: "deployment.inv store p s0"
    and guarded: "deployment.guarded cuid p" "deployment.hub_free cuid p s0" using assms(3) by blast+
  have "deployment.inv store p t \<and> deployment.hub_free cuid p t"
    using deployment.steps_inv [OF assms(1,4) wf inv0] guarded by blast
  note spokes = deployment.inv_spokes_only [OF assms(1) guarded(1) conjunct1 [OF this] conjunct2 [OF this]]
  consider (cm) "kd = ConfigMapKind" "m = ConfigMapReconciler_Reconcile X (p_Syncer p) ns n"
    | (sec) "kd = SecretKind" "m = SecretReconciler_Reconcile X (p_Syncer p) ns n" using assms(8) by blast
  then show ?thesis
  proof cases
    case cm
    show ?thesis
      using assms(9,14-17) unfolding cm
      by (intro configmap.Rec_twice [OF assms(5) wf assms(6,7) _ assms(10) spokes assms(11-13)])
  next
    case sec
    show ?thesis
      using assms(9,14-17) unfolding sec
      by (intro secret.Rec_twice [OF assms(5) wf assms(6,7) _ assms(10) spokes assms(11-13)])
  qed
qed

text \<open>After the demo run the clusters are reset to the small world, where the copies are missing.\<close>

definition demo_drifted :: "((nat, nat, mem) ClusterRegistry, mem) st" where
  "demo_drifted = demo_s4\<lparr>world := demo_world\<lparr>m_down := []\<rparr>\<rparr>"

definition demo_again :: "((nat, nat, mem) ClusterRegistry, mem) st \<Rightarrow>
    (Result \<times> error option) outcome \<times> ((nat, nat, mem) ClusterRegistry, mem) st" where
  "demo_again = run_state (ConfigMapReconciler_Reconcile demo_X (p_Syncer demo_program) ''d'' ''cm'')"

theorem program_recovers_witness:
  "mem_store 0 (world demo_drifted) (ConfigMapKind, ''e'', ''cm'') = None \<and>
   (let t1 = snd (demo_again demo_drifted) in
      (\<exists>res. fst (demo_again t1) = Ret (res, None)) \<and>
      mem_store 0 (world t1) (ConfigMapKind, ''e'', ''cm'') \<noteq> None)"
proof -
  let ?m = "ConfigMapReconciler_Reconcile demo_X (p_Syncer demo_program) ''d'' ''cm''"
  let ?t1 = "snd (run_state ?m demo_drifted)"
  have hub: "enableCrossCluster demo_flags \<longrightarrow> s_HubClusterUID (p_Syncer demo_program) \<noteq> []"
    by (simp add: demo_program_facts mem_uid_def)
  have "step demo_X mem_rest demo_program (\<lambda>_ _. True) demo_s4 Outside demo_drifted"
    unfolding demo_drifted_def by (rule step.outside) simp
  note st = steps.snoc [OF demo_steps this]
  have up: "set (m_down (world demo_drifted)) \<inter> UNIV = {}" by (simp add: demo_drifted_def)
  have which: "(ConfigMapKind, ?m) \<in> {(ConfigMapKind, ?m), (SecretKind, SecretReconciler_Reconcile demo_X (p_Syncer demo_program) ''d'' ''cm'')}"
    by simp
  have there: "mem_store 0 (world demo_drifted) (ConfigMapKind, ''d'', ''cm'') = Some demo_source"
    by (simp add: demo_drifted_def demo_healthy_facts(3) demo_stored)
  have run1: "run_state ?m demo_drifted = (fst (run_state ?m demo_drifted), ?t1)" by simp
  have run2: "run_state ?m ?t1 = (fst (run_state ?m ?t1), snd (run_state ?m ?t1))" by simp
  have "\<exists>res. fst (run_state ?m ?t1) = Ret (res, None)"
    using program_recovers [OF demo.deployment_axioms demo_main hub st mem.answering_axioms up _ which _ _ _ _ _ _ _ run1 run2,
        where selector = "\<lambda>_. True" and obj = demo_source]
      there demo_not_own_copy demo_active by (auto simp: demo_program_facts)
  moreover have "mem_store 0 (world demo_drifted) (ConfigMapKind, ''e'', ''cm'') = None" by code_simp
  moreover have "mem_store 0 (world (snd (demo_again demo_drifted))) (ConfigMapKind, ''e'', ''cm'') \<noteq> None"
    by code_simp
  ultimately show ?thesis by (simp add: Let_def demo_again_def)
qed

end
