(* ===== verification/Orphans.thy ===== *)
theory Orphans
  imports Recovery Remote_Properties
begin

text \<open>
  What becomes of the copies on a spoke that cannot be listed while their source is removed:
  nothing the program does to the rest of the world touches that spoke, the source is released
  all the same, and without its source no reconciliation comes back for the copies.
\<close>

subsection \<open>A cluster nothing happens to\<close>

text \<open>\<open>silent\<close>: as long as the world is \<open>up\<close>, no list call gets an answer from the cluster.\<close>

definition silent :: "('c, 'w) ext \<Rightarrow> ('w \<Rightarrow> bool) \<Rightarrow> 'c \<Rightarrow> bool" where
  "silent X up cl \<longleftrightarrow> (\<forall>kd opt w. up w \<longrightarrow> isl (fst (client_list X cl kd opt w)))"

definition undisturbed ::
  "('w \<Rightarrow> bool) \<Rightarrow> ('c \<Rightarrow> 'w \<Rightarrow> okey \<Rightarrow> object option) \<Rightarrow> 'c \<Rightarrow>
     (('cfg, 'c, 'w) ClusterRegistry, 'w) st \<Rightarrow> (('cfg, 'c, 'w) ClusterRegistry, 'w) st \<Rightarrow> bool" where
  "undisturbed up store cl s s' \<longleftrightarrow>
     (up (world s) \<longrightarrow> up (world s') \<and> store cl (world s') = store cl (world s))"

interpretation aside: run_relation "undisturbed up store cl" for up store cl
  by unfold_locales (auto simp: undisturbed_def)

interpretation aside_registry: registry_relation "undisturbed up store cl" for up store cl ..

context answering begin

lemma aside_emit:
  "aside.follows up store cl (emit e)" "aside.follows up store cl (Eventf obj ty reason fmt args)"
  "aside.follows up store cl (countDeleted obj n)"
  by (rule aside.followsI; simp add: undisturbed_def wp_rules)+

lemma aside_List: "aside.follows up store cl (List X c kd opt)"
  using up_list list_store
  by (intro aside.followsI) (simp add: undisturbed_def List_def wp_api split: prod.splits, metis snd_conv)

lemma aside_Delete: "c \<noteq> cl \<Longrightarrow> aside.follows up store cl (Delete X c obj)"
  using up_delete delete_frame
  by (intro aside.followsI) (simp add: undisturbed_def Delete_def wp_api fun_eq_iff split: prod.splits, metis snd_conv prod.inject)

lemma aside_Update: "c \<noteq> cl \<Longrightarrow> aside.follows up store cl (Update X c obj)"
  using up_update update_frame
  by (intro aside.followsI) (simp add: undisturbed_def Update_def wp_api fun_eq_iff split: prod.splits, metis snd_conv prod.inject)

lemmas aside_rules = aside.follows_rules aside_registry.follows_registry aside_emit aside_List

text \<open>On a silent cluster, what follows the listing is never reached.\<close>

lemma aside_List_silent:
  fixes f :: "error \<Rightarrow> (('cfg, 'c, 'w) ClusterRegistry, 'w, 'a) go"
  assumes "silent X up cl" and "\<And>e. aside.follows up store cl (f e)"
  shows "aside.follows up store cl (do { r \<leftarrow> List X cl kd opt; case r of Inl e \<Rightarrow> f e | Inr l \<Rightarrow> g l })"
proof (rule aside.followsI)
  fix s :: "(('cfg, 'c, 'w) ClusterRegistry, 'w) st"
  obtain r w' where r: "client_list X cl kd opt (world s) = (r, w')" by (rule prod.exhaust)
  show "wp (do { r \<leftarrow> List X cl kd opt; case r of Inl e \<Rightarrow> f e | Inr l \<Rightarrow> g l }) (\<lambda>_ s'. undisturbed up store cl s s') s"
  proof (cases "up (world s)")
    case False
    then show ?thesis by (simp add: wp_def undisturbed_def)
  next
    case True
    then obtain e where e: "r = Inl e" using assms(1) r by (metis silent_def fst_conv isl_def)
    have "up w'" using up_list [OF True, of cl kd opt] r by simp
    moreover have "store cl w' = store cl (world s)" by (rule list_store [OF r])
    ultimately show ?thesis
      using wp_mono [OF aside.followsD [OF assms(2), of e "s\<lparr>world := w'\<rparr>"]] True
      by (simp add: wp_bind List_def wp_api r e undisturbed_def)
  qed
qed

lemma aside_deleteCopies:
  assumes "silent X up cl"
  shows "aside.follows up store cl (deleteCopies X sy c src keep oc)"
proof (cases "c = cl")
  case True
  show ?thesis
    unfolding True deleteCopies_def
    by (intro aside_rules aside_List_silent [OF assms])
next
  case False
  then show ?thesis
    unfolding deleteCopies_def deleteCopies_item_def by (intro aside_rules aside_Delete)
qed

lemma aside_cleanup:
  assumes "silent X up cl" and "s_Client sy \<noteq> cl"
  shows "aside.follows up store cl (cleanupAndRemoveFinalizer X sy obj)"
  unfolding cleanupAndRemoveFinalizer_def dropFinalizers_def deleteRemoteCopies_def deleteRemoteCopies_cluster_def
  by (intro aside_rules aside_deleteCopies aside_Update assms)

end

subsection \<open>The source goes, the copies stay\<close>

context kind_controller begin

lemma Rec_leaves_orphans:
  assumes A: "answering X store nslist H up accepts" and wf: "wf_KeySet (s_Keys sy)" and up: "up (world s)"
    and hub: "s_Client sy \<in> H" and obj: "store (s_Client sy) (world s) (K, ns, n) = Some obj"
    and own: "\<not> copy_of (s_Keys sy) obj obj" and spokes: "spokes_only sy s"
    and dying: "DeletionTimestamp obj \<noteq> None" "set (Finalizers obj) \<subseteq> Finalizer ` set (each (s_Keys sy))"
    and acc: "accepts (s_Client sy) (Some obj) (removeAllFinalizers (finalizers X) (s_Keys sy) obj)"
    and spoke: "registry s = Some rg" "reg_lookup rg cid = Some cl" and down: "silent X up cl"
    and run: "run_state (Rec X sy ns n) s = (r, s')"
  shows "r = Ret (zero_Result, None) \<and> store (s_Client sy) (world s') (K, ns, n) = None \<and>
    store cl (world s') = store cl (world s)"
proof -
  note P = answering.axioms(1) [OF A]
  note api = platform.axioms(1) [OF P] and U = platform.axioms(2) [OF P]
  let ?ks = "s_Keys sy" and ?s = "read_world X (s_Client sy) K ns n s"
  have key: "okey obj = (K, ns, n)" using api_server.stored_key [OF api obj] .
  then have kind: "objKind obj \<noteq> OtherKind" using replicable by (simp add: okey_def)
  have other: "s_Client sy \<noteq> cl" using spokes spoke by (auto simp: spokes_only_def)
  have "Finalizers obj \<noteq> []" using api_server.stored_terminating [OF api obj dying(1)] .
  then have fin: "hasFinalizer (finalizers X) ?ks obj"
    using dying(2) by (cases "Finalizers obj") (auto simp: finalizer_laws.hasFinalizer_iff [OF U])
  have "Finalizers (removeAllFinalizers (finalizers X) ?ks obj) = []"
    using dying(2) by (auto simp: finalizer_laws.removeAllFinalizers_eq [OF U] filter_empty_conv)
  then have gone: "persisted (removeAllFinalizers (finalizers X) ?ks obj) v = None" for v
    using dying(1) by (simp add: persisted_def finalizer_laws.removeAllFinalizers_eq [OF U])
  have accepted: "hub_accepts accepts X store nslist sy obj ?s" using dying(1) acc by (simp add: hub_accepts_def Let_def)
  note post = Rec_healthy [OF A wf up hub obj own spokes accepted run, THEN conjunct1, unfolded healthy_post_def]
  from post have slot: "store (s_Client sy) (world s') (K, ns, n) = None"
    using dying(1) fin gone by (auto simp: key)
  obtain s1 where s1: "run_state (reconcileSource X sy obj) ?s = (r, s1)" "world s' = world s1"
    by (rule Rec_found [OF A up hub obj run])
  have self: "store (s_Client sy) (world ?s) (okey obj) = Some obj" by (simp add: read_store [OF api] obj key)
  have "spokes_only sy ?s" using spokes by (simp add: spokes_only_def)
  then have result: "r = Ret (zero_Result, None)"
    using post wp_runD [OF platform.wp_reconcileSource_release [OF P wf kind disjI1 [OF dying(1)] fin self own] s1(1)]
    by auto
  have "aside.follows up store cl (reconcileSource X sy obj)"
    using dying(1) unfolding reconcileSource_def
    by (simp, intro aside.follows_rules answering.aside_cleanup [OF A down other])
  then have "undisturbed up store cl ?s s1" by (rule wp_runD [OF aside.followsD s1(1)])
  moreover have "up (world ?s)" using answering.up_get [OF A up] by (simp add: read_world_def)
  ultimately have "store cl (world s') = store cl (world s)"
    by (simp add: undisturbed_def s1(2) read_store [OF api])
  with result slot show ?thesis by blast
qed

text \<open>A reconciliation of a source that is not there changes no cluster.\<close>

lemma Rec_absent:
  assumes "api_server X store nslist" and "store (s_Client sy) (world s) (K, ns, n) = None"
    and "run_state (Rec X sy ns n) s = (r, s')"
  shows "store c (world s') = store c (world s)"
proof -
  have "wp (Rec X sy ns n) (\<lambda>_ s'. store c (world s') = store c (world s)) s"
    unfolding Rec_eq wp_bind
    by (rule api_server.wp_Get [OF assms(1)]) (simp_all add: assms(2) wp_rules)
  then show ?thesis by (rule wp_runD [OF _ assms(3)])
qed

end

text \<open>
  C40: a source can be removed while a spoke that holds its copies does not answer. When the hub
  answers and accepts the update that drops the finalizers, a reconciliation of a source that is
  being deleted, and that only our finalizers hold, ends without error and without asking for a
  retry: the source is gone from the hub, and everything on the silent spoke, the copies of the
  source with it, is as it was. No reconciliation for that key removes them afterwards, in
  whatever state it starts and even when the spoke is back, as long as the source is not created
  anew.
\<close>

theorem unreachable_spoke_keeps_copies:
  assumes "answering X store nslist H up accepts" and "wf_KeySet (s_Keys sy)"
    and "up (world s)" and "s_Client sy \<in> H"
    and "(kd, m) \<in> {(ConfigMapKind, ConfigMapReconciler_Reconcile X sy ns n),
      (SecretKind, SecretReconciler_Reconcile X sy ns n)}"
    and "store (s_Client sy) (world s) (kd, ns, n) = Some obj" and "\<not> copy_of (s_Keys sy) obj obj"
    and "spokes_only sy s"
    and "DeletionTimestamp obj \<noteq> None" and "set (Finalizers obj) \<subseteq> Finalizer ` set (each (s_Keys sy))"
    and "accepts (s_Client sy) (Some obj) (removeAllFinalizers (finalizers X) (s_Keys sy) obj)"
    and "registry s = Some rg" and "reg_lookup rg cid = Some cl" and "silent X up cl"
    and "run_state m s = (r, s')"
  shows "r = Ret (zero_Result, None) \<and> store (s_Client sy) (world s') (kd, ns, n) = None \<and>
    store cl (world s') = store cl (world s) \<and>
    (\<forall>t r' t' c. store (s_Client sy) (world t) (kd, ns, n) = None \<and> run_state m t = (r', t') \<longrightarrow>
       store c (world t') = store c (world t))"
proof -
  note api = platform.axioms(1) [OF answering.axioms(1) [OF assms(1)]]
  consider (cm) "kd = ConfigMapKind" "m = ConfigMapReconciler_Reconcile X sy ns n"
    | (sec) "kd = SecretKind" "m = SecretReconciler_Reconcile X sy ns n" using assms(5) by blast
  then show ?thesis
  proof cases
    case cm
    have "r = Ret (zero_Result, None) \<and> store (s_Client sy) (world s') (ConfigMapKind, ns, n) = None \<and>
        store cl (world s') = store cl (world s)"
      using assms(6,15) unfolding cm
      by (intro configmap.Rec_leaves_orphans [OF assms(1-4) _ assms(7-14)])
    then show ?thesis unfolding cm using configmap.Rec_absent [OF api] by blast
  next
    case sec
    have "r = Ret (zero_Result, None) \<and> store (s_Client sy) (world s') (SecretKind, ns, n) = None \<and>
        store cl (world s') = store cl (world s)"
      using assms(6,15) unfolding sec
      by (intro secret.Rec_leaves_orphans [OF assms(1-4) _ assms(7-14)])
    then show ?thesis unfolding sec using secret.Rec_absent [OF api] by blast
  qed
qed

text \<open>
  The in-memory platform with an outage: the clusters \<open>D\<close> are down, as in the demo world, where
  the second spoke is.
\<close>

interpretation outage: answering "mem_ext ks" mem_store "\<lambda>c w. m_namespaces w c" H
  "\<lambda>w. set (m_down w) \<inter> H = {} \<and> D \<subseteq> set (m_down w)" "\<lambda>_ _ _. True" for ks H D
proof (rule answering.intro [OF mem.platform_axioms], unfold_locales)
qed (auto simp: mem_get_def mem_list_def mem_create_def mem_update_def mem_delete_def mem_list_namespaces_def
    mem_put_def IsNotFound_def IsAlreadyExists_def split: if_splits option.splits)

theorem unreachable_spoke_keeps_copies_witness:
  "let m = run_state (ConfigMapReconciler_Reconcile demo_X demo_syncer ''d'' ''cm'');
      s = demo_state\<lparr>world := demo_orphan_world\<rparr>;
      s' = snd (m s);
      t = s'\<lparr>world := (world s')\<lparr>m_down := []\<rparr>\<rparr>
    in mem_store 0 (world s) (ConfigMapKind, ''d'', ''cm'') = Some demo_dying \<and>
       ownsCopy demo_keys demo_remote_copy demo_dying (mem_uid 0) \<and>
       mem_store 0 (world s') (ConfigMapKind, ''d'', ''cm'') = None \<and>
       mem_store 2 (world (snd (m t))) (ConfigMapKind, ''x'', ''cm'') = Some demo_remote_copy"
proof -
  let ?m = "ConfigMapReconciler_Reconcile demo_X demo_syncer ''d'' ''cm''"
  let ?s = "demo_state\<lparr>world := demo_orphan_world\<rparr>"
  let ?s' = "snd (run_state ?m ?s)"
  let ?t = "?s'\<lparr>world := (world ?s')\<lparr>m_down := []\<rparr>\<rparr>"
  have run: "run_state ?m ?s = (fst (run_state ?m ?s), ?s')" by simp
  have run': "run_state ?m ?t = (fst (run_state ?m ?t), snd (run_state ?m ?t))" by simp
  have there: "mem_store 0 demo_orphan_world (ConfigMapKind, ''d'', ''cm'') = Some demo_dying" by code_simp
  have copy: "mem_store 2 demo_orphan_world (ConfigMapKind, ''x'', ''cm'') = Some demo_remote_copy" by code_simp
  have owned: "ownsCopy demo_keys demo_remote_copy demo_dying (mem_uid 0)" by code_simp
  have own: "\<not> copy_of demo_keys demo_dying demo_dying" by code_simp
  have up: "set (m_down (world ?s)) \<inter> {0, 1} = {} \<and> {2} \<subseteq> set (m_down (world ?s))" by code_simp
  have which: "(ConfigMapKind, ?m) \<in> {(ConfigMapKind, ?m), (SecretKind, SecretReconciler_Reconcile demo_X demo_syncer ''d'' ''cm'')}"
    by simp
  have spokes: "spokes_only demo_syncer ?s" using demo_spokes by (simp add: spokes_only_def)
  have fin: "set (Finalizers demo_dying) \<subseteq> Finalizer ` set (each demo_keys)" by code_simp
  have second: "reg_lookup demo_registry ''s2'' = Some 2" by code_simp
  have down: "silent demo_X (\<lambda>w. set (m_down w) \<inter> {0, 1} = {} \<and> {2} \<subseteq> set (m_down w)) 2"
    by (simp add: silent_def mem_list_def)
  have dying: "DeletionTimestamp demo_dying \<noteq> None" by (simp add: demo_dying_def)
  have reg: "registry ?s = Some demo_registry" by simp
  have stored: "mem_store (s_Client demo_syncer) (world ?s) (ConfigMapKind, ''d'', ''cm'') = Some demo_dying"
    using there by simp
  have hub: "s_Client demo_syncer \<in> {0, 1}" and wf: "wf_KeySet (s_Keys demo_syncer)" by simp_all
  note orphan = unreachable_spoke_keeps_copies [OF outage.answering_axioms wf up hub which stored _ spokes dying _ _ reg
      second down run, unfolded demo_facts, OF own fin TrueI]
  note gone = orphan [THEN conjunct2, THEN conjunct1]
    and kept = orphan [THEN conjunct2, THEN conjunct2, THEN conjunct1]
    and later = orphan [THEN conjunct2, THEN conjunct2, THEN conjunct2]
  have same: "mem_store c (w\<lparr>m_down := []\<rparr>) = mem_store c w" for c w by (simp add: mem_store_def fun_eq_iff)
  have "mem_store 2 (world (snd (run_state ?m ?t))) = mem_store 2 demo_orphan_world"
    using later [rule_format, OF conjI [OF _ run']] gone kept by (simp add: same)
  with there copy owned gone show ?thesis by (simp add: Let_def)
qed

end
