(* ===== verification/Spec2Isabelle.thy ===== *)
theory Spec2Isabelle
  imports Key_Properties Source_Properties Remote_Properties System_Properties Watch_Properties
    Coexistence Race_Properties Orphans
begin

text \<open>
  Replikate: a Kubernetes controller that copies annotated ConfigMaps and Secrets into other
  namespaces, and to spoke clusters. The program is the Go code of \<open>cmd/main.go\<close> and
  \<open>internal/controller\<close>; this development models it as a shallow embedding and proves what makes
  it correct.

  The program. Two controllers (\<open>configmap_controller.go\<close>, \<open>secret_controller.go\<close>) share a
  \<open>Syncer\<close> (\<open>syncer.go\<close>). Reconciling a source computes its target namespaces, creates, updates
  or adopts a copy in each (\<open>upsertCopy\<close>), deletes the copies elsewhere (\<open>deleteCopies\<close>), and does
  the same on the spokes its target list names (\<open>cross_cluster.go\<close>). A finalizer keeps a source
  until its copies are gone. Which annotations and labels count is decided by a \<open>KeySet\<close>
  (\<open>keyset.go\<close>, \<open>replikate.go\<close>): one primary domain is written, legacy domains are still read.
  The spokes are held by a registry (\<open>registry.go\<close>) that the credential reconciler
  (\<open>cluster_controller.go\<close>) fills from labeled Secrets; when a spoke comes up it signals the
  controllers through two bounded channels. A webhook (\<open>webhook.go\<close>) refuses selectors that do
  not parse, a counter (\<open>domain_counter.go\<close>) publishes the copies per domain, and \<open>main\<close> wires it
  all.

  The embedding. A Go function that touches the world is a program in the state monad over \<open>st\<close>:
  the clusters (an abstract world), the registry, the log of events and metric updates, the
  channels. Structs are records, type switches datatypes, \<open>(value, error)\<close> pairs stay pairs or
  are sums, a nil dereference is \<open>Panic\<close>. A \<open>for range\<close> with \<open>continue\<close> and \<open>return\<close> is
  \<open>for_range\<close> over a \<open>flow\<close>; a range over a map visits the keys in an order the program does not
  know. Definitions carry the names of the code, in its order; a long function is cut at its own
  loops and paragraphs.

  Theories that model code:
  \<^item> \<open>Go_Prelude\<close>: strings, maps, control flow, the weakest-precondition calculus \<open>wp\<close>.
  \<^item> \<open>Objects\<close>, \<open>Domain_Keys\<close>: payload and metadata of objects (\<open>replikate.go\<close>), \<open>Keys\<close> and
    \<open>KeySet\<close> (\<open>keyset.go\<close>). Locales \<open>copy_marks\<close>, \<open>finalizer_laws\<close>.
  \<^item> \<open>Target_Lists\<close>: \<open>NamespaceSet\<close>, \<open>parseTargetClusters\<close>, \<open>destNamespaces\<close>.
  \<^item> \<open>Platform\<close>: everything external as a record of functions, with the locales \<open>api_server\<close> and
    \<open>platform\<close> for what the code relies on.
  \<^item> \<open>Copy_Sync\<close>, \<open>Footprint\<close>: \<open>upsertCopy\<close> and \<open>deleteCopies\<close> with their abstract specification
    (\<open>spec_upsert\<close>, \<open>prunable\<close>), and what they compose to (\<open>footprint\<close>, \<open>synced\<close>).
  \<^item> \<open>Cluster_Registry\<close>, \<open>Credentials\<close>: the registry as a table, locale \<open>registry_contract\<close>, and
    the credential reconciler with its verdicts.
  \<^item> \<open>Cross_Cluster\<close>, \<open>Source_Reconcile\<close>: the fan-out, the removal from spokes and
    \<open>reconcileSource\<close> with every branch.
  \<^item> \<open>Watches\<close>, \<open>Webhook\<close>, \<open>Domain_Counter\<close>, \<open>Manager\<close>: the watch mappings and predicates, the
    admission handler, the counter loop, the start of the program and its exit codes.
  \<^item> \<open>System\<close>: the running program as a labelled transition relation, with its invariants.

  Theories of properties (a property is a theorem with a C-number, stated in words before it):
  \<^item> \<open>Key_Properties\<close>, \<open>Target_Lists\<close>: keys never collide, a stamped copy is owned and found by
    its source and never triggers, finalizers settle, target lists parse as documented and round
    trip.
  \<^item> \<open>Copy_Properties\<close>, \<open>Source_Properties\<close>, \<open>Source_Lifecycle\<close>, \<open>Remote_Properties\<close>: an upsert
    refines its specification, a deletion deletes exactly what may go, a reconciliation converges,
    leaves other objects alone, respects exclusions and keeps its source; the finalizer comes
    first and goes last; spokes.
  \<^item> \<open>Registry_Properties\<close>, \<open>Manager_Properties\<close>, \<open>Watch_Properties\<close>: the registry against its
    history, the credential reconciler, the wiring, the hub identity, events, metrics, webhook,
    watches, counter.
  \<^item> \<open>System_Properties\<close>: over every sequence of steps bystanders survive and the channels stay
    bounded, whatever the configuration, and the hub is never registered as a spoke once its
    identity has been read.
  \<^item> \<open>Liveness_Properties\<close>: when the clusters answer and accept what is written, a reconciliation
    succeeds; a second one changes nothing. \<open>Recovery\<close>: so two of them repair a source in every
    state the program reaches that knows the identity of the hub or runs without cross-cluster
    support.
  \<^item> \<open>Orphans\<close>: a source is removed although a spoke with its copies does not answer, and nothing
    removes those copies later.
  \<^item> \<open>Race_Properties\<close>: with other writers between any two calls and stale reads, creations and
    replacements are still allowed for what they meet when they take effect; a deletion is tied to
    a copy that has been served under its key, and may hit what has replaced it.
  \<^item> \<open>Coexistence\<close>: reconciling other sources, in any order, leaves the copies of a source alone.

  \<open>Mem_Platform\<close> and \<open>Racy_Platform\<close> are executable instances of the external world; they show
  that the assumed laws can hold together, and the witnesses run on them. \<open>Effect_Log\<close>,
  \<open>Bystanders\<close>, \<open>Liveness\<close> and \<open>Interference\<close> hold the calculi behind these theories: relations
  kept by every run, the objects that are none of the program's business, programs that meet no
  error, and the writes under interference.

  What is assumed. Code that is not in the repository is a parameter: the Kubernetes client,
  \<open>labels.Parse\<close>, \<open>controllerutil\<close>, \<open>clientcmd\<close>, \<open>client.New\<close>, JSON decoding, the manager. Its
  laws are locale assumptions. Under \<open>api_server\<close> any call may fail, and a failed write may have
  taken effect all the same, but nobody else writes during a run; under \<open>shared_server\<close> anybody
  may, and a read may be stale. \<open>answering\<close> adds to \<open>platform\<close> that clusters which are up answer
  reads and carry out deletions, and that they carry out a write they accept; which writes a
  cluster accepts is a parameter (\<open>accepts\<close>) of which nothing is assumed, since it depends on
  namespaces that are missing or terminating, on the validation of labels, on immutable Secrets
  and ConfigMaps and on admission. The theorems that rest on it say which writes they need
  accepted.

  Bounds. Durations are numbers of seconds (the retry of a failed spoke 60, the recheck of a
  spoke 120, a request to a spoke 10) except in the counter. The channels have the capacity 64 of
  the code. The hub identity is read at most five times, as in the code. No fuel is used: every
  loop of the program is over a list, and the endless loop of the counter is a function of the
  signals it receives.

  Not modelled: log lines, flag parsing and the help texts, registration of the scheme
  (\<open>init\<close> of \<open>main.go\<close>), leader election, the work queue of controller-runtime with its retries and
  back-off, TLS and probes, the rendering of error strings (an error keeps its format and
  arguments). Timeouts are passed on and not interpreted. A mutex makes each method of the
  registry one step. The field \<open>immutable\<close> of ConfigMaps and Secrets, which the code never reads,
  is left out of the payload; that it makes an update fail is a matter of \<open>accepts\<close>. The charts, manifests and CI files hold no Go code.

  Where the code and its documentation disagree: a legacy domain given twice is kept twice; the
  copy on a spoke that is down when its source goes is orphaned; exclusions do not apply on
  spokes; a copy may be counted under two domains; a source without targets still contacts the
  spokes when it goes; a spoke registered under two ids loses its copies again; a deletion is not
  conditioned on the version that was listed; and a deletion takes one copy per namespace at most,
  the first that is listed, so that a second copy of a source in a namespace, or one listed behind
  a copy of another hub, outlives its source.
\<close>

end
